(* ===== verification/Prelude.thy ===== *)
theory Prelude
  imports Complex_Main "HOL-Library.Word" "HOL-Library.Sublist" "HOL-Library.AList"
begin

text \<open>
  Shared vocabulary of the development: the machine integers of the Rust program,
  the byte strings it passes around, the standard-library string routines the source
  calls (\<^verbatim>\<open>split\<close>, \<^verbatim>\<open>join\<close>, \<^verbatim>\<open>trim\<close>, \<^verbatim>\<open>strip_prefix\<close>,
  \<^verbatim>\<open>eq_ignore_ascii_case\<close>, \<^verbatim>\<open>parse\<close>, decimal printing), saturating
  arithmetic, instants and durations, and the generic lemmas on lists and options the
  component theories use.

  A Rust \<^verbatim>\<open>String\<close> is a sequence of UTF-8 bytes and so is a \<^typ>\<open>string\<close>, whose
  characters are 8-bit: lengths and indices count bytes, as \<^verbatim>\<open>str::len\<close> and slicing do.
\<close>

unbundle bit_operations_syntax

named_theorems str_simps \<open>equations of the string routines\<close>
named_theorems inv_intros \<open>preservation of the components' invariants\<close>

type_synonym u8 = "8 word"
type_synonym u16 = "16 word"
type_synonym u32 = "32 word"
type_synonym u64 = "64 word"
type_synonym bytes = "char list"

section \<open>Options\<close>

text \<open>\<^verbatim>\<open>Option::is_some_and\<close> and \<^verbatim>\<open>Option::is_none_or\<close>.\<close>

definition is_some_and :: "'a option \<Rightarrow> ('a \<Rightarrow> bool) \<Rightarrow> bool" where
  "is_some_and v f = (case v of None \<Rightarrow> False | Some x \<Rightarrow> f x)"

definition is_none_or :: "'a option \<Rightarrow> ('a \<Rightarrow> bool) \<Rightarrow> bool" where
  "is_none_or v f = (case v of None \<Rightarrow> True | Some x \<Rightarrow> f x)"

definition unwrap_or :: "'a option \<Rightarrow> 'a \<Rightarrow> 'a" where
  "unwrap_or v d = (case v of None \<Rightarrow> d | Some x \<Rightarrow> x)"

definition or_else :: "'a option \<Rightarrow> 'a option \<Rightarrow> 'a option" where
  "or_else a b = (case a of None \<Rightarrow> b | Some x \<Rightarrow> Some x)"

lemma is_some_and_simps [simp]:
  "is_some_and None f = False" "is_some_and (Some x) f = f x"
  by (simp_all add: is_some_and_def)

lemma is_none_or_simps [simp]:
  "is_none_or None f = True" "is_none_or (Some x) f = f x"
  by (simp_all add: is_none_or_def)

lemma unwrap_or_simps [simp]:
  "unwrap_or None d = d" "unwrap_or (Some x) d = x"
  by (simp_all add: unwrap_or_def)

lemma or_else_simps [simp]:
  "or_else None b = b" "or_else (Some x) b = Some x"
  by (simp_all add: or_else_def)

lemma is_none_or_neg: "is_none_or v (\<lambda>x. \<not> f x) \<longleftrightarrow> \<not> is_some_and v f"
  by (cases v) simp_all

text \<open>\<^verbatim>\<open>Iterator::find_map\<close>, and a loop that returns at its first hit.\<close>

fun find_map :: "('a \<Rightarrow> 'b option) \<Rightarrow> 'a list \<Rightarrow> 'b option" where
  "find_map f [] = None"
| "find_map f (x # xs) = (case f x of None \<Rightarrow> find_map f xs | Some y \<Rightarrow> Some y)"

lemma find_map_append: "find_map f (xs @ ys) = or_else (find_map f xs) (find_map f ys)"
  by (induction xs) (auto split: option.splits)

lemma find_map_None_iff: "find_map f xs = None \<longleftrightarrow> (\<forall>x \<in> set xs. f x = None)"
  by (induction xs) (auto split: option.splits)

lemma find_map_SomeD:
  "find_map f xs = Some y \<Longrightarrow> \<exists>us x vs. xs = us @ x # vs \<and> f x = Some y \<and> (\<forall>u \<in> set us. f u = None)"
proof (induction xs)
  case (Cons a xs)
  show ?case
  proof (cases "f a")
    case None
    with Cons obtain us x vs where "xs = us @ x # vs" "f x = Some y" "\<forall>u \<in> set us. f u = None" by auto
    with None show ?thesis by (intro exI [of _ "a # us"]) auto
  next
    case (Some b)
    with Cons.prems show ?thesis by (intro exI [of _ "[]"]) auto
  qed
qed simp

lemma find_map_Some_set: "find_map f xs = Some y \<Longrightarrow> \<exists>x \<in> set xs. f x = Some y"
  by (induction xs) (auto split: option.splits)

section \<open>Splitting and joining\<close>

text \<open>\<^verbatim>\<open>str::split(c)\<close>: always at least one piece; adjacent separators give empty pieces.\<close>

fun split_on :: "'a \<Rightarrow> 'a list \<Rightarrow> 'a list list" where
  "split_on c [] = [[]]"
| "split_on c (x # xs) =
     (if x = c then [] # split_on c xs
      else case split_on c xs of [] \<Rightarrow> [[x]] | s # ss \<Rightarrow> (x # s) # ss)"

text \<open>\<^verbatim>\<open>[&str]::join(c)\<close>.\<close>

fun join_with :: "'a \<Rightarrow> 'a list list \<Rightarrow> 'a list" where
  "join_with c [] = []"
| "join_with c [s] = s"
| "join_with c (s # t # ts) = s @ c # join_with c (t # ts)"

lemma split_on_ne [simp]: "split_on c xs \<noteq> []"
  by (cases xs) (auto split: list.splits)

lemma split_on_Cons:
  "split_on c (x # xs) =
     (if x = c then [] # split_on c xs else (x # hd (split_on c xs)) # tl (split_on c xs))"
  by (auto split: list.splits)

declare split_on.simps(2) [simp del]

lemma join_with_Cons: "ss \<noteq> [] \<Longrightarrow> join_with c (s # ss) = s @ c # join_with c ss"
  by (cases ss) auto

lemma join_with_hd_Cons: "ss \<noteq> [] \<Longrightarrow> join_with c ((x # hd ss) # tl ss) = x # join_with c ss"
  by (cases ss; cases "tl ss") auto

lemma join_split_on: "join_with c (split_on c xs) = xs"
  by (induction xs) (auto simp: split_on_Cons join_with_Cons join_with_hd_Cons)

lemma hd_split_on_mem [simp]: "hd (split_on c xs) \<in> set (split_on c xs)"
  by simp

lemma tl_split_on_mem: "t \<in> set (tl (split_on c xs)) \<Longrightarrow> t \<in> set (split_on c xs)"
  by (meson list.set_sel(2) split_on_ne)

lemma split_on_no_sep: "s \<in> set (split_on c xs) \<Longrightarrow> c \<notin> set s"
proof (induction xs arbitrary: s)
  case (Cons x xs)
  from Cons.IH[OF hd_split_on_mem] Cons show ?case
    by (auto simp: split_on_Cons dest: tl_split_on_mem split: if_splits)
qed simp

lemma split_on_single: "c \<notin> set s \<Longrightarrow> split_on c s = [s]"
  by (induction s) (auto simp: split_on_Cons)

lemma split_on_append_sep: "c \<notin> set s \<Longrightarrow> split_on c (s @ c # xs) = s # split_on c xs"
  by (induction s) (auto simp: split_on_Cons)

lemma split_join_with:
  "ss \<noteq> [] \<Longrightarrow> (\<And>s. s \<in> set ss \<Longrightarrow> c \<notin> set s) \<Longrightarrow> split_on c (join_with c ss) = ss"
  by (induction c ss rule: join_with.induct) (auto simp: split_on_single split_on_append_sep)

lemma set_split_on: "x \<in> set s \<Longrightarrow> s \<in> set (split_on c xs) \<Longrightarrow> x \<in> set xs"
proof (induction xs arbitrary: s)
  case (Cons y xs)
  show ?case
  proof (cases "y = c \<or> s \<noteq> y # hd (split_on c xs)")
    case True
    with Cons show ?thesis by (auto simp: split_on_Cons dest: tl_split_on_mem split: if_splits)
  next
    case False
    with Cons.prems Cons.IH[of "hd (split_on c xs)"] show ?thesis by (auto simp: split_on_Cons)
  qed
qed simp

lemma set_join_with: "x \<in> set (join_with c ss) \<Longrightarrow> x = c \<or> (\<exists>s \<in> set ss. x \<in> set s)"
  by (induction c ss rule: join_with.induct) auto

declare split_on.simps(2) [simp]

text \<open>\<^verbatim>\<open>join\<close> with a separator of any length.\<close>

fun join_str :: "'a list \<Rightarrow> 'a list list \<Rightarrow> 'a list" where
  "join_str sep [] = []"
| "join_str sep [s] = s"
| "join_str sep (s # t # ts) = s @ sep @ join_str sep (t # ts)"

section \<open>Fallible loops\<close>

text \<open>
  A loop whose body may return early with an error (\<^verbatim>\<open>?\<close> in the source): the first error
  ends it, otherwise the updated elements are collected.
\<close>

fun try_map :: "('a \<Rightarrow> 'e + 'b) \<Rightarrow> 'a list \<Rightarrow> 'e + 'b list" where
  "try_map f [] = Inr []"
| "try_map f (x # xs) =
     (case f x of Inl e \<Rightarrow> Inl e
      | Inr y \<Rightarrow> (case try_map f xs of Inl e \<Rightarrow> Inl e | Inr ys \<Rightarrow> Inr (y # ys)))"

lemma try_map_cong [fundef_cong]:
  "xs = ys \<Longrightarrow> (\<And>x. x \<in> set ys \<Longrightarrow> f x = g x) \<Longrightarrow> try_map f xs = try_map g ys"
proof -
  assume "xs = ys" and "\<And>x. x \<in> set ys \<Longrightarrow> f x = g x"
  then show ?thesis by (induction ys arbitrary: xs) (auto split: sum.splits)
qed

lemma try_map_Cons_Inr:
  "try_map f (x # xs) = Inr ys \<longleftrightarrow> (\<exists>z zs. ys = z # zs \<and> f x = Inr z \<and> try_map f xs = Inr zs)"
  by (auto split: sum.splits)

lemma try_map_Inr_iff: "try_map f xs = Inr ys \<longleftrightarrow> list_all2 (\<lambda>x y. f x = Inr y) xs ys"
proof (induction xs arbitrary: ys)
  case (Cons x xs)
  then show ?case unfolding try_map_Cons_Inr list_all2_Cons1 by blast
qed auto

lemma list_all2_set_right: "list_all2 P xs ys \<Longrightarrow> y \<in> set ys \<Longrightarrow> \<exists>x \<in> set xs. P x y"
  by (induction rule: list_all2_induct) auto

lemma list_all2_set_left: "list_all2 P xs ys \<Longrightarrow> x \<in> set xs \<Longrightarrow> \<exists>y \<in> set ys. P x y"
  by (induction rule: list_all2_induct) auto

lemma try_map_set: "try_map f xs = Inr ys \<Longrightarrow> y \<in> set ys \<Longrightarrow> \<exists>x \<in> set xs. f x = Inr y"
  by (auto simp: try_map_Inr_iff dest: list_all2_set_right)

lemma try_map_Inl: "try_map f xs = Inl e \<Longrightarrow> \<exists>x \<in> set xs. f x = Inl e"
  by (induction xs) (auto split: sum.splits)

lemma try_map_total:
  assumes "\<And>x. x \<in> set xs \<Longrightarrow> \<exists>y. f x = Inr y"
  shows "\<exists>ys. try_map f xs = Inr ys"
proof (cases "try_map f xs")
  case (Inl e)
  then obtain x where "x \<in> set xs" and "f x = Inl e" using try_map_Inl by metis
  with assms [of x] show ?thesis by auto
qed auto

lemma try_map_fails: "x \<in> set xs \<Longrightarrow> f x = Inl e \<Longrightarrow> \<exists>e'. try_map f xs = Inl e'"
  by (induction xs) (auto split: sum.splits)

text \<open>\<^verbatim>\<open>if let Some(ref mut v) = slot\<close> around a fallible update.\<close>

definition try_option :: "('a \<Rightarrow> 'e + 'b) \<Rightarrow> 'a option \<Rightarrow> 'e + 'b option" where
  "try_option f v = (case v of None \<Rightarrow> Inr None | Some x \<Rightarrow> (case f x of Inl e \<Rightarrow> Inl e | Inr y \<Rightarrow> Inr (Some y)))"

lemma try_option_simps [simp]:
  "try_option f None = Inr None"
  "try_option f (Some x) = (case f x of Inl e \<Rightarrow> Inl e | Inr y \<Rightarrow> Inr (Some y))"
  by (simp_all add: try_option_def)

definition try_bind :: "'e + 'a \<Rightarrow> ('a \<Rightarrow> 'e + 'b) \<Rightarrow> 'e + 'b" where
  "try_bind r f = (case r of Inl e \<Rightarrow> Inl e | Inr x \<Rightarrow> f x)"

lemma try_bind_simps [simp]: "try_bind (Inl e) f = Inl e" "try_bind (Inr x) f = f x"
  by (simp_all add: try_bind_def)

lemma try_bind_Inr: "try_bind r f = Inr y \<longleftrightarrow> (\<exists>x. r = Inr x \<and> f x = Inr y)"
  by (cases r) auto

section \<open>Prefixes, case folding, trimming\<close>

text \<open>\<^verbatim>\<open>str::strip_prefix\<close> and \<^verbatim>\<open>str::strip_suffix\<close>.\<close>

fun strip_prefix :: "'a list \<Rightarrow> 'a list \<Rightarrow> 'a list option" where
  "strip_prefix [] s = Some s"
| "strip_prefix (p # ps) [] = None"
| "strip_prefix (p # ps) (x # xs) = (if p = x then strip_prefix ps xs else None)"

definition strip_suffix :: "'a list \<Rightarrow> 'a list \<Rightarrow> 'a list option" where
  "strip_suffix p s = map_option rev (strip_prefix (rev p) (rev s))"

lemma strip_prefix_Some [simp]: "strip_prefix p s = Some t \<longleftrightarrow> s = p @ t"
  by (induction p s rule: strip_prefix.induct) auto

lemma strip_prefix_None: "strip_prefix p s = None \<longleftrightarrow> \<not> prefix p s"
  by (induction p s rule: strip_prefix.induct) auto

lemma strip_suffix_Some: "strip_suffix p s = Some t \<longleftrightarrow> s = t @ p"
  by (auto simp: strip_suffix_def) (metis rev_append rev_rev_ident)

text \<open>\<^verbatim>\<open>u8::to_ascii_lowercase\<close> and \<^verbatim>\<open>str::eq_ignore_ascii_case\<close>, on bytes.\<close>

definition ascii_lower :: "char \<Rightarrow> char" where
  "ascii_lower c = (let n = of_char c :: nat in if 65 \<le> n \<and> n \<le> 90 then char_of (n + 32) else c)"

definition eq_ignore_ascii_case :: "string \<Rightarrow> string \<Rightarrow> bool" where
  "eq_ignore_ascii_case a b = (map ascii_lower a = map ascii_lower b)"

lemma eq_ignore_ascii_case_refl [simp]: "eq_ignore_ascii_case s s"
  by (simp add: eq_ignore_ascii_case_def)

text \<open>
  \<^verbatim>\<open>str::trim\<close> and \<^verbatim>\<open>str::trim_matches\<close>. The source trims header values only, which
  \<^verbatim>\<open>to_str\<close> has limited to ASCII, so white space is the ASCII part of Unicode's.
\<close>

definition is_ws :: "char \<Rightarrow> bool" where
  "is_ws c = (let n = of_char c :: nat in n = 32 \<or> (9 \<le> n \<and> n \<le> 13))"

definition trim_matches :: "('a \<Rightarrow> bool) \<Rightarrow> 'a list \<Rightarrow> 'a list" where
  "trim_matches P s = rev (dropWhile P (rev (dropWhile P s)))"

definition trim :: "string \<Rightarrow> string" where
  "trim s = trim_matches is_ws s"

definition trim_start_matches :: "char \<Rightarrow> string \<Rightarrow> string" where
  "trim_start_matches c s = dropWhile (\<lambda>x. x = c) s"

section \<open>Numbers in text\<close>

definition is_digit :: "char \<Rightarrow> bool" where
  "is_digit c = (let n = of_char c :: nat in 48 \<le> n \<and> n \<le> 57)"

text \<open>\<^verbatim>\<open>char::to_digit(radix)\<close> for the radices 10 and 16 the code uses.\<close>

definition to_digit :: "nat \<Rightarrow> char \<Rightarrow> nat option" where
  "to_digit radix c =
     (let n = of_char c :: nat;
          d = (if 48 \<le> n \<and> n \<le> 57 then Some (n - 48)
               else if 97 \<le> n \<and> n \<le> 122 then Some (n - 87)
               else if 65 \<le> n \<and> n \<le> 90 then Some (n - 55)
               else None)
      in case d of None \<Rightarrow> None | Some k \<Rightarrow> if k < radix then Some k else None)"

fun digits_value :: "nat \<Rightarrow> nat \<Rightarrow> string \<Rightarrow> nat option" where
  "digits_value radix acc [] = Some acc"
| "digits_value radix acc (c # cs) =
     (case to_digit radix c of None \<Rightarrow> None | Some d \<Rightarrow> digits_value radix (acc * radix + d) cs)"

text \<open>
  \<^verbatim>\<open>str::parse\<close> at an unsigned type with largest value \<open>m\<close>: an optional \<open>+\<close>, at
  least one digit, no overflow.
\<close>

definition parse_unsigned :: "nat \<Rightarrow> string \<Rightarrow> nat option" where
  "parse_unsigned m s =
     (let t = (case s of CHR ''+'' # r \<Rightarrow> r | _ \<Rightarrow> s)
      in if t = [] then None
         else case digits_value 10 0 t of None \<Rightarrow> None | Some n \<Rightarrow> if n \<le> m then Some n else None)"

definition parse_usize :: "string \<Rightarrow> nat option" where
  "parse_usize s = parse_unsigned (2 ^ 64 - 1) s"

definition parse_u16 :: "string \<Rightarrow> u16 option" where
  "parse_u16 s = map_option of_nat (parse_unsigned (2 ^ 16 - 1) s)"

text \<open>Decimal and lower-case hexadecimal printing, as \<^verbatim>\<open>format!("{}")\<close> and \<^verbatim>\<open>{:x}\<close>.\<close>

definition digit_char :: "nat \<Rightarrow> char" where
  "digit_char d = (if d < 10 then char_of (48 + d) else char_of (87 + d))"

fun show_radix :: "nat \<Rightarrow> nat \<Rightarrow> string" where
  "show_radix b n = (if b < 2 \<or> n < b then [digit_char n] else show_radix b (n div b) @ [digit_char (n mod b)])"

declare show_radix.simps [simp del]

definition show_nat :: "nat \<Rightarrow> string" where
  "show_nat n = show_radix 10 n"

section \<open>Saturating arithmetic\<close>

text \<open>\<^verbatim>\<open>saturating_add\<close> at the width of the operands.\<close>

definition saturating_add :: "'a::len word \<Rightarrow> 'a word \<Rightarrow> 'a word" where
  "saturating_add a b = (if unat a + unat b < 2 ^ LENGTH('a) then a + b else - 1)"

lemma unat_saturating_add:
  "unat (saturating_add a (b::'a::len word)) = min (unat a + unat b) (2 ^ LENGTH('a) - 1)"
proof (cases "unat a + unat b < 2 ^ LENGTH('a)")
  case True
  then show ?thesis by (simp add: saturating_add_def unat_word_ariths)
next
  case False
  then show ?thesis by (simp add: saturating_add_def unsigned_minus_1_eq_mask mask_eq_exp_minus_1)
qed

section \<open>Time\<close>

text \<open>
  An \<^verbatim>\<open>Instant\<close> is a reading of the monotonic clock and a \<^verbatim>\<open>Duration\<close> a span, both in
  nanoseconds. Subtracting a later instant gives zero (\<^verbatim>\<open>duration_since\<close> saturates), which is
  what \<^typ>\<open>nat\<close> subtraction does. Adding a duration panics when the seconds do not fit the
  signed 64-bit field of the clock reading.
\<close>

type_synonym instant = nat
type_synonym duration = nat

definition NANOS_PER_SEC :: nat where
  "NANOS_PER_SEC = 1000000000"

definition from_secs :: "nat \<Rightarrow> duration" where
  "from_secs s = s * NANOS_PER_SEC"

definition instant_max :: instant where
  "instant_max = 2 ^ 63 * NANOS_PER_SEC - 1"

definition instant_add :: "instant \<Rightarrow> duration \<Rightarrow> instant option" where
  "instant_add t d = (if t + d \<le> instant_max then Some (t + d) else None)"

lemma instant_add_Some: "instant_add t d = Some u \<Longrightarrow> u = t + d"
  by (auto simp: instant_add_def split: if_splits)

end
