(* ===== verification/Hash_Table.thy ===== *)
theory Hash_Table
  imports Prelude
begin

text \<open>
  The interface of \<^verbatim>\<open>std::collections::HashMap\<close> that the limiters and the metrics rely
  on, as a locale, and its implementation by association lists with distinct keys. A list
  fixes the (unspecified) iteration order of the hash map, which is observable where the
  code iterates over one; the operations below are the only ones the code performs.
\<close>

locale hash_table =
  fixes empty :: 't
    and get :: "'t \<Rightarrow> 'k \<Rightarrow> 'v option"
    and put :: "'k \<Rightarrow> 'v \<Rightarrow> 't \<Rightarrow> 't"
    and del :: "'k \<Rightarrow> 't \<Rightarrow> 't"
    and retain :: "('k \<Rightarrow> 'v \<Rightarrow> bool) \<Rightarrow> 't \<Rightarrow> 't"
    and len :: "'t \<Rightarrow> nat"
    and wf :: "'t \<Rightarrow> bool"
  assumes wf_empty: "wf empty"
    and get_empty: "get empty k = None"
    and len_empty: "len empty = 0"
    and wf_put: "wf t \<Longrightarrow> wf (put k v t)"
    and get_put: "wf t \<Longrightarrow> get (put k v t) k' = (if k' = k then Some v else get t k')"
    and len_put: "wf t \<Longrightarrow> len (put k v t) = (if get t k = None then Suc (len t) else len t)"
    and wf_del: "wf t \<Longrightarrow> wf (del k t)"
    and get_del: "wf t \<Longrightarrow> get (del k t) k' = (if k' = k then None else get t k')"
    and len_del: "wf t \<Longrightarrow> len (del k t) \<le> len t"
    and wf_retain: "wf t \<Longrightarrow> wf (retain P t)"
    and get_retain: "wf t \<Longrightarrow> get (retain P t) k' =
          (case get t k' of None \<Rightarrow> None | Some v \<Rightarrow> if P k' v then Some v else None)"
    and len_retain: "wf t \<Longrightarrow> len (retain P t) \<le> len t"
    and retain_id: "wf t \<Longrightarrow> (\<And>k v. get t k = Some v \<Longrightarrow> P k v) \<Longrightarrow> retain P t = t"
    and len_del_less: "wf t \<Longrightarrow> get t k \<noteq> None \<Longrightarrow> len (del k t) < len t"
begin

text \<open>
  Admission under a cap, the guard both limiters use: a new key is refused once the table
  holds \<open>cap\<close> entries, so an insertion that passes the guard stays within the cap.
\<close>

lemma capped_put:
  assumes "wf t" and "len t \<le> cap" and "\<not> (get t k = None \<and> cap \<le> len t)"
  shows "len (put k v t) \<le> cap"
  using assms by (auto simp: len_put)

lemma put_frame: "wf t \<Longrightarrow> k' \<noteq> k \<Longrightarrow> get (put k v t) k' = get t k'"
  by (simp add: get_put)

lemma all_put:
  assumes "wf t" and "\<And>k v. get t k = Some v \<Longrightarrow> Q k v" and "Q k v"
  shows "get (put k v t) k' = Some v' \<Longrightarrow> Q k' v'"
  using assms by (auto simp: get_put split: if_splits)

lemma all_del:
  assumes "wf t" and "\<And>k v. get t k = Some v \<Longrightarrow> Q k v"
  shows "get (del k t) k' = Some v' \<Longrightarrow> Q k' v'"
  using assms by (auto simp: get_del split: if_splits)

lemma all_retain:
  assumes "wf t" and "\<And>k v. get t k = Some v \<Longrightarrow> Q k v"
  shows "get (retain P t) k' = Some v' \<Longrightarrow> Q k' v' \<and> P k' v'"
  using assms by (auto simp: get_retain split: option.splits if_splits)

lemma put_twice_get: "wf t \<Longrightarrow> get (put k v' (put k v t)) k' = get (put k v' t) k'"
  by (simp add: get_put wf_put)

end

text \<open>The implementation: association lists with distinct keys.\<close>

type_synonym ('k, 'v) table = "('k \<times> 'v) list"

definition tbl_get :: "('k, 'v) table \<Rightarrow> 'k \<Rightarrow> 'v option" where
  "tbl_get t k = map_of t k"

definition tbl_put :: "'k \<Rightarrow> 'v \<Rightarrow> ('k, 'v) table \<Rightarrow> ('k, 'v) table" where
  "tbl_put k v t = AList.update k v t"

definition tbl_del :: "'k \<Rightarrow> ('k, 'v) table \<Rightarrow> ('k, 'v) table" where
  "tbl_del k t = AList.delete k t"

definition tbl_retain :: "('k \<Rightarrow> 'v \<Rightarrow> bool) \<Rightarrow> ('k, 'v) table \<Rightarrow> ('k, 'v) table" where
  "tbl_retain P t = filter (\<lambda>(k, v). P k v) t"

definition tbl_len :: "('k, 'v) table \<Rightarrow> nat" where
  "tbl_len t = length t"

definition tbl_wf :: "('k, 'v) table \<Rightarrow> bool" where
  "tbl_wf t = distinct (map fst t)"

lemmas tbl_defs = tbl_get_def tbl_put_def tbl_del_def tbl_retain_def tbl_len_def tbl_wf_def

lemma length_update:
  "length (AList.update k v t) = (if map_of t k = None then Suc (length t) else length t)"
  by (induction t) auto

lemma map_of_filter_distinct:
  "distinct (map fst t) \<Longrightarrow> map_of (filter (\<lambda>(k, v). P k v) t) k' =
     (case map_of t k' of None \<Rightarrow> None | Some v \<Rightarrow> if P k' v then Some v else None)"
  by (induction t) (auto simp: map_of_eq_None_iff split: option.splits)

lemma filter_id_distinct:
  assumes "distinct (map fst t)" and "\<And>k v. map_of t k = Some v \<Longrightarrow> P k v"
  shows "filter (\<lambda>(k, v). P k v) t = t"
  using assms by (intro filter_True) auto

interpretation tbl: hash_table "[]" tbl_get tbl_put tbl_del tbl_retain tbl_len tbl_wf
proof (unfold_locales, goal_cases)
  case (9 t k)
  then show ?case by (simp add: tbl_defs length_delete_le)
next
  case (11 t P k')
  then show ?case by (simp add: tbl_defs map_of_filter_distinct)
next
  case (13 t P)
  then show ?case unfolding tbl_defs by (rule filter_id_distinct)
next
  case (14 t k)
  then obtain v where "(k, v) \<in> set t" by (auto simp: tbl_defs dest: map_of_SomeD)
  then show ?case by (auto simp: tbl_defs AList.delete_eq intro!: length_filter_less)
qed (auto simp: tbl_defs length_update distinct_update distinct_delete update_conv' delete_conv'
       distinct_map_filter)

lemmas tbl_simps [simp] =
  tbl.wf_empty tbl.get_empty tbl.len_empty tbl.wf_put tbl.get_put tbl.wf_del tbl.get_del
  tbl.wf_retain tbl.get_retain

end
