(* ===== verification/Transition_System.thy ===== *)
theory Transition_System
  imports Prelude
begin

text \<open>
  Start states, steps and an inductive invariant: the argument by which a property of every
  reachable state is proved, stated once. The limiters and the running server are instances.
\<close>

locale transition_system =
  fixes start :: "'s \<Rightarrow> bool"
    and step :: "'s \<Rightarrow> 's \<Rightarrow> bool"
    and inv :: "'s \<Rightarrow> bool"
  assumes start_inv: "start s \<Longrightarrow> inv s"
    and step_inv: "step s s' \<Longrightarrow> inv s \<Longrightarrow> inv s'"
begin

lemma steps_inv: "step\<^sup>*\<^sup>* s s' \<Longrightarrow> inv s \<Longrightarrow> inv s'"
  by (induction rule: rtranclp_induct) (auto intro: step_inv)

lemma reached_inv: "start s \<Longrightarrow> step\<^sup>*\<^sup>* s s' \<Longrightarrow> inv s'"
  using start_inv steps_inv by blast

end

end
