(* ===== verification/Keyed_Limiter.thy ===== *)
theory Keyed_Limiter
  imports Hash_Table Transition_System
begin

text \<open>
  The contract the two limiters of \<^verbatim>\<open>src/rules.rs\<close> share with the rest of the proxy. Each
  is a mutex-protected table, so an execution is a sequence of atomic operations in the order
  the lock is taken. An operation preserves the table's invariant; one that is addressed
  to a key leaves the entries of all other keys alone. From this the locale derives, once for
  both, the invariant of every execution and the isolation of a client from the traffic of
  the others.
\<close>

locale keyed_limiter =
  fixes init :: 's
    and step :: "'op \<Rightarrow> 's \<Rightarrow> 's"
    and target :: "'op \<Rightarrow> 'k option"
    and view :: "'s \<Rightarrow> 'k \<Rightarrow> 'v option"
    and inv :: "'s \<Rightarrow> bool"
  assumes inv_init: "inv init"
    and inv_step: "inv s \<Longrightarrow> inv (step op s)"
    and frame_step: "inv s \<Longrightarrow> target op = Some k \<Longrightarrow> k' \<noteq> k \<Longrightarrow> view (step op s) k' = view s k'"
begin

text \<open>An execution is a run of the transition system whose steps are the operations.\<close>

lemma fold_steps: "(\<lambda>s s'. \<exists>op. s' = step op s)\<^sup>*\<^sup>* s (fold step ops s)"
  by (induction ops arbitrary: s) (auto intro: converse_rtranclp_into_rtranclp)

end

sublocale keyed_limiter \<subseteq> ops: transition_system "\<lambda>s. s = init" "\<lambda>s s'. \<exists>op. s' = step op s" inv
  by unfold_locales (auto simp: inv_init inv_step)

context keyed_limiter begin

lemma inv_run: "inv s \<Longrightarrow> inv (fold step ops s)"
  by (rule ops.steps_inv [OF fold_steps])

lemma inv_reached: "inv (fold step ops init)"
  by (rule ops.reached_inv [OF refl fold_steps])

lemma isolation_run:
  assumes "inv s" and "\<And>op. op \<in> set ops \<Longrightarrow> \<exists>k. target op = Some k \<and> k \<noteq> k'"
  shows "view (fold step ops s) k' = view s k'"
  using assms
proof (induction ops arbitrary: s)
  case (Cons op ops)
  then obtain k where "target op = Some k" and "k \<noteq> k'" by auto
  with Cons show ?case by (auto simp: inv_step frame_step)
qed simp

end

end
