(* ===== verification/Auth_Limiter.thy ===== *)
theory Auth_Limiter
  imports Keyed_Limiter
begin

text \<open>
  The authentication lockout of \<^verbatim>\<open>src/rules.rs\<close> (\<^verbatim>\<open>AuthLimiter\<close>): failures are counted
  per source address; too many within a window block the address for a while. As in
  \<^verbatim>\<open>Rate_Limiter\<close>, the clock reading is an argument and a result \<^const>\<open>None\<close> is the panic
  of an overflowing \<^verbatim>\<open>Instant + Duration\<close>.
\<close>

definition MAX_AUTH_LIMITER_KEYS :: nat where
  "MAX_AUTH_LIMITER_KEYS = 16384"

record auth_lockout_state =
  failures :: u32
  first_failure :: instant
  lockout_until :: "instant option"

type_synonym auth_limiter = "(string, auth_lockout_state) table"

definition auth_limiter_new :: auth_limiter where
  "auth_limiter_new = []"

definition al_is_blocked :: "instant \<Rightarrow> string \<Rightarrow> auth_limiter \<Rightarrow> bool" where
  "al_is_blocked now key g =
     (case tbl_get g key of
        Some s \<Rightarrow> is_some_and (lockout_until s) (\<lambda>u. now < u)
      | None \<Rightarrow> False)"

definition fresh_lockout :: "instant \<Rightarrow> auth_lockout_state" where
  "fresh_lockout now = \<lparr>failures = 0, first_failure = now, lockout_until = None\<rparr>"

text \<open>The update of an entry: an expired lockout and then an expired window reset the count.\<close>

definition lockout_failure ::
    "instant \<Rightarrow> u32 \<Rightarrow> duration \<Rightarrow> duration \<Rightarrow> auth_lockout_state \<Rightarrow> bool option \<times> auth_lockout_state" where
  "lockout_failure now mx window lockout e =
     (let e1 = (case lockout_until e of
                  Some u \<Rightarrow> if u \<le> now then e\<lparr>lockout_until := None, failures := 0, first_failure := now\<rparr> else e
                | None \<Rightarrow> e);
          e2 = (if window < now - first_failure e1 then e1\<lparr>failures := 0, first_failure := now\<rparr> else e1);
          e3 = e2\<lparr>failures := saturating_add (failures e2) 1\<rparr>
      in if mx \<le> failures e3 \<and> lockout_until e3 = None then
           (case instant_add now lockout of
              None \<Rightarrow> (None, e3)
            | Some u \<Rightarrow> (Some True, e3\<lparr>lockout_until := Some u\<rparr>))
         else (Some False, e3))"

definition al_record_failure ::
    "instant \<Rightarrow> string \<Rightarrow> u32 \<Rightarrow> duration \<Rightarrow> duration \<Rightarrow> auth_limiter \<Rightarrow> bool option \<times> auth_limiter" where
  "al_record_failure now key mx window lockout g =
     (if MAX_AUTH_LIMITER_KEYS \<le> tbl_len g \<and> tbl_get g key = None then (Some False, g)
      else
        (let e = unwrap_or (tbl_get g key) (fresh_lockout now);
             (res, e') = lockout_failure now mx window lockout e
         in (res, tbl_put key e' g)))"

definition al_record_success :: "string \<Rightarrow> auth_limiter \<Rightarrow> auth_limiter" where
  "al_record_success key g = tbl_del key g"

definition al_keep :: "instant \<Rightarrow> auth_lockout_state \<Rightarrow> bool" where
  "al_keep now s =
     (case lockout_until s of
        Some u \<Rightarrow> now < u
      | None \<Rightarrow> now - first_failure s < from_secs 600)"

definition al_cleanup :: "instant \<Rightarrow> auth_limiter \<Rightarrow> auth_limiter" where
  "al_cleanup now g = tbl_retain (\<lambda>_ s. al_keep now s) g"

section \<open>Invariant, and the limiter as a keyed limiter\<close>

definition al_inv :: "auth_limiter \<Rightarrow> bool" where
  "al_inv g = (tbl_wf g \<and> tbl_len g \<le> MAX_AUTH_LIMITER_KEYS)"

lemma al_record_failure_inv [inv_intros]:
  assumes "al_inv g"
  shows "al_inv (snd (al_record_failure now key mx window lockout g))"
proof -
  have wf: "tbl_wf g" and len: "tbl_len g \<le> MAX_AUTH_LIMITER_KEYS"
    using assms by (auto simp: al_inv_def)
  show ?thesis
    using wf len tbl.capped_put [OF wf len, of key]
    by (auto simp: al_record_failure_def al_inv_def Let_def split: prod.splits)
qed

lemma al_record_success_inv [inv_intros]: "al_inv g \<Longrightarrow> al_inv (al_record_success key g)"
  using tbl.len_del [of g key] by (auto simp: al_inv_def al_record_success_def)

lemma al_cleanup_inv [inv_intros]: "al_inv g \<Longrightarrow> al_inv (al_cleanup now g)"
  using tbl.len_retain [of g "\<lambda>_ s. al_keep now s"] by (auto simp: al_inv_def al_cleanup_def)

datatype al_op =
    AlFailure instant string u32 duration duration
  | AlSuccess string
  | AlCleanup instant

fun al_step :: "al_op \<Rightarrow> auth_limiter \<Rightarrow> auth_limiter" where
  "al_step (AlFailure now key mx window lockout) g = snd (al_record_failure now key mx window lockout g)"
| "al_step (AlSuccess key) g = al_record_success key g"
| "al_step (AlCleanup now) g = al_cleanup now g"

fun al_target :: "al_op \<Rightarrow> string option" where
  "al_target (AlFailure now key mx window lockout) = Some key"
| "al_target (AlSuccess key) = Some key"
| "al_target (AlCleanup now) = None"

interpretation al: keyed_limiter auth_limiter_new al_step al_target tbl_get al_inv
proof (unfold_locales, goal_cases)
  case 1
  show ?case by (simp add: al_inv_def auth_limiter_new_def)
next
  case (2 s op)
  then show ?case by (cases op) (auto intro: inv_intros)
next
  case (3 s op k k')
  then show ?case
    by (cases op)
       (auto simp: al_inv_def al_record_failure_def al_record_success_def Let_def split: prod.splits)
qed

section \<open>Lockout\<close>

fun al_failures ::
    "string \<Rightarrow> u32 \<Rightarrow> duration \<Rightarrow> duration \<Rightarrow> instant list \<Rightarrow> auth_limiter \<Rightarrow> bool option list \<times> auth_limiter" where
  "al_failures key mx window lockout [] g = ([], g)"
| "al_failures key mx window lockout (t # ts) g =
     (let (r, g1) = al_record_failure t key mx window lockout g;
          (rs, g2) = al_failures key mx window lockout ts g1
      in (r # rs, g2))"

lemma unat_saturating_Suc: "unat (f::u32) < unat (mx::u32) \<Longrightarrow> unat (saturating_add f 1) = Suc (unat f)"
  using unsigned_less [of mx, where 'a = nat] by (simp add: unat_saturating_add)

lemma al_record_failure_known:
  assumes "tbl_wf g" and "tbl_get g key = Some e"
  shows "al_record_failure now key mx window lockout g =
           (fst (lockout_failure now mx window lockout e),
            tbl_put key (snd (lockout_failure now mx window lockout e)) g)"
  using assms by (auto simp: al_record_failure_def split: prod.splits)

text \<open>One more failure inside the window, with the count still below the limit.\<close>

lemma lockout_failure_count:
  assumes "lockout_until e = None" and "now - first_failure e \<le> window"
    and "unat (failures e) < unat mx"
  shows "Suc (unat (failures e)) < unat mx \<Longrightarrow>
           lockout_failure now mx window lockout e = (Some False, e\<lparr>failures := saturating_add (failures e) 1\<rparr>)"
    and "Suc (unat (failures e)) = unat mx \<Longrightarrow> now + lockout \<le> instant_max \<Longrightarrow>
           lockout_failure now mx window lockout e =
             (Some True, e\<lparr>failures := saturating_add (failures e) 1, lockout_until := Some (now + lockout)\<rparr>)"
proof -
  have s: "unat (saturating_add (failures e) 1) = Suc (unat (failures e))"
    using assms(3) by (rule unat_saturating_Suc)
  show "Suc (unat (failures e)) < unat mx \<Longrightarrow>
           lockout_failure now mx window lockout e = (Some False, e\<lparr>failures := saturating_add (failures e) 1\<rparr>)"
    using assms s by (simp add: lockout_failure_def word_le_nat_alt)
  show "Suc (unat (failures e)) = unat mx \<Longrightarrow> now + lockout \<le> instant_max \<Longrightarrow>
           lockout_failure now mx window lockout e =
             (Some True, e\<lparr>failures := saturating_add (failures e) 1, lockout_until := Some (now + lockout)\<rparr>)"
    using assms s by (simp add: lockout_failure_def word_le_nat_alt instant_add_def)
qed

lemma al_failures_run:
  assumes "tbl_wf g" and "tbl_get g key = Some e" and "lockout_until e = None"
    and "unat (failures e) + length ts = unat mx" and "ts \<noteq> []"
    and "\<And>t. t \<in> set ts \<Longrightarrow> t - first_failure e \<le> window"
    and "last ts + lockout \<le> instant_max"
  shows "fst (al_failures key mx window lockout ts g) = replicate (length ts - 1) (Some False) @ [Some True]
       \<and> (\<exists>e'. tbl_get (snd (al_failures key mx window lockout ts g)) key = Some e'
               \<and> lockout_until e' = Some (last ts + lockout))"
  using assms
proof (induction ts arbitrary: g e)
  case (Cons t ts)
  have lt: "unat (failures e) < unat mx" using Cons.prems(4) by simp
  have win: "t - first_failure e \<le> window" using Cons.prems(6) by simp
  note count = lockout_failure_count [OF Cons.prems(3) win lt, of lockout]
  note known = al_record_failure_known [OF Cons.prems(1,2), of t mx window lockout]
  show ?case
  proof (cases "ts = []")
    case True
    then show ?thesis using count(2) known Cons.prems(1,4,7) by (simp add: Let_def)
  next
    case False
    let ?e = "e\<lparr>failures := saturating_add (failures e) 1\<rparr>"
    have more: "Suc (unat (failures e)) < unat mx" using Cons.prems(4) False by (cases ts) auto
    have "fst (al_failures key mx window lockout ts (tbl_put key ?e g))
            = replicate (length ts - 1) (Some False) @ [Some True]
       \<and> (\<exists>e'. tbl_get (snd (al_failures key mx window lockout ts (tbl_put key ?e g))) key = Some e'
               \<and> lockout_until e' = Some (last ts + lockout))"
      using Cons.prems False unat_saturating_Suc [OF lt] by (intro Cons.IH [where e = ?e]) auto
    with False show ?thesis
      using known count(1) [OF more] by (cases ts) (auto simp: Let_def split: prod.splits)
  qed
qed simp

text \<open>
  Lockout: from an address without recorded failures (and a table with room), \<open>mx\<close>
  failures inside the window report a lockout at the last of them and not before; the
  address is then blocked for exactly \<open>lockout\<close> after that failure.
\<close>

lemma lockout_after_max_failures:
  assumes "al_inv g" and "tbl_get g key = None" and "tbl_len g < MAX_AUTH_LIMITER_KEYS"
    and "length (t # ts) = unat mx" and "\<forall>u \<in> set ts. t \<le> u \<and> u - t \<le> window"
    and "last (t # ts) + lockout \<le> instant_max"
  shows "fst (al_failures key mx window lockout (t # ts) g) = replicate (length ts) (Some False) @ [Some True]
       \<and> al_is_blocked now key (snd (al_failures key mx window lockout (t # ts) g))
           = (now < last (t # ts) + lockout)"
proof -
  let ?g = "tbl_put key (fresh_lockout t) g"
  have wf: "tbl_wf g" using assms(1) by (simp add: al_inv_def)
  have step: "al_record_failure t key mx window lockout g = al_record_failure t key mx window lockout ?g"
    using wf assms(2,3) by (auto simp: al_record_failure_def Let_def tbl_defs update_conv' split: prod.splits)
  then have "al_failures key mx window lockout (t # ts) g = al_failures key mx window lockout (t # ts) ?g"
    by simp
  moreover have "fst (al_failures key mx window lockout (t # ts) ?g)
        = replicate (length (t # ts) - 1) (Some False) @ [Some True]
      \<and> (\<exists>e'. tbl_get (snd (al_failures key mx window lockout (t # ts) ?g)) key = Some e'
              \<and> lockout_until e' = Some (last (t # ts) + lockout))"
    using wf assms(4,5,6) by (intro al_failures_run [where e = "fresh_lockout t"]) (auto simp: fresh_lockout_def)
  ultimately show ?thesis by (auto simp: al_is_blocked_def)
qed

section \<open>The sweep is not observable\<close>

lemma al_cleanup_get:
  "tbl_wf g \<Longrightarrow> tbl_get (al_cleanup now g) key =
     (case tbl_get g key of None \<Rightarrow> None | Some s \<Rightarrow> if al_keep now s then Some s else None)"
  by (simp add: al_cleanup_def)

text \<open>A dropped entry would have been reset by the next failure anyway.\<close>

lemma lockout_failure_dropped:
  assumes "\<not> al_keep now e" and "now \<le> t" and "window < from_secs 600"
  shows "lockout_failure t mx window lockout e = lockout_failure t mx window lockout (fresh_lockout t)"
  using assms
  by (cases e) (auto simp: al_keep_def lockout_failure_def fresh_lockout_def Let_def split: option.splits)

text \<open>
  (C33) The periodic sweep changes no decision: at the time of the sweep and later, an address
  is blocked exactly when it would have been, and the next failure has the same outcome and
  leaves the same entry, provided the counting window is under ten minutes (it is one minute)
  and the table has room.
\<close>

theorem al_cleanup_unobservable:
  assumes "al_inv g" and "now \<le> t" and "window < from_secs 600"
    and "tbl_len g < MAX_AUTH_LIMITER_KEYS"
  shows "al_is_blocked t key (al_cleanup now g) = al_is_blocked t key g
       \<and> fst (al_record_failure t key mx window lockout (al_cleanup now g))
           = fst (al_record_failure t key mx window lockout g)
       \<and> tbl_get (snd (al_record_failure t key mx window lockout (al_cleanup now g))) key
           = tbl_get (snd (al_record_failure t key mx window lockout g)) key"
proof -
  have wf: "tbl_wf g" using assms(1) by (simp add: al_inv_def)
  have wf': "tbl_wf (al_cleanup now g)" and len': "tbl_len (al_cleanup now g) < MAX_AUTH_LIMITER_KEYS"
    using wf assms(4) tbl.len_retain [OF wf, of "\<lambda>_ s. al_keep now s"] by (auto simp: al_cleanup_def)
  have blk: "al_is_blocked t key (al_cleanup now g) = al_is_blocked t key g"
    using wf assms(2)
    by (auto simp: al_is_blocked_def al_cleanup_get al_keep_def is_some_and_def split: option.splits)
  let ?e = "unwrap_or (tbl_get g key) (fresh_lockout t)"
  let ?e' = "unwrap_or (tbl_get (al_cleanup now g) key) (fresh_lockout t)"
  have eq: "lockout_failure t mx window lockout ?e' = lockout_failure t mx window lockout ?e"
    using wf lockout_failure_dropped [OF _ assms(2,3)] by (auto simp: al_cleanup_get split: option.splits)
  show ?thesis
    using blk eq assms(4) len' wf wf' by (auto simp: al_record_failure_def Let_def split: prod.splits)
qed

theorem al_cleanup_unobservable_witness:
  "let g = [(''a'', \<lparr>failures = 10, first_failure = 0, lockout_until = Some 300\<rparr>)]
   in al_is_blocked 200 ''a'' (al_cleanup 100 g) = al_is_blocked 200 ''a'' g \<and> al_is_blocked 200 ''a'' g"
proof -
  let ?g = "[(''a'', \<lparr>failures = 10, first_failure = 0, lockout_until = Some 300\<rparr>)]"
  have "al_inv ?g" and "tbl_len ?g < MAX_AUTH_LIMITER_KEYS"
    by (simp_all add: al_inv_def tbl_defs MAX_AUTH_LIMITER_KEYS_def)
  from al_cleanup_unobservable [OF this(1) _ _ this(2), of 100 200 60 "''a''" 10 300]
  show ?thesis by (simp add: from_secs_def NANOS_PER_SEC_def al_is_blocked_def tbl_get_def)
qed

text \<open>
  The lockout table stays bounded: whatever operations the requests and the sweeper
  perform, and in whatever order, it holds at most 16384 addresses, each once.
\<close>

theorem al_table_bounded:
  "tbl_len (fold al_step ops auth_limiter_new) \<le> 16384 \<and> distinct (map fst (fold al_step ops auth_limiter_new))"
  using al.inv_reached [of ops] by (simp add: al_inv_def MAX_AUTH_LIMITER_KEYS_def tbl_wf_def)

end
