(* ===== verification/Json_Value.thy ===== *)
theory Json_Value
  imports Prelude
begin

text \<open>
  JSON and YAML values as the code sees them, and the path operations of
  \<^verbatim>\<open>src/rules.rs\<close>: \<^verbatim>\<open>json_get\<close>, \<^verbatim>\<open>json_get_mut\<close>, \<^verbatim>\<open>json_remove\<close>,
  \<^verbatim>\<open>yaml_value_to_string\<close> and \<^verbatim>\<open>value_equal\<close>. The lemmas show that a mutable
  reference is a lens (what is written is read back, siblings are untouched) and that a
  path which holds only masked strings keeps doing so under later writes and removals.

  The constructors are those of \<^verbatim>\<open>serde_json::Value\<close> and \<^verbatim>\<open>serde_yaml::Value\<close>. A
  number is what the code can observe of it: the results of \<^verbatim>\<open>as_i64\<close>,
  \<^verbatim>\<open>as_u64\<close>, \<^verbatim>\<open>as_f64\<close> and \<^verbatim>\<open>to_string\<close>.
\<close>

datatype f64 = Finite rat | PosInf | NegInf | NaN

text \<open>The comparison \<open>==\<close> of IEEE 754 values: a NaN equals nothing.\<close>

fun f64_eq :: "f64 \<Rightarrow> f64 \<Rightarrow> bool" where
  "f64_eq NaN _ = False"
| "f64_eq _ NaN = False"
| "f64_eq a b = (a = b)"

record number =
  num_i64 :: "int option"
  num_u64 :: "nat option"
  num_f64 :: "f64 option"
  num_text :: string

datatype json =
    JNull
  | JBool bool
  | JNumber number
  | JString string
  | JArray "json list"
  | JObject "(string \<times> json) list"

datatype yaml =
    YNull
  | YBool bool
  | YNumber number
  | YString string
  | YSequence "yaml list"
  | YMapping "(yaml \<times> yaml) list"
  | YTagged string yaml

section \<open>Scalar views\<close>

definition show_bool :: "bool \<Rightarrow> string" where
  "show_bool b = (if b then ''true'' else ''false'')"

fun yaml_value_to_string :: "yaml \<Rightarrow> string option" where
  "yaml_value_to_string (YString s) = Some s"
| "yaml_value_to_string (YBool b) = Some (show_bool b)"
| "yaml_value_to_string (YNumber n) = Some (num_text n)"
| "yaml_value_to_string _ = None"

fun as_str :: "json \<Rightarrow> string option" where
  "as_str (JString s) = Some s"
| "as_str _ = None"

fun as_bool :: "json \<Rightarrow> bool option" where
  "as_bool (JBool b) = Some b"
| "as_bool _ = None"

fun as_i64 :: "json \<Rightarrow> int option" where
  "as_i64 (JNumber n) = num_i64 n"
| "as_i64 _ = None"

fun as_u64 :: "json \<Rightarrow> nat option" where
  "as_u64 (JNumber n) = num_u64 n"
| "as_u64 _ = None"

fun as_f64 :: "json \<Rightarrow> f64 option" where
  "as_f64 (JNumber n) = num_f64 n"
| "as_f64 _ = None"

fun value_equal :: "yaml \<Rightarrow> json \<Rightarrow> bool" where
  "value_equal (YString s) j = (as_str j = Some s)"
| "value_equal (YBool b) j = (as_bool j = Some b)"
| "value_equal (YNumber n) j =
     (case as_i64 j of
        Some i \<Rightarrow> num_i64 n = Some i
      | None \<Rightarrow>
          (case as_u64 j of
             Some u \<Rightarrow> num_u64 n = Some u
           | None \<Rightarrow>
               (case as_f64 j of
                  Some f \<Rightarrow> is_some_and (num_f64 n) (\<lambda>g. f64_eq g f)
                | None \<Rightarrow> False)))"
| "value_equal y j = (case j of JNull \<Rightarrow> y = YNull | _ \<Rightarrow> False)"

section \<open>Paths into JSON\<close>

text \<open>One step of the path loops: into an object by key, into an array by index.\<close>

definition json_step :: "string \<Rightarrow> json \<Rightarrow> json option" where
  "json_step seg cur =
     (if seg = [] then None
      else case cur of
        JObject m \<Rightarrow> map_of m seg
      | JArray a \<Rightarrow>
          (case parse_usize seg of None \<Rightarrow> None
           | Some i \<Rightarrow> if i < length a then Some (a ! i) else None)
      | _ \<Rightarrow> None)"

text \<open>Writing through the reference that such a step gives.\<close>

definition json_step_put :: "string \<Rightarrow> json \<Rightarrow> json \<Rightarrow> json" where
  "json_step_put seg new cur =
     (case cur of
        JObject m \<Rightarrow> JObject (AList.update seg new m)
      | JArray a \<Rightarrow>
          (case parse_usize seg of None \<Rightarrow> JArray a | Some i \<Rightarrow> JArray (a[i := new]))
      | _ \<Rightarrow> cur)"

fun json_get_segs :: "string list \<Rightarrow> json \<Rightarrow> json option" where
  "json_get_segs [] cur = Some cur"
| "json_get_segs (seg # segs) cur =
     (case json_step seg cur of None \<Rightarrow> None | Some v \<Rightarrow> json_get_segs segs v)"

definition json_get :: "json \<Rightarrow> string \<Rightarrow> json option" where
  "json_get doc path = json_get_segs (split_on CHR ''.'' path) doc"

text \<open>
  A mutable reference into the tree is the value it points at together with the tree
  that results from writing through it.
\<close>

type_synonym json_ref = "json \<times> (json \<Rightarrow> json)"

fun json_get_mut_segs :: "string list \<Rightarrow> json \<Rightarrow> json_ref option" where
  "json_get_mut_segs [] cur = None"
| "json_get_mut_segs (seg # segs) cur =
     (case json_step seg cur of
        None \<Rightarrow> None
      | Some v \<Rightarrow>
          (if segs = [] then Some (v, \<lambda>w. json_step_put seg w cur)
           else map_option (\<lambda>(x, put). (x, \<lambda>w. json_step_put seg (put w) cur))
                  (json_get_mut_segs segs v)))"

definition json_get_mut :: "json \<Rightarrow> string \<Rightarrow> json_ref option" where
  "json_get_mut doc path = json_get_mut_segs (split_on CHR ''.'' path) doc"

definition json_remove :: "json \<Rightarrow> string \<Rightarrow> bool \<times> json" where
  "json_remove doc path =
     (let segments = split_on CHR ''.'' path
      in if length segments < 2 then (False, doc)
         else
           (let parent_path = join_with CHR ''.'' (butlast segments); key = last segments
            in case json_get_mut doc parent_path of
                 Some (JObject m, put) \<Rightarrow>
                   (map_of m key \<noteq> None, put (JObject (AList.delete key m)))
               | _ \<Rightarrow> (False, doc)))"

section \<open>References are lenses\<close>

lemma json_step_put_same: "json_step s j = Some v \<Longrightarrow> json_step s (json_step_put s w j) = Some w"
  by (auto simp: json_step_def json_step_put_def update_conv' split: json.splits option.splits if_splits)

lemma json_step_put_other:
  assumes "json_step s j = Some v"
  shows "json_step t j = Some v \<and> json_step t (json_step_put s w j) = Some w
       \<or> json_step t (json_step_put s w j) = json_step t j"
  using assms
  by (auto simp: json_step_def json_step_put_def update_conv' nth_list_update
      split: json.splits option.splits if_splits)

lemma json_get_mut_read:
  "map_option fst (json_get_mut_segs segs j) = (if segs = [] then None else json_get_segs segs j)"
  by (induction segs j rule: json_get_mut_segs.induct)
     (auto split: option.splits if_splits simp: option.map_comp comp_def case_prod_beta)

lemma json_get_mut_write:
  "json_get_mut_segs segs j = Some (v, put) \<Longrightarrow> json_get_segs segs (put w) = Some w"
proof (induction segs j arbitrary: v put rule: json_get_mut_segs.induct)
  case (2 seg segs cur)
  from "2.prems" obtain c where c: "json_step seg cur = Some c"
    by (auto split: option.splits)
  show ?case
  proof (cases "segs = []")
    case True
    with "2.prems" c show ?thesis by (auto simp: json_step_put_same)
  next
    case False
    with "2.prems" c obtain put' where r: "json_get_mut_segs segs c = Some (v, put')"
      and put: "put = (\<lambda>w. json_step_put seg (put' w) cur)" by auto
    from "2.IH" [OF c False r] c show ?thesis by (simp add: put json_step_put_same)
  qed
qed simp

section \<open>Masked paths stay masked\<close>

text \<open>
  \<open>sealed P p j\<close>: reading \<open>j\<close> at path \<open>p\<close> gives nothing, or a value with \<open>P\<close>. The
  predicates of interest look at the kind of a value, not into objects and arrays.
\<close>

definition sealed :: "(json \<Rightarrow> bool) \<Rightarrow> string list \<Rightarrow> json \<Rightarrow> bool" where
  "sealed P p j = is_none_or (json_get_segs p j) P"

definition shallow :: "(json \<Rightarrow> bool) \<Rightarrow> bool" where
  "shallow P = ((\<forall>m m'. P (JObject m) \<longrightarrow> P (JObject m')) \<and> (\<forall>a a'. P (JArray a) \<longrightarrow> P (JArray a')))"

lemma sealed_Cons:
  "sealed P (s # p) j = (case json_step s j of None \<Rightarrow> True | Some v \<Rightarrow> sealed P p v)"
  by (auto simp: sealed_def split: option.splits)

lemma sealed_Nil: "sealed P [] j \<longleftrightarrow> P j"
  by (simp add: sealed_def)

lemma sealed_Some: "sealed P p j \<Longrightarrow> json_get_segs p j = Some v \<Longrightarrow> P v"
  by (simp add: sealed_def)

lemma json_get_segs_append:
  "json_get_segs (p @ q) j = Option.bind (json_get_segs p j) (json_get_segs q)"
  by (induction p arbitrary: j) (auto split: option.splits)

lemma json_step_JString [simp]: "json_step s (JString r) = None"
  by (simp add: json_step_def)

lemma json_get_mut_JString [simp]: "json_get_mut_segs q (JString r) = None"
  by (cases q) auto

lemma sealed_JString: "p \<noteq> [] \<or> P (JString r) \<Longrightarrow> sealed P p (JString r)"
  by (cases p) (auto simp: sealed_Cons sealed_Nil)

lemma shallow_step_put: "shallow P \<Longrightarrow> P j \<Longrightarrow> P (json_step_put s w j)"
  unfolding shallow_def by (cases j) (auto simp: json_step_put_def split: option.splits)

text \<open>
  Writing through a reference keeps a path sealed when the value written is sealed wherever
  the value it replaces was.
\<close>

lemma json_get_mut_Cons_cases:
  assumes "json_get_mut_segs q j = Some (v, put)"
  obtains b c where "json_step b j = Some c" "v = c" "\<And>w. put w = json_step_put b w j"
  | b q' c put' where "json_step b j = Some c" "json_get_mut_segs q' c = Some (v, put')"
      "\<And>w. put w = json_step_put b (put' w) j"
  using assms by (cases q) (auto split: option.splits if_splits)

lemma sealed_write:
  assumes "shallow P" and "sealed P p j" and "json_get_mut_segs q j = Some (v, put)"
    and new: "\<And>p. sealed P p v \<Longrightarrow> sealed P p w"
  shows "sealed P p (put w)"
  using assms(2,3)
proof (induction p arbitrary: q j put)
  case Nil
  from Nil(2) show ?case
    by (rule json_get_mut_Cons_cases) (use Nil(1) shallow_step_put [OF assms(1)] in \<open>auto simp: sealed_Nil\<close>)
next
  case (Cons a p)
  from Cons.prems(2) obtain b c u where c: "json_step b j = Some c" and put: "put w = json_step_put b u j"
    and rec: "sealed P p c \<Longrightarrow> sealed P p u"
    by (rule json_get_mut_Cons_cases) (use Cons.IH new in metis)+
  from json_step_put_other [OF c, of a u] show ?case
  proof
    assume "json_step a j = Some c \<and> json_step a (json_step_put b u j) = Some u"
    with Cons.prems(1) rec show ?thesis by (simp add: put sealed_Cons)
  next
    assume "json_step a (json_step_put b u j) = json_step a j"
    with Cons.prems(1) show ?thesis by (simp add: put sealed_Cons)
  qed
qed

lemma sealed_write_string:
  assumes "shallow P" and "sealed P p j" and "json_get_mut_segs q j = Some (v, put)"
    and "\<And>v. P v \<Longrightarrow> P (JString r)"
  shows "sealed P p (put (JString r))"
  by (rule sealed_write [OF assms(1-3)])
     (metis assms(4) sealed_JString sealed_Nil)

lemma sealed_delete_key:
  "shallow P \<Longrightarrow> sealed P p (JObject m) \<Longrightarrow> sealed P p (JObject (AList.delete k m))"
  unfolding shallow_def
  by (cases p) (auto simp: sealed_Cons sealed_Nil json_step_def delete_conv' split: option.splits if_splits)

lemma sealed_json_remove: "shallow P \<Longrightarrow> sealed P p j \<Longrightarrow> sealed P p (snd (json_remove j path))"
proof -
  let ?segs = "split_on CHR ''.'' path"
  let ?parent = "join_with CHR ''.'' (butlast ?segs)"
  assume p: "shallow P" "sealed P p j"
  have obj: "sealed P p (put (JObject (AList.delete (last ?segs) m)))"
    if "json_get_mut j ?parent = Some (JObject m, put)" for m put
    using that p unfolding json_get_mut_def by (blast intro: sealed_write sealed_delete_key)
  show ?thesis
  proof (cases "json_get_mut j ?parent")
    case None
    with p show ?thesis by (simp add: json_remove_def Let_def)
  next
    case (Some ref)
    obtain v put where "ref = (v, put)" by (cases ref)
    with Some p obj show ?thesis by (cases v) (simp_all add: json_remove_def Let_def)
  qed
qed

lemma json_get_mut_sealed:
  assumes "json_get_mut_segs q j = Some (v, put)" and "P w"
  shows "sealed P q (put w)"
  using json_get_mut_write [OF assms(1)] assms(2) by (simp add: sealed_def)

lemma json_get_mut_None_sealed: "json_get_mut_segs q j = None \<Longrightarrow> q \<noteq> [] \<Longrightarrow> sealed P q j"
  using json_get_mut_read [of q j] by (auto simp: sealed_def)

text \<open>Removing the key at the end of a path empties the path, unless its parent is an array.\<close>

definition not_array :: "json \<Rightarrow> bool" where
  "not_array j = (case j of JArray _ \<Rightarrow> False | _ \<Rightarrow> True)"

definition absent :: "string list \<Rightarrow> json \<Rightarrow> bool" where
  "absent p j = sealed (\<lambda>_. False) p j"

lemma json_step_deleted: "json_step k (JObject (AList.delete k m)) = None"
  by (simp add: json_step_def delete_conv')

lemma json_get_segs_last:
  "segs \<noteq> [] \<Longrightarrow> json_get_segs segs j = Option.bind (json_get_segs (butlast segs) j) (json_step (last segs))"
  using json_get_segs_append [of "butlast segs" "[last segs]" j] by (auto split: Option.bind_split option.splits)

lemma absent_last:
  "segs \<noteq> [] \<Longrightarrow> absent segs j \<longleftrightarrow> is_none_or (json_get_segs (butlast segs) j) (\<lambda>v. json_step (last segs) v = None)"
  by (auto simp: absent_def sealed_def json_get_segs_last is_none_or_def split: Option.bind_split option.splits)

lemma json_remove_absent:
  assumes len: "2 \<le> length (split_on CHR ''.'' path)"
    and parent: "sealed not_array (butlast (split_on CHR ''.'' path)) j"
  shows "absent (split_on CHR ''.'' path) (snd (json_remove j path))"
proof -
  let ?segs = "split_on CHR ''.'' path"
  let ?p = "butlast ?segs"
  have ne: "?p \<noteq> []" using len by (cases ?segs) (auto split: if_splits)
  have split: "split_on CHR ''.'' (join_with CHR ''.'' ?p) = ?p"
    by (rule split_join_with [OF ne]) (meson in_set_butlastD split_on_no_sep)
  note read = json_get_mut_read [of ?p j]
  show ?thesis
  proof (cases "json_get_mut_segs ?p j")
    case None
    with read ne have "json_get_segs ?p j = None" by simp
    with None len split show ?thesis
      by (simp add: json_remove_def json_get_mut_def absent_last Let_def)
  next
    case (Some ref)
    obtain v put where ref: "ref = (v, put)" by (cases ref)
    from Some ref read ne have get: "json_get_segs ?p j = Some v" by (metis fst_conv option.simps(9))
    show ?thesis
    proof (cases v)
      case (JObject m)
      with Some ref have "json_get_segs ?p (put (JObject (AList.delete (last ?segs) m)))
          = Some (JObject (AList.delete (last ?segs) m))" by (intro json_get_mut_write) auto
      with Some ref JObject len split show ?thesis
        by (simp add: json_remove_def json_get_mut_def absent_last json_step_deleted Let_def)
    qed (use Some ref get parent len split in
          \<open>auto simp: json_remove_def json_get_mut_def absent_last Let_def sealed_def not_array_def json_step_def\<close>)
  qed
qed

end
