(* ===== verification/Net_Addr.thy ===== *)
theory Net_Addr
  imports Prelude
begin

text \<open>
  \<^verbatim>\<open>std::net::IpAddr\<close> as the proxy uses it: the parser behind \<^verbatim>\<open>str::parse\<close> (strict
  dotted quad without leading zeros; IPv6 with one \<open>::\<close> and an optional embedded IPv4
  tail) and \<^verbatim>\<open>Display\<close>. Parsing a printed address gives it back, so the proxy's tables, which use
  printed addresses as keys, tell addresses apart.
\<close>

datatype ip_addr = V4 u8 u8 u8 u8 | V6 "u16 list"

section \<open>Parsing\<close>

text \<open>
  \<open>read_number radix max_digits zero_prefix bound\<close>: the longest run of digits; refused when
  it is empty, longer than \<open>max_digits\<close>, has a forbidden leading zero or exceeds \<open>bound\<close>.
\<close>

definition read_number :: "nat \<Rightarrow> nat \<Rightarrow> bool \<Rightarrow> nat \<Rightarrow> string \<Rightarrow> (nat \<times> string) option" where
  "read_number radix max_digits zero_prefix bound s =
     (let ds = takeWhile (\<lambda>c. to_digit radix c \<noteq> None) s;
          rest = dropWhile (\<lambda>c. to_digit radix c \<noteq> None) s
      in if length ds > max_digits \<or> ds = [] then None
         else if \<not> zero_prefix \<and> hd ds = CHR ''0'' \<and> length ds > 1 then None
         else case digits_value radix 0 ds of
                None \<Rightarrow> None
              | Some n \<Rightarrow> if n \<le> bound then Some (n, rest) else None)"

definition read_char :: "char \<Rightarrow> string \<Rightarrow> string option" where
  "read_char c s = strip_prefix [c] s"

definition read_octet :: "string \<Rightarrow> (u8 \<times> string) option" where
  "read_octet s = map_option (\<lambda>(n, r). (of_nat n, r)) (read_number 10 3 False 255 s)"

fun read_octets :: "nat \<Rightarrow> string \<Rightarrow> (u8 list \<times> string) option" where
  "read_octets 0 s = Some ([], s)"
| "read_octets (Suc n) s =
     (case read_char CHR ''.'' s of None \<Rightarrow> None
      | Some s1 \<Rightarrow> (case read_octet s1 of None \<Rightarrow> None
         | Some (o1, s2) \<Rightarrow> map_option (\<lambda>(os, r). (o1 # os, r)) (read_octets n s2)))"

definition read_ipv4 :: "string \<Rightarrow> (u8 list \<times> string) option" where
  "read_ipv4 s =
     (case read_octet s of None \<Rightarrow> None
      | Some (o1, s1) \<Rightarrow> map_option (\<lambda>(os, r). (o1 # os, r)) (read_octets 3 s1))"

definition read_sep :: "bool \<Rightarrow> string \<Rightarrow> string option" where
  "read_sep first s = (if first then Some s else read_char CHR '':'' s)"

definition be_word :: "u8 \<Rightarrow> u8 \<Rightarrow> u16" where
  "be_word a b = of_nat (unat a * 256 + unat b)"

text \<open>
  \<open>read_groups limit first s\<close>: up to \<open>limit\<close> groups, the flag saying whether an embedded
  IPv4 address ended them.
\<close>

fun read_groups :: "nat \<Rightarrow> bool \<Rightarrow> string \<Rightarrow> u16 list \<times> bool \<times> string" where
  "read_groups 0 first s = ([], False, s)"
| "read_groups (Suc n) first s =
     (let v4 = (if 0 < n then (case read_sep first s of None \<Rightarrow> None | Some t \<Rightarrow> read_ipv4 t) else None)
      in case v4 of
           Some (os, r) \<Rightarrow> ([be_word (os ! 0) (os ! 1), be_word (os ! 2) (os ! 3)], True, r)
         | None \<Rightarrow>
             (case read_sep first s of None \<Rightarrow> ([], False, s)
              | Some t \<Rightarrow> (case read_number 16 4 True 65535 t of None \<Rightarrow> ([], False, s)
                 | Some (g, r) \<Rightarrow>
                     (let (gs, b, r') = read_groups n False r in (of_nat g # gs, b, r')))))"

definition read_ipv6 :: "string \<Rightarrow> (u16 list \<times> string) option" where
  "read_ipv6 s =
     (let (hd_gs, hd_v4, r) = read_groups 8 True s
      in if length hd_gs = 8 then Some (hd_gs, r)
         else if hd_v4 then None
         else case strip_prefix ''::'' r of None \<Rightarrow> None
           | Some r1 \<Rightarrow>
               (let (tl_gs, _, r2) = read_groups (8 - (length hd_gs + 1)) True r1
                in Some (hd_gs @ replicate (8 - length hd_gs - length tl_gs) 0 @ tl_gs, r2)))"

definition octets_addr :: "u8 list \<Rightarrow> ip_addr" where
  "octets_addr os = V4 (os ! 0) (os ! 1) (os ! 2) (os ! 3)"

definition parse_ip :: "string \<Rightarrow> ip_addr option" where
  "parse_ip s =
     (case read_ipv4 s of
        Some (os, r) \<Rightarrow> if r = [] then Some (octets_addr os) else None
      | None \<Rightarrow>
          (case read_ipv6 s of
             Some (gs, r) \<Rightarrow> if r = [] then Some (V6 gs) else None
           | None \<Rightarrow> None))"

section \<open>Printing\<close>

definition show_ipv4 :: "u8 \<Rightarrow> u8 \<Rightarrow> u8 \<Rightarrow> u8 \<Rightarrow> string" where
  "show_ipv4 a b c d =
     show_nat (unat a) @ ''.'' @ show_nat (unat b) @ ''.'' @ show_nat (unat c) @ ''.'' @ show_nat (unat d)"

text \<open>
  The first longest run of zero groups, as \<^verbatim>\<open>Display\<close> finds it: current start and length,
  longest start and length, position.
\<close>

fun zero_span :: "nat \<Rightarrow> nat \<Rightarrow> nat \<Rightarrow> nat \<Rightarrow> nat \<Rightarrow> u16 list \<Rightarrow> nat \<times> nat" where
  "zero_span i cs cl ls ll [] = (ls, ll)"
| "zero_span i cs cl ls ll (g # gs) =
     (if g = 0 then
        (let cs' = (if cl = 0 then i else cs); cl' = Suc cl
         in if cl' > ll then zero_span (Suc i) cs' cl' cs' cl' gs
            else zero_span (Suc i) cs' cl' ls ll gs)
      else zero_span (Suc i) 0 0 ls ll gs)"

definition show_groups :: "u16 list \<Rightarrow> string" where
  "show_groups gs = join_with CHR '':'' (map (\<lambda>g. show_radix 16 (unat g)) gs)"

definition show_ipv6 :: "u16 list \<Rightarrow> string" where
  "show_ipv6 gs =
     (if take 5 gs = replicate 5 0 \<and> drop 5 (take 6 gs) = [0xffff] then
        ''::ffff:'' @ show_ipv4 (ucast (drop_bit 8 (gs ! 6))) (ucast (gs ! 6))
                              (ucast (drop_bit 8 (gs ! 7))) (ucast (gs ! 7))
      else (let (st, ln) = zero_span 0 0 0 0 0 gs
            in if ln > 1 then show_groups (take st gs) @ ''::'' @ show_groups (drop (st + ln) gs)
               else show_groups gs))"

fun show_ip :: "ip_addr \<Rightarrow> string" where
  "show_ip (V4 a b c d) = show_ipv4 a b c d"
| "show_ip (V6 gs) = show_ipv6 gs"

section \<open>Round trip for IPv4\<close>

lemma to_digit_digit_char: "d < b \<Longrightarrow> b \<le> 36 \<Longrightarrow> to_digit b (digit_char d) = Some d"
  by (auto simp: to_digit_def digit_char_def Let_def)

lemma digits_value_append:
  "digits_value b acc (xs @ ys) =
     (case digits_value b acc xs of None \<Rightarrow> None | Some n \<Rightarrow> digits_value b n ys)"
  by (induction xs arbitrary: acc) (auto split: option.splits)

lemma digits_value_show_radix: "2 \<le> b \<Longrightarrow> b \<le> 36 \<Longrightarrow> digits_value b 0 (show_radix b n) = Some n"
proof (induction n rule: less_induct)
  case (less n)
  show ?case
  proof (cases "n < b")
    case True
    with less.prems show ?thesis by (simp add: show_radix.simps [of b n] to_digit_digit_char)
  next
    case False
    with less.prems have "n div b < n" by (intro div_less_dividend) auto
    with False less.prems show ?thesis
      by (simp add: show_radix.simps [of b n] less.IH digits_value_append to_digit_digit_char)
  qed
qed

lemma show_radix_digits:
  "c \<in> set (show_radix b n) \<Longrightarrow> 2 \<le> b \<Longrightarrow> b \<le> 36 \<Longrightarrow> to_digit b c \<noteq> None"
proof (induction n rule: less_induct)
  case (less n)
  show ?case
  proof (cases "n < b")
    case True
    with less.prems show ?thesis by (simp add: show_radix.simps [of b n] to_digit_digit_char)
  next
    case False
    with less.prems have "n div b < n" by (intro div_less_dividend) auto
    with False less.prems less.IH [of "n div b"] show ?thesis
      by (auto simp: show_radix.simps [of b n] to_digit_digit_char)
  qed
qed

lemma digits_value_show_nat: "digits_value 10 0 (show_nat n) = Some n"
  by (simp add: show_nat_def digits_value_show_radix)

lemma show_nat_digits: "c \<in> set (show_nat n) \<Longrightarrow> to_digit 10 c \<noteq> None"
  unfolding show_nat_def by (rule show_radix_digits) auto

lemma show_nat_ne [simp]: "show_nat n \<noteq> []"
  by (simp add: show_nat_def show_radix.simps [of 10 n])

lemma length_show_nat_le3: "n < 1000 \<Longrightarrow> length (show_nat n) \<le> 3"
  by (simp add: show_nat_def show_radix.simps [of 10 n] show_radix.simps [of 10 "n div 10"]
      show_radix.simps [of 10 "n div 10 div 10"])

lemma digit_char_zero: "d < 10 \<Longrightarrow> digit_char d = CHR ''0'' \<longleftrightarrow> d = 0"
  by (auto simp: digit_char_def char_of_eq_iff take_bit_eq_mod)

lemma show_radix_ne [simp]: "show_radix b n \<noteq> []"
  by (simp add: show_radix.simps [of b n])

lemma length_show_radix_1: "length (show_radix 10 m) = 1 \<Longrightarrow> m < 10"
  by (rule ccontr) (simp add: show_radix.simps [of 10 m])

lemma hd_show_nat: "hd (show_nat n) = CHR ''0'' \<Longrightarrow> length (show_nat n) = 1"
  unfolding show_nat_def
proof (induction n rule: less_induct)
  case (less n)
  show ?case
  proof (cases "n < 10")
    case True
    then show ?thesis by (simp add: show_radix.simps [of 10 n])
  next
    case False
    from False less.prems have h: "hd (show_radix 10 (n div 10)) = CHR ''0''"
      by (simp add: show_radix.simps [of 10 n])
    with False less.IH [of "n div 10"] have "length (show_radix 10 (n div 10)) = 1" by simp
    then have small: "n div 10 < 10" by (rule length_show_radix_1)
    with h have "digit_char (n div 10) = CHR ''0''" by (simp add: show_radix.simps [of 10 "n div 10"])
    with small False show ?thesis by (simp add: digit_char_zero)
  qed
qed

text \<open>A printed number is the whole digit run in front of a character that is no digit.\<close>

lemma digit_run_show_radix:
  assumes "2 \<le> b" and "b \<le> 36" and "r = [] \<or> to_digit b (hd r) = None"
  shows "takeWhile (\<lambda>c. to_digit b c \<noteq> None) (show_radix b n @ r) = show_radix b n"
    and "dropWhile (\<lambda>c. to_digit b c \<noteq> None) (show_radix b n @ r) = r"
proof -
  have all: "\<And>c. c \<in> set (show_radix b n) \<Longrightarrow> to_digit b c \<noteq> None"
    using assms(1,2) by (rule show_radix_digits [rotated])
  show "takeWhile (\<lambda>c. to_digit b c \<noteq> None) (show_radix b n @ r) = show_radix b n"
    using assms(3) all by (subst takeWhile_append2) (auto simp: takeWhile_eq_Nil_iff)
  show "dropWhile (\<lambda>c. to_digit b c \<noteq> None) (show_radix b n @ r) = r"
    using assms(3) all by (subst dropWhile_append2) (auto simp: dropWhile_eq_self_iff)
qed

lemma read_number_show_nat:
  assumes "n \<le> 255" and "r = [] \<or> to_digit 10 (hd r) = None"
  shows "read_number 10 3 False 255 (show_nat n @ r) = Some (n, r)"
proof -
  have run: "takeWhile (\<lambda>c. to_digit 10 c \<noteq> None) (show_nat n @ r) = show_nat n"
    "dropWhile (\<lambda>c. to_digit 10 c \<noteq> None) (show_nat n @ r) = r"
    unfolding show_nat_def using assms(2) by (simp_all only: digit_run_show_radix)
  have "length (show_nat n) \<le> 3" using assms(1) by (intro length_show_nat_le3) simp
  then show ?thesis
    using assms(1) hd_show_nat [of n]
    unfolding read_number_def Let_def run by (auto simp: digits_value_show_nat)
qed

lemma read_octet_show:
  "r = [] \<or> to_digit 10 (hd r) = None \<Longrightarrow> read_octet (show_nat (unat a) @ r) = Some (a, r)"
proof -
  assume r: "r = [] \<or> to_digit 10 (hd r) = None"
  have "unat a \<le> 255" using unsigned_less [of a, where 'a = nat] by simp
  then show ?thesis using r by (simp add: read_octet_def read_number_show_nat)
qed

lemma dot_not_digit [simp]: "to_digit 10 CHR ''.'' = None"
  by (simp add: to_digit_def)

lemma read_ipv4_show: "read_ipv4 (show_ipv4 a b c d) = Some ([a, b, c, d], [])"
  using read_octet_show [of "[]" d]
  by (simp add: read_ipv4_def show_ipv4_def read_octet_show read_char_def numeral_3_eq_3)

section \<open>Round trip for IPv6\<close>

subsection \<open>Groups\<close>

lemma length_show_radix16_le4: "n < 65536 \<Longrightarrow> length (show_radix 16 n) \<le> 4"
  by (simp add: show_radix.simps [of 16 n] show_radix.simps [of 16 "n div 16"]
      show_radix.simps [of 16 "n div 16 div 16"] show_radix.simps [of 16 "n div 16 div 16 div 16"])

lemma read_group_show:
  assumes "r = [] \<or> to_digit 16 (hd r) = None"
  shows "read_number 16 4 True 65535 (show_radix 16 (unat (g :: u16)) @ r) = Some (unat g, r)"
proof -
  have run: "takeWhile (\<lambda>c. to_digit 16 c \<noteq> None) (show_radix 16 (unat g) @ r) = show_radix 16 (unat g)"
    "dropWhile (\<lambda>c. to_digit 16 c \<noteq> None) (show_radix 16 (unat g) @ r) = r"
    using assms by (simp_all only: digit_run_show_radix)
  have g: "unat g \<le> 65535" using unsigned_less [of g, where 'a = nat] by simp
  then have "length (show_radix 16 (unat g)) \<le> 4" by (intro length_show_radix16_le4) simp
  then show ?thesis
    using g unfolding read_number_def Let_def run by (auto simp: digits_value_show_radix)
qed

lemma colon_not_digit [simp]: "to_digit 16 CHR '':'' = None" "to_digit 10 CHR '':'' = None"
  by (simp_all add: to_digit_def)

lemma read_number_colon [simp]: "read_number b m z k [] = None" "read_number 16 m z k (CHR '':'' # r) = None"
  "read_number 10 m z k (CHR '':'' # r) = None"
  by (simp_all add: read_number_def)

text \<open>Without a dot there is no IPv4 address.\<close>

lemma read_octets_dot: "read_octets (Suc n) s = Some (os, r) \<Longrightarrow> hd s = CHR ''.'' \<and> s \<noteq> []"
  by (cases s) (auto simp: read_char_def split: option.splits if_splits)

lemma read_ipv4_no_dot: "CHR ''.'' \<notin> set s \<Longrightarrow> read_ipv4 s = None"
proof (rule ccontr)
  assume nd: "CHR ''.'' \<notin> set s" and "read_ipv4 s \<noteq> None"
  then obtain o1 s1 os r where o1: "read_octet s = Some (o1, s1)" and os: "read_octets 3 s1 = Some (os, r)"
    by (auto simp: read_ipv4_def split: option.splits)
  from o1 have "set s1 \<subseteq> set s"
    by (auto simp: read_octet_def read_number_def Let_def split: option.splits if_splits dest: set_dropWhileD)
  moreover from os have "CHR ''.'' \<in> set s1"
    using read_octets_dot [of 2 s1 os r] by (cases s1) (simp_all add: numeral_3_eq_3 numeral_2_eq_2)
  ultimately show False using nd by blast
qed

lemma read_ipv4_colon [simp]: "read_ipv4 (CHR '':'' # s) = None" "read_ipv4 [] = None"
  by (simp_all add: read_ipv4_def read_octet_def)

text \<open>
  A colon in front of every group but the first: what \<open>read_groups\<close> reads after the first
  group.
\<close>

definition colon_groups :: "u16 list \<Rightarrow> string" where
  "colon_groups gs = concat (map (\<lambda>g. CHR '':'' # show_radix 16 (unat g)) gs)"

lemma show_groups_colon: "show_groups (g # gs) = show_radix 16 (unat g) @ colon_groups gs"
  by (induction gs arbitrary: g) (auto simp: show_groups_def colon_groups_def)

definition groups_end :: "string \<Rightarrow> bool" where
  "groups_end r \<longleftrightarrow> CHR ''.'' \<notin> set r \<and> (r = [] \<or> take 2 r = ''::'')"

lemma groups_end_cases:
  assumes "groups_end r"
  obtains "r = []" | t where "r = CHR '':'' # CHR '':'' # t" "CHR ''.'' \<notin> set t"
  using assms by (cases r rule: remdups_adj.cases) (auto simp: groups_end_def)

lemma show_radix16_no_dot [simp]: "CHR ''.'' \<notin> set (show_radix 16 n)"
  using show_radix_digits [of "CHR ''.''" 16 n] by (auto simp: to_digit_def)

lemma colon_groups_no_dot [simp]: "CHR ''.'' \<notin> set (colon_groups gs)"
  by (auto simp: colon_groups_def)

lemma colon_groups_hd: "groups_end r \<Longrightarrow> colon_groups gs @ r = [] \<or> hd (colon_groups gs @ r) = CHR '':''"
  by (cases gs) (auto simp: colon_groups_def elim: groups_end_cases)

lemma read_groups_end: "groups_end r \<Longrightarrow> read_groups n b r = ([], False, r)"
  by (cases n; erule groups_end_cases)
     (simp_all add: read_sep_def read_char_def Let_def split: option.splits)

lemma read_groups_colon:
  "groups_end r \<Longrightarrow> length gs \<le> n \<Longrightarrow> read_groups n False (colon_groups gs @ r) = (gs, False, r)"
proof (induction gs arbitrary: n)
  case Nil
  then show ?case by (simp add: colon_groups_def read_groups_end)
next
  case (Cons g gs)
  then obtain m where n: "n = Suc m" "length gs \<le> m" by (cases n) auto
  let ?r = "colon_groups gs @ r"
  have nd: "CHR ''.'' \<notin> set (show_radix 16 (unat g) @ ?r)"
    using Cons.prems(1) by (simp add: groups_end_def)
  have "?r = [] \<or> to_digit 16 (hd ?r) = None" using colon_groups_hd [OF Cons.prems(1), of gs] by auto
  then show ?case
    using Cons.IH [OF Cons.prems(1) n(2)] read_ipv4_no_dot [OF nd] read_group_show [of ?r g]
    by (simp add: n(1) colon_groups_def [of "g # gs"] colon_groups_def [of gs, symmetric]
        read_sep_def read_char_def Let_def)
qed

lemma read_groups_show:
  assumes "groups_end r" and "length gs \<le> n"
  shows "read_groups n True (show_groups gs @ r) = (gs, False, r)"
proof (cases gs)
  case Nil
  with assms show ?thesis by (simp add: show_groups_def read_groups_end)
next
  case (Cons g hs)
  with assms(2) obtain m where n: "n = Suc m" "length hs \<le> m" by (cases n) auto
  let ?r = "colon_groups hs @ r"
  have nd: "CHR ''.'' \<notin> set (show_radix 16 (unat g) @ ?r)" using assms(1) by (simp add: groups_end_def)
  have "?r = [] \<or> to_digit 16 (hd ?r) = None" using colon_groups_hd [OF assms(1), of hs] by auto
  then show ?thesis
    using read_groups_colon [OF assms(1) n(2)] read_ipv4_no_dot [OF nd] read_group_show [of ?r g]
    by (simp add: n(1) Cons show_groups_colon read_sep_def Let_def)
qed

lemma show_groups_no_dot [simp]: "CHR ''.'' \<notin> set (show_groups gs)"
  by (cases gs) (simp_all add: show_groups_colon, simp add: show_groups_def)

subsection \<open>The compressed zero run\<close>

definition zero_slice :: "u16 list \<Rightarrow> nat \<Rightarrow> nat \<Rightarrow> bool" where
  "zero_slice gs st k \<longleftrightarrow> st + k \<le> length gs \<and> (\<forall>j < k. gs ! (st + j) = 0)"

lemma zero_slice_Suc: "zero_slice gs st k \<Longrightarrow> st + k < length gs \<Longrightarrow> gs ! (st + k) = 0 \<Longrightarrow> zero_slice gs st (Suc k)"
  by (auto simp: zero_slice_def less_Suc_eq)

lemma zero_slice_0: "st \<le> length gs \<Longrightarrow> zero_slice gs st 0"
  by (simp add: zero_slice_def)

lemma zero_span_slice:
  "zero_span (length ps) cs cl ls ll gs = (st, k) \<Longrightarrow> zero_slice (ps @ gs) ls ll \<Longrightarrow>
     zero_slice (ps @ gs) cs cl \<Longrightarrow> (0 < cl \<longrightarrow> cs + cl = length ps) \<Longrightarrow> zero_slice (ps @ gs) st k"
proof (induction gs arbitrary: ps cs cl ls ll)
  case Nil
  then show ?case by simp
next
  case (Cons g gs)
  note IH = Cons.IH [of "ps @ [g]", simplified]
  let ?cs = "if cl = 0 then length ps else cs"
  show ?case
  proof (cases "g = 0")
    case False
    with Cons.prems show ?thesis by (intro IH [of 0 0 ls ll]) (auto intro: zero_slice_0)
  next
    case True
    have start: "?cs + cl = length ps" using Cons.prems(4) by auto
    have "zero_slice (ps @ g # gs) ?cs cl"
      using Cons.prems(3) by (auto intro: zero_slice_0)
    with start True have run: "zero_slice (ps @ g # gs) ?cs (Suc cl)"
      by (intro zero_slice_Suc) (auto simp: nth_append)
    have "zero_span (Suc (length ps)) ?cs (Suc cl) ?cs (Suc cl) gs = (st, k) \<or>
          zero_span (Suc (length ps)) ?cs (Suc cl) ls ll gs = (st, k)"
      using Cons.prems(1) True by (simp add: Let_def split: if_split_asm)
    then show ?thesis
      using IH [OF _ run run] IH [OF _ Cons.prems(2) run] start by auto
  qed
qed

lemma zero_slice_split:
  assumes "zero_slice gs st k"
  shows "gs = take st gs @ replicate k 0 @ drop (st + k) gs"
proof -
  have "take k (drop st gs) = replicate k 0"
    using assms by (intro nth_equalityI) (auto simp: zero_slice_def)
  then show ?thesis by (metis append_take_drop_id drop_drop add.commute)
qed

lemma show_groups_read: "length gs = 8 \<Longrightarrow> read_ipv6 (show_groups gs) = Some (gs, [])"
  using read_groups_show [of "[]" gs 8] by (simp add: read_ipv6_def groups_end_def)

lemma compressed_read:
  assumes "zero_slice gs st k" and "length gs = 8" and "1 < k"
  shows "read_ipv6 (show_groups (take st gs) @ ''::'' @ show_groups (drop (st + k) gs)) = Some (gs, [])"
proof -
  let ?hs = "take st gs" and ?ts = "drop (st + k) gs"
  have st: "st + k \<le> 8" using assms by (simp add: zero_slice_def)
  have h: "read_groups 8 True (show_groups ?hs @ ''::'' @ show_groups ?ts) = (?hs, False, ''::'' @ show_groups ?ts)"
    using assms by (intro read_groups_show) (simp_all add: groups_end_def)
  have t: "read_groups (7 - st) True (show_groups ?ts) = (?ts, False, [])"
    using read_groups_show [of "[]" ?ts "7 - st"] assms by (simp add: groups_end_def)
  have "8 - st - (8 - (st + k)) = k" using st by simp
  then have "?hs @ replicate (8 - st - (8 - (st + k))) 0 @ ?ts = gs"
    using zero_slice_split [OF assms(1)] by simp
  moreover have "min 8 st = st" "st \<noteq> 8" using st assms(3) by auto
  ultimately show ?thesis
    using h t assms(2) by (simp add: read_ipv6_def)
qed

subsection \<open>IPv4-mapped addresses\<close>

lemma be_word_bytes: "be_word (ucast (drop_bit 8 (w :: u16))) (ucast w) = w"
proof -
  have w: "unat w < 65536" using unsigned_less [of w, where 'a = nat] by simp
  have "unat (ucast (drop_bit 8 w) :: u8) = unat w div 256" "unat (ucast w :: u8) = unat w mod 256"
    using w by (simp_all add: unsigned_ucast_eq take_bit_eq_mod drop_bit_eq_div unat_div)
  then show ?thesis by (simp only: be_word_def) simp
qed

lemma mapped_read:
  "read_ipv6 (''::ffff:'' @ show_ipv4 a b c d) = Some (replicate 5 0 @ [0xffff, be_word a b, be_word c d], [])"
proof -
  let ?q = "CHR '':'' # show_ipv4 a b c d"
  have f: "read_number 16 4 True 65535 (''ffff'' @ ?q) = Some (65535, ?q)"
    by (simp add: read_number_def to_digit_def)
  have n: "read_ipv4 (''ffff'' @ ?q) = None"
    by (simp add: read_ipv4_def read_octet_def read_number_def to_digit_def)
  have q: "read_groups 6 False ?q = ([be_word a b, be_word c d], True, [])"
    using read_groups.simps(2) [of 5 False ?q] by (simp add: read_sep_def read_char_def read_ipv4_show)
  have t: "read_groups 7 True (''ffff'' @ ?q) = ([0xffff, be_word a b, be_word c d], True, [])"
    using f n q read_groups.simps(2) [of 6 True "''ffff'' @ ?q"] by (simp add: read_sep_def)
  have h: "read_groups 8 True (''::ffff'' @ ?q) = ([], False, ''::ffff'' @ ?q)"
    using read_groups.simps(2) [of 7 True "''::ffff'' @ ?q"] by (simp add: read_sep_def)
  show ?thesis using t h by (simp add: read_ipv6_def numeral_eq_Suc)
qed

subsection \<open>All addresses\<close>

text \<open>\<^verbatim>\<open>Ipv6Addr\<close> has eight groups, by its type.\<close>

fun addr_wf :: "ip_addr \<Rightarrow> bool" where
  "addr_wf (V4 a b c d) = True"
| "addr_wf (V6 gs) = (length gs = 8)"

lemma show_ipv6_read:
  assumes len: "length gs = 8"
  shows "read_ipv6 (show_ipv6 gs) = Some (gs, []) \<and> read_ipv4 (show_ipv6 gs) = None"
proof (cases "take 5 gs = replicate 5 0 \<and> drop 5 (take 6 gs) = [0xffff]")
  case True
  have "drop 6 gs = [gs ! 6, gs ! 7]"
    using len by (intro nth_equalityI) (auto simp: less_Suc_eq nth_Cons split: nat.splits)
  moreover have "take 6 gs = take 5 gs @ drop 5 (take 6 gs)"
    using append_take_drop_id [of 5 "take 6 gs"] by (simp add: min_def)
  then have "gs = (take 5 gs @ drop 5 (take 6 gs)) @ drop 6 gs"
    using append_take_drop_id [of 6 gs] by simp
  ultimately have "gs = replicate 5 0 @ [0xffff, gs ! 6, gs ! 7]"
    using True by (metis append.assoc append_Cons append_Nil)
  then show ?thesis
    using mapped_read [of "ucast (drop_bit 8 (gs ! 6))" "ucast (gs ! 6)" "ucast (drop_bit 8 (gs ! 7))" "ucast (gs ! 7)"] True
    by (simp add: show_ipv6_def be_word_bytes)
next
  case False
  obtain st k where sp: "zero_span 0 0 0 0 0 gs = (st, k)" by fastforce
  have "zero_slice gs st k"
    using zero_span_slice [of "[]" 0 0 0 0 gs st k] sp by (simp add: zero_slice_def)
  note sl = compressed_read [OF this len] show_groups_read [OF len]
  have "read_ipv6 (show_ipv6 gs) = Some (gs, [])"
    using False sp sl unfolding show_ipv6_def by (simp only: if_False split_conv Let_def split: if_split) blast
  moreover have "CHR ''.'' \<notin> set (show_ipv6 gs)"
    using False sp unfolding show_ipv6_def by (simp only: if_False split_conv Let_def split: if_split) simp
  ultimately show ?thesis using read_ipv4_no_dot by blast
qed

lemma parse_show_ip: "addr_wf ip \<Longrightarrow> parse_ip (show_ip ip) = Some ip"
  by (cases ip) (simp_all add: parse_ip_def read_ipv4_show octets_addr_def show_ipv6_read)

lemma show_ip_inject: "addr_wf ip \<Longrightarrow> addr_wf ip' \<Longrightarrow> show_ip ip = show_ip ip' \<longleftrightarrow> ip = ip'"
  by (metis parse_show_ip option.inject)

lemma read_groups_length: "read_groups n b s = (gs, v4, r) \<Longrightarrow> length gs \<le> n"
  by (induction n b s arbitrary: gs v4 r rule: read_groups.induct)
     (auto simp: Let_def split: option.splits if_splits prod.splits)

lemma parse_ip_wf: "parse_ip s = Some ip \<Longrightarrow> addr_wf ip"
  by (auto simp: parse_ip_def octets_addr_def read_ipv6_def split: option.splits if_splits prod.splits
      dest!: read_groups_length)

end
