(* ===== verification/External.thy ===== *)
theory External
  imports Json_Value Net_Addr
begin

text \<open>
  The code the proxy calls but does not contain: the third-party crates and the operating
  system. Each is a parameter of the definitions that use it. The two records gather
  them; hypotheses of a theorem about a field state documented behaviour of that code.
  A compiled \<^verbatim>\<open>regex::Regex\<close> is represented by the pattern it was compiled from
  (\<^verbatim>\<open>Regex::as_str\<close>) and an \<^verbatim>\<open>ipnet::IpNet\<close> by its address and prefix length.
\<close>

type_synonym regex = string
type_synonym ip_net = "ip_addr \<times> nat"

text \<open>
  What \<^verbatim>\<open>Regex::replace_all\<close> walks over: text between matches, and matches with the
  text of the capture group \<^verbatim>\<open>name\<close>.
\<close>

datatype rx_segment = Plain string | Capture string

record external =
  regex_new :: "string \<Rightarrow> string + regex"            \<comment> \<open>\<^verbatim>\<open>Regex::new\<close>\<close>
  regex_is_match :: "regex \<Rightarrow> string \<Rightarrow> bool"         \<comment> \<open>\<^verbatim>\<open>Regex::is_match\<close>\<close>
  regex_segments :: "regex \<Rightarrow> string \<Rightarrow> rx_segment list" \<comment> \<open>matches seen by \<^verbatim>\<open>Regex::replace_all\<close>\<close>
  ipnet_parse :: "string \<Rightarrow> ip_net option"            \<comment> \<open>\<^verbatim>\<open>str::parse::<IpNet>\<close>\<close>
  ipnet_contains :: "ip_net \<Rightarrow> ip_addr \<Rightarrow> bool"       \<comment> \<open>\<^verbatim>\<open>IpNet::contains\<close>\<close>
  json_from_slice :: "bytes \<Rightarrow> string + json"         \<comment> \<open>\<^verbatim>\<open>serde_json::from_slice\<close>\<close>
  json_to_vec :: "json \<Rightarrow> bytes option"               \<comment> \<open>\<^verbatim>\<open>serde_json::to_vec\<close>\<close>
  json_to_string :: "json \<Rightarrow> string"                  \<comment> \<open>\<^verbatim>\<open>Value::to_string\<close>\<close>
  header_to_str :: "bytes \<Rightarrow> string option"           \<comment> \<open>\<^verbatim>\<open>HeaderValue::to_str\<close>\<close>
  status_from_u16 :: "u16 \<Rightarrow> u16 option"              \<comment> \<open>\<^verbatim>\<open>StatusCode::from_u16\<close>\<close>
  uri_valid :: "string \<Rightarrow> bool"                       \<comment> \<open>\<^verbatim>\<open>Uri::try_from\<close> succeeds\<close>

text \<open>The process environment and the file system, as one run of a function sees them.\<close>

record world =
  env_var :: "string \<Rightarrow> string option"
  path_exists :: "string \<Rightarrow> bool"
  read_to_string :: "string \<Rightarrow> string + string"


text \<open>An instance in which every external call fails, for rules that use none of them.\<close>

definition no_external :: external where
  "no_external =
     \<lparr>regex_new = (\<lambda>_. Inl ''no regex''), regex_is_match = (\<lambda>_ _. False), regex_segments = (\<lambda>_ s. [Plain s]),
      ipnet_parse = (\<lambda>_. None), ipnet_contains = (\<lambda>_ _. False),
      json_from_slice = (\<lambda>_. Inl ''no json''), json_to_vec = (\<lambda>_. None), json_to_string = (\<lambda>_. []),
      header_to_str = Some, status_from_u16 = (\<lambda>s. if 100 \<le> s \<and> s < 1000 then Some s else None),
      uri_valid = (\<lambda>_. True)\<rparr>"

end
