(* ===== verification/Config.thy ===== *)
theory Config
  imports External "HOL-Library.Multiset"
begin

text \<open>
  The configuration of \<^verbatim>\<open>src/config.rs\<close>: the YAML data model, environment expansion and
  overrides, regex compilation, validation, the priority sort and the two loaders.
  Parsing YAML itself is \<^verbatim>\<open>serde_yaml\<close>'s: the loaders take it as the argument
  \<open>from_str\<close>. The lemmas show what every configuration that loads satisfies.
\<close>

section \<open>Data model\<close>

record tls_config =
  tls_cert :: string
  tls_key :: string
  tls_client_ca :: "string option"
  tls_require_client_cert :: "bool option"

record metrics_config =
  mc_enabled :: "bool option"
  mc_path :: "string option"

record global_config =
  g_port :: "u16 option"
  g_socket :: "string option"
  g_log_level :: "string option"
  g_log_format :: "string option"
  g_audit_log :: "string option"
  g_bind :: "string option"
  g_tls :: "tls_config option"
  g_metrics :: "metrics_config option"
  g_trusted_proxies :: "string list option"

record cert_role_mapping =
  crm_cn :: string
  crm_role :: string

record mtls_config =
  cert_role_map :: "cert_role_mapping list option"
  default_role :: "string option"

datatype secret_token = SecretToken (expose_secret: string)

text \<open>The hand-written \<^verbatim>\<open>Deserialize\<close> and \<^verbatim>\<open>Serialize\<close> of a token: a plain string.\<close>

definition secret_token_visit_str :: "string \<Rightarrow> secret_token" where
  "secret_token_visit_str v = SecretToken v"

definition secret_token_serialize :: "secret_token \<Rightarrow> string" where
  "secret_token_serialize t = expose_secret t"

record token_entry =
  te_token :: secret_token
  te_role :: "string option"

record auth_config =
  a_type :: "string option"
  a_secret :: "secret_token option"
  a_tokens :: "token_entry list option"
  a_mtls :: "mtls_config option"

record condition =
  c_field :: string
  c_operator :: string
  c_value :: "yaml option"
  compiled_regex :: "regex option"

datatype condition_node = Leaf condition | And "condition_node list" | Or "condition_node list"

record response_filter_entry =
  rf_field :: string
  rf_action :: string
  rf_replacement :: "string option"

definition default_rate_requests :: u64 where
  "default_rate_requests = 50"

definition default_rate_period :: u64 where
  "default_rate_period = 30"

definition default_rate_penalty :: u64 where
  "default_rate_penalty = 30"

record rate_limit_config =
  rl_requests :: u64
  rl_period :: u64
  rl_penalty :: u64

record rule =
  r_name :: string
  r_description :: "string option"
  r_action :: string
  r_priority :: "u32 option"
  r_conditions :: "condition_node list"
  r_message :: "string option"
  r_role :: "string option"
  r_response_filter :: "response_filter_entry list option"
  r_status :: "u16 option"
  r_methods :: "string list option"
  r_rate_limit :: "rate_limit_config option"
  r_dry_run :: "bool option"

record proxy_config =
  cfg_global :: "global_config option"
  cfg_auth :: "auth_config option"
  cfg_rules :: "rule list option"

definition global_config_default :: global_config where
  "global_config_default =
     \<lparr>g_port = None, g_socket = None, g_log_level = None, g_log_format = None,
      g_audit_log = None, g_bind = None, g_tls = None, g_metrics = None, g_trusted_proxies = None\<rparr>"

definition rule_default :: rule where
  "rule_default =
     \<lparr>r_name = [], r_description = None, r_action = [], r_priority = None, r_conditions = [],
      r_message = None, r_role = None, r_response_filter = None, r_status = None,
      r_methods = None, r_rate_limit = None, r_dry_run = None\<rparr>"

definition proxy_config_default :: proxy_config where
  "proxy_config_default = \<lparr>cfg_global = None, cfg_auth = None, cfg_rules = None\<rparr>"

section \<open>Environment expansion\<close>

text \<open>The pattern \<^verbatim>\<open>\$\{(?<name>\w+)\}\<close>; \<open>CHR 0x5C\<close> is the backslash.\<close>

definition env_pattern :: regex where
  "env_pattern = [CHR 0x5C] @ ''$'' @ [CHR 0x5C] @ ''{(?<name>'' @ [CHR 0x5C] @ ''w+)'' @ [CHR 0x5C] @ ''}''"

text \<open>The replacement closure over the matches: the new text and the names it missed.\<close>

fun expand_segments :: "(string \<Rightarrow> string option) \<Rightarrow> rx_segment list \<Rightarrow> string \<times> string list" where
  "expand_segments env [] = ([], [])"
| "expand_segments env (Plain s # segs) =
     (let (out, missing) = expand_segments env segs in (s @ out, missing))"
| "expand_segments env (Capture n # segs) =
     (let (out, missing) = expand_segments env segs
      in case env n of Some v \<Rightarrow> (v @ out, missing) | None \<Rightarrow> (out, n # missing))"

definition expand_env :: "external \<Rightarrow> world \<Rightarrow> string \<Rightarrow> bool \<Rightarrow> string + string" where
  "expand_env x w s required =
     (let (result, missing) = expand_segments (env_var w) (regex_segments x env_pattern s)
      in if required \<and> missing \<noteq> [] then
           Inl (''required environment variables missing: '' @ join_str '', '' missing)
         else Inr result)"

fun expand_value_env :: "external \<Rightarrow> world \<Rightarrow> bool \<Rightarrow> yaml \<Rightarrow> string + yaml" where
  "expand_value_env x w required (YString s) =
     (case expand_env x w s required of Inl e \<Rightarrow> Inl e | Inr t \<Rightarrow> Inr (YString t))"
| "expand_value_env x w required (YSequence vs) =
     (case try_map (\<lambda>v. expand_value_env x w required v) vs of Inl e \<Rightarrow> Inl e | Inr us \<Rightarrow> Inr (YSequence us))"
| "expand_value_env x w required v = Inr v"

fun expand_node_env :: "external \<Rightarrow> world \<Rightarrow> bool \<Rightarrow> condition_node \<Rightarrow> string + condition_node" where
  "expand_node_env x w required (Leaf c) =
     (case try_option (expand_value_env x w required) (c_value c) of
        Inl e \<Rightarrow> Inl e | Inr v \<Rightarrow> Inr (Leaf (c\<lparr>c_value := v\<rparr>)))"
| "expand_node_env x w required (And ns) =
     (case try_map (\<lambda>n. expand_node_env x w required n) ns of Inl e \<Rightarrow> Inl e | Inr ms \<Rightarrow> Inr (And ms))"
| "expand_node_env x w required (Or ns) =
     (case try_map (\<lambda>n. expand_node_env x w required n) ns of Inl e \<Rightarrow> Inl e | Inr ms \<Rightarrow> Inr (Or ms))"

definition expand_token :: "external \<Rightarrow> world \<Rightarrow> secret_token \<Rightarrow> string + secret_token" where
  "expand_token x w t =
     (case expand_env x w (expose_secret t) True of Inl e \<Rightarrow> Inl e | Inr s \<Rightarrow> Inr (SecretToken s))"

definition resolve_auth_env :: "external \<Rightarrow> world \<Rightarrow> auth_config \<Rightarrow> string + auth_config" where
  "resolve_auth_env x w a =
     try_bind (try_option (expand_token x w) (a_secret a)) (\<lambda>secret.
     try_bind (try_option (try_map (\<lambda>t.
                 try_bind (expand_token x w (te_token t)) (\<lambda>s. Inr (t\<lparr>te_token := s\<rparr>)))) (a_tokens a)) (\<lambda>tokens.
     Inr (a\<lparr>a_secret := secret, a_tokens := tokens\<rparr>)))"

definition resolve_rule_env :: "external \<Rightarrow> world \<Rightarrow> rule \<Rightarrow> string + rule" where
  "resolve_rule_env x w r =
     try_bind (try_option (\<lambda>m. expand_env x w m False) (r_message r)) (\<lambda>message.
     try_bind (try_map (expand_node_env x w False) (r_conditions r)) (\<lambda>conditions.
     try_bind (try_option (try_map (\<lambda>m. expand_env x w m False)) (r_methods r)) (\<lambda>methods.
     Inr (r\<lparr>r_message := message, r_conditions := conditions, r_methods := methods\<rparr>))))"

definition resolve_env_vars :: "external \<Rightarrow> world \<Rightarrow> proxy_config \<Rightarrow> string + proxy_config" where
  "resolve_env_vars x w cfg =
     try_bind (try_option (resolve_auth_env x w) (cfg_auth cfg)) (\<lambda>auth.
     try_bind (try_option (try_map (resolve_rule_env x w)) (cfg_rules cfg)) (\<lambda>rules.
     Inr (cfg\<lparr>cfg_auth := auth, cfg_rules := rules\<rparr>)))"


section \<open>Regex compilation\<close>

fun cfg_yaml_value_to_string :: "yaml \<Rightarrow> string option" where
  "cfg_yaml_value_to_string (YString s) = Some s"
| "cfg_yaml_value_to_string (YBool b) = Some (show_bool b)"
| "cfg_yaml_value_to_string (YNumber n) = Some (num_text n)"
| "cfg_yaml_value_to_string _ = None"

definition compile_regex_in_condition :: "external \<Rightarrow> condition \<Rightarrow> string + condition" where
  "compile_regex_in_condition x c =
     (if c_operator c = ''matches'' \<or> c_operator c = ''not_matches'' then
        (case c_value c of
           None \<Rightarrow> Inr c
         | Some value \<Rightarrow>
             (case cfg_yaml_value_to_string value of
                None \<Rightarrow> Inr c
              | Some s \<Rightarrow>
                  (case regex_new x s of
                     Inl e \<Rightarrow> Inl (''invalid regex for field '' @ [CHR 0x27] @ c_field c @ [CHR 0x27] @ '': '' @ e)
                   | Inr re \<Rightarrow> Inr (c\<lparr>compiled_regex := Some re\<rparr>))))
      else Inr c)"

fun compile_regexes_in_node :: "external \<Rightarrow> condition_node \<Rightarrow> string + condition_node" where
  "compile_regexes_in_node x (Leaf c) =
     (case compile_regex_in_condition x c of Inl e \<Rightarrow> Inl e | Inr d \<Rightarrow> Inr (Leaf d))"
| "compile_regexes_in_node x (And ns) =
     (case try_map (\<lambda>n. compile_regexes_in_node x n) ns of Inl e \<Rightarrow> Inl e | Inr ms \<Rightarrow> Inr (And ms))"
| "compile_regexes_in_node x (Or ns) =
     (case try_map (\<lambda>n. compile_regexes_in_node x n) ns of Inl e \<Rightarrow> Inl e | Inr ms \<Rightarrow> Inr (Or ms))"

definition compile_rule_regexes :: "external \<Rightarrow> rule \<Rightarrow> string + rule" where
  "compile_rule_regexes x r =
     try_bind (try_map (compile_regexes_in_node x) (r_conditions r)) (\<lambda>cs. Inr (r\<lparr>r_conditions := cs\<rparr>))"

definition compile_regexes :: "external \<Rightarrow> proxy_config \<Rightarrow> string + proxy_config" where
  "compile_regexes x cfg =
     try_bind (try_option (try_map (compile_rule_regexes x)) (cfg_rules cfg)) (\<lambda>rules.
     Inr (cfg\<lparr>cfg_rules := rules\<rparr>))"

section \<open>Validation\<close>

definition quoted :: "string \<Rightarrow> string" where
  "quoted s = [CHR 0x27] @ s @ [CHR 0x27]"

definition validate_auth :: "proxy_config \<Rightarrow> string + unit" where
  "validate_auth cfg =
     (case cfg_auth cfg of
        None \<Rightarrow> Inr ()
      | Some auth \<Rightarrow>
          (case a_type auth of
             None \<Rightarrow> Inr ()
           | Some t \<Rightarrow> if t = ''none'' \<or> t = ''bearer'' \<or> t = ''mtls'' then Inr ()
                        else Inl (''invalid auth.type: '' @ t)))"

definition validate_rule :: "rule \<Rightarrow> string + unit" where
  "validate_rule r =
     (if r_name r = [] then Inl ''rule name cannot be empty''
      else if r_action r = [] then Inl (''rule '' @ quoted (r_name r) @ '' has no action'')
      else if r_conditions r = [] then Inl (''rule '' @ quoted (r_name r) @ '' has no conditions'')
      else if r_action r = ''require_role'' \<and> r_role r = None then
        Inl (''rule '' @ quoted (r_name r) @ '' uses require_role but has no role specified'')
      else if r_action r = ''rate_limit'' \<and> r_rate_limit r = None then
        Inl (''rule '' @ quoted (r_name r) @ '' uses rate_limit but has no rate_limit config'')
      else if r_action r = ''response_filter'' \<and> r_response_filter r = None then
        Inl (''rule '' @ quoted (r_name r) @ '' uses response_filter but has no response_filter entries'')
      else Inr ())"

definition validate_metrics :: "proxy_config \<Rightarrow> string + unit" where
  "validate_metrics cfg =
     (case cfg_global cfg of
        None \<Rightarrow> Inr ()
      | Some g \<Rightarrow>
          (case g_metrics g of
             None \<Rightarrow> Inr ()
           | Some m \<Rightarrow>
               (if mc_enabled m = Some True then
                  (let path = unwrap_or (mc_path m) ''/metrics''
                   in if path = ''/'' \<or> path = [] then Inl (''metrics path cannot be '' @ quoted ''/'' @ '' or empty'')
                      else if prefix ''/v'' path then
                        Inl (''metrics path '' @ quoted path @ '' looks like a Docker API versioned path'')
                      else Inr ())
                else Inr ())))"

definition validate :: "proxy_config \<Rightarrow> string + unit" where
  "validate cfg =
     try_bind (validate_auth cfg) (\<lambda>_.
     try_bind (try_option (try_map validate_rule) (cfg_rules cfg)) (\<lambda>_.
     validate_metrics cfg))"

section \<open>Overrides, sorting, loading\<close>

definition override_port :: "world \<Rightarrow> proxy_config \<Rightarrow> proxy_config" where
  "override_port w cfg =
     (case env_var w ''DOCKER_PROXY_PORT'' of
        None \<Rightarrow> cfg
      | Some port \<Rightarrow>
          (case parse_u16 port of
             None \<Rightarrow> cfg
           | Some p \<Rightarrow>
               cfg\<lparr>cfg_global := Some ((unwrap_or (cfg_global cfg) global_config_default)\<lparr>g_port := Some p\<rparr>)\<rparr>))"

definition override_socket :: "world \<Rightarrow> proxy_config \<Rightarrow> proxy_config" where
  "override_socket w cfg =
     (case env_var w ''DOCKER_SOCKET'' of
        None \<Rightarrow> cfg
      | Some socket \<Rightarrow>
          if path_exists w socket then
            cfg\<lparr>cfg_global := Some ((unwrap_or (cfg_global cfg) global_config_default)\<lparr>g_socket := Some socket\<rparr>)\<rparr>
          else cfg)"

definition override_secret :: "world \<Rightarrow> proxy_config \<Rightarrow> proxy_config" where
  "override_secret w cfg =
     (case env_var w ''DOCKER_PROXY_SECRET'' of
        None \<Rightarrow> cfg
      | Some secret \<Rightarrow>
          if secret = [] then cfg
          else
            (let auth = unwrap_or (cfg_auth cfg)
                  \<lparr>a_type = Some ''bearer'', a_secret = None, a_tokens = None, a_mtls = None\<rparr>;
                 auth1 = auth\<lparr>a_secret := Some (SecretToken secret)\<rparr>;
                 auth2 = (if a_type auth1 = None then auth1\<lparr>a_type := Some ''bearer''\<rparr> else auth1)
             in cfg\<lparr>cfg_auth := Some auth2\<rparr>))"

definition apply_env_overrides :: "world \<Rightarrow> proxy_config \<Rightarrow> proxy_config" where
  "apply_env_overrides w cfg = override_secret w (override_socket w (override_port w cfg))"

definition is_auth_configured :: "proxy_config \<Rightarrow> bool" where
  "is_auth_configured cfg =
     (case cfg_auth cfg of
        None \<Rightarrow> False
      | Some a \<Rightarrow>
          a_type a = Some ''none'' \<or> a_type a = Some ''mtls''
          \<or> (case a_tokens a of None \<Rightarrow> False | Some t \<Rightarrow> t \<noteq> [])
          \<or> (case a_secret a of None \<Rightarrow> False | Some s \<Rightarrow> expose_secret s \<noteq> []))"

text \<open>\<^verbatim>\<open>sort_by_key\<close> is a stable sort, as \<^const>\<open>sort_key\<close> is; \<^verbatim>\<open>Reverse\<close> negates the key.\<close>

definition rule_priority :: "rule \<Rightarrow> nat" where
  "rule_priority r = unat (unwrap_or (r_priority r) 0)"

definition sort_rules_by_priority :: "proxy_config \<Rightarrow> proxy_config" where
  "sort_rules_by_priority cfg =
     cfg\<lparr>cfg_rules := map_option (sort_key (\<lambda>r. - int (rule_priority r))) (cfg_rules cfg)\<rparr>"

definition finish_config :: "external \<Rightarrow> world \<Rightarrow> proxy_config \<Rightarrow> string + proxy_config" where
  "finish_config x w raw =
     try_bind (resolve_env_vars x w raw) (\<lambda>c1.
     try_bind (compile_regexes x (apply_env_overrides w c1)) (\<lambda>c2.
     try_bind (validate c2) (\<lambda>_. Inr (sort_rules_by_priority c2))))"

definition load_from_path ::
    "external \<Rightarrow> world \<Rightarrow> (string \<Rightarrow> string + proxy_config) \<Rightarrow> string \<Rightarrow> string + proxy_config" where
  "load_from_path x w from_str path =
     (case read_to_string w path of
        Inl e \<Rightarrow> Inl (''read failed: '' @ e)
      | Inr content \<Rightarrow>
          (case from_str content of
             Inl e \<Rightarrow> Inl (''parse failed: '' @ e)
           | Inr cfg \<Rightarrow> finish_config x w cfg))"

definition default_config_path :: "world \<Rightarrow> string option" where
  "default_config_path w =
     (case env_var w ''DOCKER_PROXY_CONFIG'' of
        Some p \<Rightarrow> Some p
      | None \<Rightarrow> if path_exists w ''config.yaml'' then Some ''config.yaml'' else None)"

definition load :: "external \<Rightarrow> world \<Rightarrow> (string \<Rightarrow> string + proxy_config) \<Rightarrow> string + proxy_config" where
  "load x w from_str =
     try_bind
       (case default_config_path w of
          Some path \<Rightarrow>
            if path_exists w path then
              (case read_to_string w path of
                 Inl e \<Rightarrow> Inl (''failed to read config file: '' @ e)
               | Inr content \<Rightarrow>
                   (case from_str content of
                      Inl e \<Rightarrow> Inl (''failed to parse config: '' @ e)
                    | Inr cfg \<Rightarrow> Inr cfg))
            else Inr proxy_config_default
        | None \<Rightarrow> Inr proxy_config_default)
       (finish_config x w)"

section \<open>What a loaded configuration satisfies\<close>

text \<open>Every regex operator with a scalar value carries its compiled pattern.\<close>

definition condition_compiled :: "external \<Rightarrow> condition \<Rightarrow> bool" where
  "condition_compiled x c =
     (c_operator c \<in> {''matches'', ''not_matches''} \<longrightarrow>
      (\<forall>v s. c_value c = Some v \<longrightarrow> yaml_value_to_string v = Some s \<longrightarrow>
         (\<exists>re. regex_new x s = Inr re \<and> compiled_regex c = Some re)))"

fun node_compiled :: "external \<Rightarrow> condition_node \<Rightarrow> bool" where
  "node_compiled x (Leaf c) = condition_compiled x c"
| "node_compiled x (And ns) = (\<forall>n \<in> set ns. node_compiled x n)"
| "node_compiled x (Or ns) = (\<forall>n \<in> set ns. node_compiled x n)"

text \<open>What \<^const>\<open>validate_rule\<close> guarantees, stated on the rule.\<close>

definition rule_ok :: "rule \<Rightarrow> bool" where
  "rule_ok r =
     (r_name r \<noteq> [] \<and> r_action r \<noteq> [] \<and> r_conditions r \<noteq> []
      \<and> (r_action r = ''require_role'' \<longrightarrow> r_role r \<noteq> None)
      \<and> (r_action r = ''rate_limit'' \<longrightarrow> r_rate_limit r \<noteq> None)
      \<and> (r_action r = ''response_filter'' \<longrightarrow> r_response_filter r \<noteq> None))"

definition config_rules :: "proxy_config \<Rightarrow> rule list" where
  "config_rules cfg = unwrap_or (cfg_rules cfg) []"

definition config_ok :: "external \<Rightarrow> proxy_config \<Rightarrow> bool" where
  "config_ok x cfg =
     ((\<forall>r \<in> set (config_rules cfg). rule_ok r \<and> (\<forall>n \<in> set (r_conditions r). node_compiled x n))
      \<and> sorted (map (\<lambda>r. - int (rule_priority r)) (config_rules cfg))
      \<and> (\<forall>a t. cfg_auth cfg = Some a \<longrightarrow> a_type a = Some t \<longrightarrow> t \<in> {''none'', ''bearer'', ''mtls''}))"

lemma cfg_yaml_value_to_string_eq: "cfg_yaml_value_to_string v = yaml_value_to_string v"
  by (cases v) auto

lemma validate_rule_ok: "validate_rule r = Inr u \<longleftrightarrow> rule_ok r"
  by (auto simp: validate_rule_def rule_ok_def)

lemma compile_condition_compiled:
  "compile_regex_in_condition x c = Inr d \<Longrightarrow> condition_compiled x d"
  by (auto simp: compile_regex_in_condition_def condition_compiled_def cfg_yaml_value_to_string_eq
      split: if_splits option.splits sum.splits)

lemma compile_node_compiled: "compile_regexes_in_node x n = Inr m \<Longrightarrow> node_compiled x m"
proof (induction x n arbitrary: m rule: compile_regexes_in_node.induct)
  case (1 x c)
  then show ?case by (auto split: sum.splits dest: compile_condition_compiled)
next
  case (2 x ns)
  from "2.prems" obtain ms where ms: "try_map (compile_regexes_in_node x) ns = Inr ms" and "m = And ms"
    by (auto split: sum.splits)
  with "2.IH" show ?case by (auto dest: try_map_set [OF ms])
next
  case (3 x ns)
  from "3.prems" obtain ms where ms: "try_map (compile_regexes_in_node x) ns = Inr ms" and "m = Or ms"
    by (auto split: sum.splits)
  with "3.IH" show ?case by (auto dest: try_map_set [OF ms])
qed

lemma compile_rule_compiled:
  "compile_rule_regexes x r = Inr s \<Longrightarrow> n \<in> set (r_conditions s) \<Longrightarrow> node_compiled x n"
  by (auto simp: compile_rule_regexes_def try_bind_Inr try_map_Inr_iff
      dest!: list_all2_set_right compile_node_compiled)

lemma compile_regexes_compiled:
  assumes "compile_regexes x cfg = Inr c2" and "r \<in> set (config_rules c2)" and "n \<in> set (r_conditions r)"
  shows "node_compiled x n"
  using assms
  by (cases "cfg_rules cfg")
     (auto simp: compile_regexes_def config_rules_def try_bind_Inr try_map_Inr_iff
       split: sum.splits dest!: list_all2_set_right compile_rule_compiled)

lemma validate_rules_ok: "validate cfg = Inr u \<Longrightarrow> r \<in> set (config_rules cfg) \<Longrightarrow> rule_ok r"
  by (cases "cfg_rules cfg")
     (auto simp: validate_def config_rules_def try_bind_Inr try_map_Inr_iff validate_rule_ok
       split: sum.splits dest!: list_all2_set_left)

lemma validate_auth_type:
  "validate cfg = Inr u \<Longrightarrow> cfg_auth cfg = Some a \<Longrightarrow> a_type a = Some t \<Longrightarrow>
     t \<in> {''none'', ''bearer'', ''mtls''}"
  by (auto simp: validate_def validate_auth_def try_bind_Inr split: if_splits)

lemma config_rules_sort [simp]:
  "config_rules (sort_rules_by_priority cfg) = sort_key (\<lambda>r. - int (rule_priority r)) (config_rules cfg)"
  by (cases "cfg_rules cfg") (simp_all add: config_rules_def sort_rules_by_priority_def)

lemma cfg_auth_sort [simp]: "cfg_auth (sort_rules_by_priority cfg) = cfg_auth cfg"
  by (simp add: sort_rules_by_priority_def)

lemma finish_config_ok: "finish_config x w raw = Inr cfg \<Longrightarrow> config_ok x cfg"
  unfolding finish_config_def config_ok_def try_bind_Inr
  by (auto dest: compile_regexes_compiled validate_rules_ok validate_auth_type)

lemma load_from_path_finish:
  "load_from_path x w from_str path = Inr cfg \<Longrightarrow> \<exists>raw. finish_config x w raw = Inr cfg"
  by (auto simp: load_from_path_def split: sum.splits)

lemma load_finish: "load x w from_str = Inr cfg \<Longrightarrow> \<exists>raw. finish_config x w raw = Inr cfg"
  by (auto simp: load_def try_bind_Inr)

section \<open>Properties of loading\<close>

text \<open>
  (C28) A configuration that loads is usable by the rule engine: every rule is complete for its action
  and has conditions, every regular expression is compiled, the rules are in descending
  priority and the authentication type is a known one.
\<close>

theorem loaded_config_ok:
  assumes "load_from_path x w from_str path = Inr cfg"
  shows "config_ok x cfg"
  using assms load_from_path_finish finish_config_ok by blast

text \<open>
  Sorting by priority is stable: the rules are a permutation of the configured ones in
  descending priority, and rules of equal priority keep their order in the file.
\<close>

theorem priority_sort_stable:
  "mset (config_rules (sort_rules_by_priority cfg)) = mset (config_rules cfg)
   \<and> sorted (map (\<lambda>r. - int (rule_priority r)) (config_rules (sort_rules_by_priority cfg)))
   \<and> filter (\<lambda>r. rule_priority r = p) (config_rules (sort_rules_by_priority cfg)) = filter (\<lambda>r. rule_priority r = p) (config_rules cfg)"
proof -
  let ?k = "\<lambda>r. - int (rule_priority r)"
  have "filter (\<lambda>r. ?k r = - int p) (sort_key ?k rs) = filter (\<lambda>r. ?k r = - int p) rs" for rs
    using sort_key_stable [of ?k "- int p" rs] by simp
  then show ?thesis by simp
qed

lemma expand_segments_missing:
  "Capture n \<in> set segs \<Longrightarrow> env n = None \<Longrightarrow> snd (expand_segments env segs) \<noteq> []"
  by (induction env segs rule: expand_segments.induct) (auto simp: case_prod_beta Let_def split: option.splits)

lemma expand_token_missing:
  assumes "Capture n \<in> set (regex_segments x env_pattern (expose_secret t))" and "env_var w n = None"
  shows "\<exists>e. expand_token x w t = Inl e"
  using expand_segments_missing [OF assms(1), of "env_var w"] assms(2)
  by (auto simp: expand_token_def expand_env_def case_prod_beta Let_def)

text \<open>
  (C29) A token never silently becomes empty: if a configured token refers to an environment variable
  that is not set, loading fails.
\<close>

theorem missing_token_variable_fails:
  assumes "cfg_auth raw = Some a" and "a_tokens a = Some ts" and "t \<in> set ts"
    and "Capture n \<in> set (regex_segments x env_pattern (expose_secret (te_token t)))" and "env_var w n = None"
  shows "\<exists>e. finish_config x w raw = Inl e"
proof -
  let ?f = "\<lambda>t. try_bind (expand_token x w (te_token t)) (\<lambda>s. Inr (t\<lparr>te_token := s\<rparr>))"
  obtain e where "?f t = Inl e" using expand_token_missing [OF assms(4,5)] by auto
  then have "\<exists>e'. try_map ?f ts = Inl e'" by (rule try_map_fails [OF assms(3)])
  then obtain e' where "try_map ?f ts = Inl e'" ..
  then have "\<exists>e. resolve_auth_env x w a = Inl e"
    by (cases "try_option (expand_token x w) (a_secret a)") (auto simp: resolve_auth_env_def assms(2))
  with assms(1) show ?thesis by (auto simp: finish_config_def resolve_env_vars_def)
qed

lemma compile_keeps_global: "compile_regexes x c = Inr d \<Longrightarrow> cfg_global d = cfg_global c"
  by (auto simp: compile_regexes_def try_bind_Inr)

lemma override_keeps_port:
  assumes "cfg_global cfg = Some g" and "g_port g = Some p"
  shows "\<exists>h. cfg_global (override_secret w (override_socket w cfg)) = Some h \<and> g_port h = Some p"
  using assms by (auto simp: override_secret_def override_socket_def Let_def split: option.splits)

text \<open>
  A parseable \<^verbatim>\<open>DOCKER_PROXY_PORT\<close> overrides the port in the file, whatever that is.
\<close>

theorem env_port_overrides:
  assumes "finish_config x w raw = Inr cfg" and "env_var w ''DOCKER_PROXY_PORT'' = Some s" and "parse_u16 s = Some p"
  shows "\<exists>g. cfg_global cfg = Some g \<and> g_port g = Some p"
proof -
  obtain c1 c2 where c: "compile_regexes x (apply_env_overrides w c1) = Inr c2" and s: "cfg = sort_rules_by_priority c2"
    using assms(1) by (auto simp: finish_config_def try_bind_Inr)
  have "\<exists>g. cfg_global (override_port w c1) = Some g \<and> g_port g = Some p"
    using assms(2,3) by (simp add: override_port_def)
  then have "\<exists>g. cfg_global (apply_env_overrides w c1) = Some g \<and> g_port g = Some p"
    unfolding apply_env_overrides_def using override_keeps_port by blast
  with compile_keeps_global [OF c] s show ?thesis by (simp add: sort_rules_by_priority_def)
qed

definition file_world :: "string \<Rightarrow> (string \<times> string) list \<Rightarrow> world" where
  "file_world path env = \<lparr>env_var = map_of env, path_exists = (\<lambda>p. p = path), read_to_string = (\<lambda>_. Inr [])\<rparr>"

definition one_token :: "string \<Rightarrow> proxy_config" where
  "one_token s = proxy_config_default\<lparr>cfg_auth := Some
     \<lparr>a_type = None, a_secret = None, a_tokens = Some [\<lparr>te_token = SecretToken s, te_role = None\<rparr>], a_mtls = None\<rparr>\<rparr>"

lemmas config_eval = file_world_def proxy_config_default_def load_from_path_def finish_config_def resolve_env_vars_def
  apply_env_overrides_def override_port_def override_socket_def override_secret_def compile_regexes_def validate_def
  validate_auth_def validate_metrics_def sort_rules_by_priority_def rule_default_def

lemmas rule_load_eval = resolve_rule_env_def expand_env_def compile_rule_regexes_def compile_regex_in_condition_def
  validate_rule_def rule_priority_def

text \<open>A configuration with two rules, the later one of higher priority and with a regular expression.\<close>

definition two_rules :: proxy_config where
  "two_rules = proxy_config_default\<lparr>cfg_rules := Some
     [rule_default\<lparr>r_name := ''b'', r_action := ''allow'',
        r_conditions := [Leaf \<lparr>c_field = ''path'', c_operator = ''equals'', c_value = Some (YString ''/_ping''), compiled_regex = None\<rparr>]\<rparr>,
      rule_default\<lparr>r_name := ''a'', r_action := ''deny'', r_priority := Some 9,
        r_conditions := [Leaf \<lparr>c_field = ''path'', c_operator = ''matches'', c_value = Some (YString ''^/x''), compiled_regex = None\<rparr>]\<rparr>]\<rparr>"

definition any_regex :: external where
  "any_regex = no_external\<lparr>regex_new := Inr\<rparr>"

lemma two_rules_load:
  "\<exists>cfg. load_from_path any_regex (file_world ''c'' []) (\<lambda>_. Inr two_rules) ''c'' = Inr cfg \<and> map r_name (config_rules cfg) = [''a'', ''b'']"
  by (simp add: config_eval rule_load_eval two_rules_def any_regex_def no_external_def config_rules_def)

theorem loaded_config_ok_witness:
  "\<exists>cfg. config_ok any_regex cfg \<and> map r_name (config_rules cfg) = [''a'', ''b'']"
  using two_rules_load loaded_config_ok by metis

theorem missing_token_variable_fails_witness:
  "\<exists>e. finish_config (no_external\<lparr>regex_segments := (\<lambda>_ s. [Capture s])\<rparr>) (file_world ''c'' []) (one_token ''TOKEN'') = Inl e"
  by (rule missing_token_variable_fails [where n = "''TOKEN''" and t = "\<lparr>te_token = SecretToken ''TOKEN'', te_role = None\<rparr>"
        and ts = "[\<lparr>te_token = SecretToken ''TOKEN'', te_role = None\<rparr>]"
        and a = "\<lparr>a_type = None, a_secret = None, a_tokens = Some [\<lparr>te_token = SecretToken ''TOKEN'', te_role = None\<rparr>], a_mtls = None\<rparr>"])
     (simp_all add: one_token_def proxy_config_default_def file_world_def)

lemma port_loads:
  "finish_config x (file_world ''c'' [(''DOCKER_PROXY_PORT'', ''8080'')])
     (proxy_config_default\<lparr>cfg_global := Some (global_config_default\<lparr>g_port := Some 2376\<rparr>)\<rparr>)
   = Inr (proxy_config_default\<lparr>cfg_global := Some (global_config_default\<lparr>g_port := Some 8080\<rparr>)\<rparr>)"
  by (simp add: config_eval global_config_default_def parse_u16_def parse_unsigned_def to_digit_def)

theorem env_port_overrides_witness:
  "\<exists>g. cfg_global (proxy_config_default\<lparr>cfg_global := Some (global_config_default\<lparr>g_port := Some 8080\<rparr>)\<rparr>) = Some g
     \<and> g_port g = Some 8080"
  by (rule env_port_overrides [OF port_loads [of no_external], where s = "''8080''"])
     (simp_all add: file_world_def parse_u16_def parse_unsigned_def to_digit_def)

end
