(* ===== verification/Http.thy ===== *)
theory Http
  imports Config
begin

text \<open>
  HTTP messages as the handlers see them. A \<^verbatim>\<open>HeaderMap\<close> is the sequence its iterator yields;
  names are lower case, as \<^verbatim>\<open>HeaderName\<close> guarantees. A peer's \<^verbatim>\<open>SocketAddr\<close> is its IP address,
  the only part the code reads.
\<close>

type_synonym headers = "(string \<times> bytes) list"

record response =
  resp_status :: u16
  resp_headers :: headers
  resp_body :: bytes

text \<open>\<^verbatim>\<open>HeaderMap::get\<close> (the first value of a name) and \<^verbatim>\<open>HeaderMap::get_all\<close>.\<close>

definition header_get :: "headers \<Rightarrow> string \<Rightarrow> bytes option" where
  "header_get hs n = map_of hs n"

definition header_get_all :: "headers \<Rightarrow> string \<Rightarrow> bytes list" where
  "header_get_all hs n = map snd (filter (\<lambda>(k, _). k = n) hs)"

text \<open>\<^verbatim>\<open>headers.get(n).and_then(|v| v.to_str().ok())\<close>.\<close>

definition header_text :: "external \<Rightarrow> headers \<Rightarrow> string \<Rightarrow> string option" where
  "header_text x hs n = Option.bind (header_get hs n) (header_to_str x)"

section \<open>The proxy's own answers\<close>

definition text_plain :: string where
  "text_plain = ''text/plain; charset=utf-8''"

definition make_response :: "u16 \<Rightarrow> string \<Rightarrow> response" where
  "make_response status body =
     \<lparr>resp_status = status, resp_headers = [(''content-type'', text_plain)], resp_body = body\<rparr>"

definition make_response_string :: "u16 \<Rightarrow> string \<Rightarrow> response" where
  "make_response_string status body =
     \<lparr>resp_status = status, resp_headers = [(''content-type'', text_plain)], resp_body = body\<rparr>"

definition make_response_bytes :: "u16 \<Rightarrow> string \<Rightarrow> bytes \<Rightarrow> response" where
  "make_response_bytes status content_type body =
     \<lparr>resp_status = status, resp_headers = [(''content-type'', content_type)], resp_body = body\<rparr>"


section \<open>Upgrade requests\<close>

definition header_has_token :: "external \<Rightarrow> bytes \<Rightarrow> string \<Rightarrow> bool" where
  "header_has_token x v token =
     (case header_to_str x v of
        None \<Rightarrow> False
      | Some s \<Rightarrow> list_ex (\<lambda>t. eq_ignore_ascii_case (trim t) token) (split_on CHR '','' s))"

definition is_upgrade_request :: "external \<Rightarrow> headers \<Rightarrow> bool" where
  "is_upgrade_request x hs =
     (let connection_has_upgrade = list_ex (\<lambda>v. header_has_token x v ''upgrade'') (header_get_all hs ''connection'');
          has_upgrade_header = (header_get hs ''upgrade'' \<noteq> None)
      in connection_has_upgrade \<and> has_upgrade_header)"

end
