(* ===== verification/Tls_Identity.thy ===== *)
theory Tls_Identity
  imports Config
begin

text \<open>
  TLS set-up and client certificates, \<^verbatim>\<open>src/tls.rs\<close>: loading of certificates and keys, the
  client-authentication mode of the server, the identity read from a certificate and the role
  it maps to. PEM and X.509 parsing and \<^verbatim>\<open>rustls\<close> are parameters, the record \<open>tls_lib\<close>.
\<close>

datatype general_name = DNSName string | URI string | RFC822Name string | OtherName

text \<open>
  What the code reads of a parsed certificate: the common names (\<^const>\<open>None\<close> where the text cannot
  be decoded) and the subject alternative names (\<^const>\<open>None\<close> where there is no such extension
  or it is invalid).
\<close>

record x509 =
  x_common_names :: "string option list"
  x_general_names :: "general_name list option"

record tls_lib =
  file_open :: "string \<Rightarrow> string + bytes"
  pem_certs :: "bytes \<Rightarrow> (string + bytes) list"
  pem_private_key :: "bytes \<Rightarrow> string + bytes option"
  root_store_add :: "bytes \<Rightarrow> string + unit"
  verifier_build :: "bytes list \<Rightarrow> string + unit"
  with_single_cert :: "bytes list \<Rightarrow> bytes \<Rightarrow> string + unit"
  x509_from_der :: "bytes \<Rightarrow> x509 option"

datatype client_auth = NoClientAuth | VerifyClient "bytes list" (allow_unauthenticated: bool)

record server_config =
  sc_client_auth :: client_auth
  sc_certs :: "bytes list"
  sc_key :: bytes

record cert_identity =
  common_name :: "string option"
  sans :: "string list"

section \<open>Server configuration\<close>

definition map_err :: "('e \<Rightarrow> 'f) \<Rightarrow> 'e + 'a \<Rightarrow> 'f + 'a" where
  "map_err f r = (case r of Inl e \<Rightarrow> Inl (f e) | Inr v \<Rightarrow> Inr v)"

lemma map_err_simps [simp]: "map_err f (Inl e) = Inl (f e)" "map_err f (Inr v) = Inr v"
  by (simp_all add: map_err_def)

definition load_certs :: "tls_lib \<Rightarrow> string \<Rightarrow> string + bytes list" where
  "load_certs l path =
     try_bind (map_err (\<lambda>e. ''open '' @ path @ '' failed: '' @ e) (file_open l path)) (\<lambda>content.
     try_bind (try_map (map_err (\<lambda>e. ''parse cert failed: '' @ e)) (pem_certs l content)) (\<lambda>out.
     if out = [] then Inl (''no certificates found in '' @ path) else Inr out))"

definition load_private_key :: "tls_lib \<Rightarrow> string \<Rightarrow> string + bytes" where
  "load_private_key l path =
     try_bind (map_err (\<lambda>e. ''open '' @ path @ '' failed: '' @ e) (file_open l path)) (\<lambda>content.
     try_bind (map_err (\<lambda>e. ''parse key failed: '' @ e) (pem_private_key l content)) (\<lambda>k.
     case k of None \<Rightarrow> Inl (''no private key found in '' @ path) | Some key \<Rightarrow> Inr key))"

definition client_auth_mode :: "tls_lib \<Rightarrow> tls_config \<Rightarrow> string + client_auth" where
  "client_auth_mode l tls =
     (case (tls_client_ca tls, unwrap_or (tls_require_client_cert tls) False) of
        (Some ca_path, require) \<Rightarrow>
          try_bind (load_certs l ca_path) (\<lambda>cas.
          try_bind (try_map (\<lambda>c. map_err (\<lambda>e. ''client CA add failed: '' @ e) (root_store_add l c)) cas) (\<lambda>_.
          try_bind (map_err (\<lambda>e. ''client verifier build failed: '' @ e) (verifier_build l cas)) (\<lambda>_.
          Inr (VerifyClient cas (\<not> require)))))
      | (None, _) \<Rightarrow> Inr NoClientAuth)"

definition build_server_config :: "tls_lib \<Rightarrow> tls_config \<Rightarrow> string + server_config" where
  "build_server_config l tls =
     try_bind (load_certs l (tls_cert tls)) (\<lambda>certs.
     try_bind (load_private_key l (tls_key tls)) (\<lambda>key.
     try_bind (client_auth_mode l tls) (\<lambda>mode.
     try_bind (map_err (\<lambda>e. ''server cert install failed: '' @ e) (with_single_cert l certs key)) (\<lambda>_.
     Inr \<lparr>sc_client_auth = mode, sc_certs = certs, sc_key = key\<rparr>))))"

section \<open>Identities and roles\<close>

fun general_name_text :: "general_name \<Rightarrow> string option" where
  "general_name_text (DNSName s) = Some s"
| "general_name_text (URI s) = Some s"
| "general_name_text (RFC822Name s) = Some s"
| "general_name_text OtherName = None"

definition extract_identity :: "tls_lib \<Rightarrow> bytes \<Rightarrow> cert_identity option" where
  "extract_identity l cert_der =
     (case x509_from_der l cert_der of
        None \<Rightarrow> None
      | Some parsed \<Rightarrow>
          Some \<lparr>common_name = (case x_common_names parsed of [] \<Rightarrow> None | cn # _ \<Rightarrow> cn),
                sans = (case x_general_names parsed of
                          None \<Rightarrow> [] | Some names \<Rightarrow> List.map_filter general_name_text names)\<rparr>)"

definition cn_match :: "string \<Rightarrow> string \<Rightarrow> bool" where
  "cn_match pattern name =
     (if pattern = name then True
      else case strip_prefix ''*.'' pattern of
        Some rest \<Rightarrow>
          (let label = takeWhile (\<lambda>c. c \<noteq> CHR ''.'') name
           in if length label < length name then drop (length label + 1) name = rest else False)
      | None \<Rightarrow> False)"

definition identity_names :: "cert_identity \<Rightarrow> string list" where
  "identity_names i = (case common_name i of None \<Rightarrow> [] | Some n \<Rightarrow> [n]) @ sans i"

definition resolve_mtls_role :: "cert_identity \<Rightarrow> mtls_config option \<Rightarrow> string option" where
  "resolve_mtls_role identity mtls =
     (case Option.bind mtls cert_role_map of
        None \<Rightarrow> Option.bind mtls default_role
      | Some m \<Rightarrow>
          (case find_map (\<lambda>cand. find_map (\<lambda>e. if cn_match (crm_cn e) cand then Some (crm_role e) else None) m)
                  (identity_names identity) of
             Some role \<Rightarrow> Some role
           | None \<Rightarrow> Option.bind mtls default_role))"

section \<open>Properties\<close>

lemma takeWhile_neq_split:
  "length (takeWhile (\<lambda>x. x \<noteq> c) xs) < length xs \<Longrightarrow>
     xs = takeWhile (\<lambda>x. x \<noteq> c) xs @ c # drop (length (takeWhile (\<lambda>x. x \<noteq> c) xs) + 1) xs"
  by (induction xs) auto

lemma takeWhile_neq_append: "c \<notin> set l \<Longrightarrow> takeWhile (\<lambda>x. x \<noteq> c) (l @ c # r) = l"
  by (induction l) auto

text \<open>
  A certificate pattern matches exactly the names it should: itself, and, when it starts with
  \<^verbatim>\<open>*.\<close>, the names that put one label without dots in place of the star.
\<close>

theorem cn_match_spec:
  "cn_match pattern name \<longleftrightarrow>
     pattern = name
     \<or> (\<exists>rest label. pattern = ''*.'' @ rest \<and> name = label @ ''.'' @ rest \<and> CHR ''.'' \<notin> set label)"
proof (cases "pattern = name")
  case False
  show ?thesis
  proof
    assume "cn_match pattern name"
    with False obtain rest where "pattern = ''*.'' @ rest"
      and "length (takeWhile (\<lambda>c. c \<noteq> CHR ''.'') name) < length name"
      and "drop (length (takeWhile (\<lambda>c. c \<noteq> CHR ''.'') name) + 1) name = rest"
      by (auto simp: cn_match_def Let_def split: option.splits if_splits)
    moreover have "CHR ''.'' \<notin> set (takeWhile (\<lambda>c. c \<noteq> CHR ''.'') name)" by (auto dest: set_takeWhileD)
    ultimately show "pattern = name \<or> (\<exists>rest label. pattern = ''*.'' @ rest \<and> name = label @ ''.'' @ rest \<and> CHR ''.'' \<notin> set label)"
      using takeWhile_neq_split [of "CHR ''.''" name] by fastforce
  next
    assume "pattern = name \<or> (\<exists>rest label. pattern = ''*.'' @ rest \<and> name = label @ ''.'' @ rest \<and> CHR ''.'' \<notin> set label)"
    with False obtain rest label where p: "pattern = ''*.'' @ rest" and v: "name = label @ CHR ''.'' # rest" "CHR ''.'' \<notin> set label"
      by auto
    then have "strip_prefix ''*.'' pattern = Some rest" by simp
    with v show "cn_match pattern name"
      by (simp add: cn_match_def takeWhile_neq_append [OF v(2)])
  qed
qed (simp add: cn_match_def)

text \<open>
  A role is granted for a reason: it is the role of a mapping whose pattern matches the common
  name or a subject alternative name, or, when no mapping matches any of them, the default role.
\<close>

theorem mtls_role_justified:
  assumes "resolve_mtls_role identity mtls = Some role"
  shows "\<exists>m. mtls = Some m
     \<and> ((\<exists>es e n. cert_role_map m = Some es \<and> e \<in> set es \<and> n \<in> set (identity_names identity)
            \<and> cn_match (crm_cn e) n \<and> crm_role e = role)
        \<or> default_role m = Some role
          \<and> (\<forall>es e n. cert_role_map m = Some es \<longrightarrow> e \<in> set es \<longrightarrow> n \<in> set (identity_names identity)
                \<longrightarrow> \<not> cn_match (crm_cn e) n))"
proof -
  obtain m where m: "mtls = Some m" using assms by (cases mtls) (auto simp: resolve_mtls_role_def)
  show ?thesis
  proof (cases "cert_role_map m")
    case None
    with assms m show ?thesis by (auto simp: resolve_mtls_role_def)
  next
    case (Some es)
    let ?f = "\<lambda>cand. find_map (\<lambda>e. if cn_match (crm_cn e) cand then Some (crm_role e) else None) es"
    show ?thesis
    proof (cases "find_map ?f (identity_names identity)")
      case None
      then have "\<forall>n \<in> set (identity_names identity). \<forall>e \<in> set es. \<not> cn_match (crm_cn e) n"
        by (auto simp: find_map_None_iff split: if_splits)
      with None Some assms m show ?thesis by (auto simp: resolve_mtls_role_def)
    next
      case found: (Some r)
      then have "r = role" using assms m Some by (simp add: resolve_mtls_role_def)
      with find_map_Some_set [OF found] obtain n where n: "n \<in> set (identity_names identity)" "?f n = Some role" by blast
      from find_map_Some_set [OF n(2)] obtain e where "e \<in> set es" "cn_match (crm_cn e) n" "crm_role e = role"
        by (auto split: if_splits)
      with n(1) m Some show ?thesis by blast
    qed
  qed
qed

text \<open>
  Demanding client certificates without naming a client CA has no effect: a server
  configuration that builds from \<^verbatim>\<open>require_client_cert: true\<close> and no \<^verbatim>\<open>client_ca\<close> asks clients for
  nothing.
\<close>

theorem require_client_cert_needs_ca:
  assumes "tls_require_client_cert tls = Some True" and "tls_client_ca tls = None"
    and "build_server_config l tls = Inr sc"
  shows "sc_client_auth sc = NoClientAuth"
  using assms by (auto simp: build_server_config_def client_auth_mode_def try_bind_Inr)

text \<open>
  With a client CA, the flag decides whether a handshake without a certificate is possible, and
  the trust roots are the non-empty list of certificates in the CA file.
\<close>

theorem client_ca_enforced:
  assumes "tls_client_ca tls = Some ca" and "build_server_config l tls = Inr sc"
  shows "\<exists>cas. load_certs l ca = Inr cas \<and> cas \<noteq> []
       \<and> sc_client_auth sc = VerifyClient cas (tls_require_client_cert tls \<noteq> Some True)"
proof -
  have "cas \<noteq> []" if "load_certs l ca = Inr cas" for cas
    using that by (auto simp: load_certs_def try_bind_Inr split: if_splits)
  with assms show ?thesis
    by (cases "tls_require_client_cert tls") (auto simp: build_server_config_def client_auth_mode_def try_bind_Inr)
qed

definition stub_tls :: tls_lib where
  "stub_tls =
     \<lparr>file_open = (\<lambda>p. Inr p), pem_certs = (\<lambda>b. [Inr b]), pem_private_key = (\<lambda>b. Inr (Some b)),
      root_store_add = (\<lambda>_. Inr ()), verifier_build = (\<lambda>_. Inr ()), with_single_cert = (\<lambda>_ _. Inr ()),
      x509_from_der = (\<lambda>_. None)\<rparr>"

definition tls_files :: "string option \<Rightarrow> tls_config" where
  "tls_files ca = \<lparr>tls_cert = ''c'', tls_key = ''k'', tls_client_ca = ca, tls_require_client_cert = Some True\<rparr>"

lemmas tls_eval = stub_tls_def tls_files_def build_server_config_def client_auth_mode_def load_certs_def load_private_key_def

theorem mtls_role_justified_witness:
  "resolve_mtls_role \<lparr>common_name = Some ''a.ops'', sans = []\<rparr>
     (Some \<lparr>cert_role_map = Some [\<lparr>crm_cn = ''*.ops'', crm_role = ''admin''\<rparr>], default_role = None\<rparr>) = Some ''admin''
   \<and> cn_match ''*.ops'' ''a.ops''"
proof -
  have r: "resolve_mtls_role \<lparr>common_name = Some ''a.ops'', sans = []\<rparr>
     (Some \<lparr>cert_role_map = Some [\<lparr>crm_cn = ''*.ops'', crm_role = ''admin''\<rparr>], default_role = None\<rparr>) = Some ''admin''"
    by (simp add: resolve_mtls_role_def cn_match_def identity_names_def)
  from mtls_role_justified [OF r] r show ?thesis by (auto simp: identity_names_def)
qed

theorem require_client_cert_needs_ca_witness:
  "build_server_config stub_tls (tls_files None) = Inr \<lparr>sc_client_auth = NoClientAuth, sc_certs = [''c''], sc_key = ''k''\<rparr>
   \<and> sc_client_auth \<lparr>sc_client_auth = NoClientAuth, sc_certs = [''c''], sc_key = ''k''\<rparr> = NoClientAuth"
proof -
  have b: "build_server_config stub_tls (tls_files None) = Inr \<lparr>sc_client_auth = NoClientAuth, sc_certs = [''c''], sc_key = ''k''\<rparr>"
    by (simp add: tls_eval)
  have "sc_client_auth \<lparr>sc_client_auth = NoClientAuth, sc_certs = [''c''], sc_key = ''k''\<rparr> = NoClientAuth"
    by (rule require_client_cert_needs_ca [OF _ _ b]) (simp_all add: tls_files_def)
  with b show ?thesis by blast
qed

theorem client_ca_enforced_witness:
  "\<exists>cas. load_certs stub_tls ''ca'' = Inr cas \<and> cas \<noteq> []
       \<and> VerifyClient [''ca''] False = VerifyClient cas (tls_require_client_cert (tls_files (Some ''ca'')) \<noteq> Some True)"
  using client_ca_enforced [of "tls_files (Some ''ca'')" "''ca''" stub_tls
      "\<lparr>sc_client_auth = VerifyClient [''ca''] False, sc_certs = [''c''], sc_key = ''k''\<rparr>"]
  by (simp add: tls_eval)

end
