(* ===== verification/Metrics.thy ===== *)
theory Metrics
  imports Prelude Hash_Table
begin

text \<open>
  The metrics of \<^verbatim>\<open>src/metrics.rs\<close>: atomic 64-bit counters, decisions per rule, the upstream
  latency histogram and the Prometheus text exposition. A counter is a \<^typ>\<open>u64\<close> word, since
  \<^verbatim>\<open>fetch_add\<close> wraps; the per-rule counters saturate.
\<close>

definition LATENCY_BUCKETS_MS :: "u64 list" where
  "LATENCY_BUCKETS_MS = [5, 10, 25, 50, 100, 250, 500, 1000, 2500, 5000, 10000]"

definition LATENCY_BUCKET_COUNT :: nat where
  "LATENCY_BUCKET_COUNT = 12"

record rule_counters =
  rc_denied :: u64
  rc_dry_run :: u64

record latency_histogram =
  lh_buckets :: "u64 list"
  lh_sum_ms :: u64
  lh_count :: u64

record metrics =
  requests_total :: u64
  requests_allowed :: u64
  requests_denied :: u64
  requests_dry_run :: u64
  auth_failures_total :: u64
  auth_lockouts_total :: u64
  rate_limited_total :: u64
  upstream_errors_total :: u64
  upstream_timeouts_total :: u64
  body_too_large_total :: u64
  bad_request_total :: u64
  request_timeouts_total :: u64
  upgrade_total :: u64
  by_rule :: "(string, rule_counters) table"
  latency :: latency_histogram

definition latency_histogram_new :: latency_histogram where
  "latency_histogram_new = \<lparr>lh_buckets = replicate LATENCY_BUCKET_COUNT 0, lh_sum_ms = 0, lh_count = 0\<rparr>"

definition metrics_new :: metrics where
  "metrics_new =
     \<lparr>requests_total = 0, requests_allowed = 0, requests_denied = 0, requests_dry_run = 0,
      auth_failures_total = 0, auth_lockouts_total = 0, rate_limited_total = 0,
      upstream_errors_total = 0, upstream_timeouts_total = 0, body_too_large_total = 0,
      bad_request_total = 0, request_timeouts_total = 0, upgrade_total = 0,
      by_rule = [], latency = latency_histogram_new\<rparr>"

text \<open>\<^verbatim>\<open>fetch_add(1)\<close> on each counter; it wraps.\<close>

definition inc_requests_total :: "metrics \<Rightarrow> metrics" where
  "inc_requests_total m = m\<lparr>requests_total := requests_total m + 1\<rparr>"

definition inc_requests_allowed :: "metrics \<Rightarrow> metrics" where
  "inc_requests_allowed m = m\<lparr>requests_allowed := requests_allowed m + 1\<rparr>"

definition inc_requests_denied :: "metrics \<Rightarrow> metrics" where
  "inc_requests_denied m = m\<lparr>requests_denied := requests_denied m + 1\<rparr>"

definition inc_requests_dry_run :: "metrics \<Rightarrow> metrics" where
  "inc_requests_dry_run m = m\<lparr>requests_dry_run := requests_dry_run m + 1\<rparr>"

definition inc_rate_limited_total :: "metrics \<Rightarrow> metrics" where
  "inc_rate_limited_total m = m\<lparr>rate_limited_total := rate_limited_total m + 1\<rparr>"

definition inc_upstream_errors_total :: "metrics \<Rightarrow> metrics" where
  "inc_upstream_errors_total m = m\<lparr>upstream_errors_total := upstream_errors_total m + 1\<rparr>"

definition inc_upstream_timeouts_total :: "metrics \<Rightarrow> metrics" where
  "inc_upstream_timeouts_total m = m\<lparr>upstream_timeouts_total := upstream_timeouts_total m + 1\<rparr>"

definition inc_body_too_large_total :: "metrics \<Rightarrow> metrics" where
  "inc_body_too_large_total m = m\<lparr>body_too_large_total := body_too_large_total m + 1\<rparr>"

definition inc_bad_request_total :: "metrics \<Rightarrow> metrics" where
  "inc_bad_request_total m = m\<lparr>bad_request_total := bad_request_total m + 1\<rparr>"

definition inc_request_timeouts_total :: "metrics \<Rightarrow> metrics" where
  "inc_request_timeouts_total m = m\<lparr>request_timeouts_total := request_timeouts_total m + 1\<rparr>"

definition inc_upgrade_total :: "metrics \<Rightarrow> metrics" where
  "inc_upgrade_total m = m\<lparr>upgrade_total := upgrade_total m + 1\<rparr>"

lemmas inc_defs = inc_requests_total_def inc_requests_allowed_def inc_requests_denied_def inc_requests_dry_run_def inc_rate_limited_total_def inc_upstream_errors_total_def inc_upstream_timeouts_total_def inc_body_too_large_total_def inc_bad_request_total_def inc_request_timeouts_total_def inc_upgrade_total_def

text \<open>The index the search loop of \<^verbatim>\<open>observe\<close> stops at; the last one if no bound is large enough.\<close>

fun placed_index :: "u64 \<Rightarrow> nat \<Rightarrow> u64 list \<Rightarrow> nat" where
  "placed_index ms i [] = LATENCY_BUCKET_COUNT - 1"
| "placed_index ms i (b # bs) = (if ms \<le> b then i else placed_index ms (Suc i) bs)"

definition observe :: "u64 \<Rightarrow> latency_histogram \<Rightarrow> latency_histogram" where
  "observe ms h =
     (let i = placed_index ms 0 LATENCY_BUCKETS_MS
      in \<lparr>lh_buckets = (lh_buckets h)[i := lh_buckets h ! i + 1],
          lh_sum_ms = lh_sum_ms h + ms, lh_count = lh_count h + 1\<rparr>)"

definition observe_upstream_latency_ms :: "u64 \<Rightarrow> metrics \<Rightarrow> metrics" where
  "observe_upstream_latency_ms ms m = m\<lparr>latency := observe ms (latency m)\<rparr>"

definition record_rule_deny :: "string \<Rightarrow> bool \<Rightarrow> metrics \<Rightarrow> metrics" where
  "record_rule_deny rule_name dry_run m =
     (let e = unwrap_or (tbl_get (by_rule m) rule_name) \<lparr>rc_denied = 0, rc_dry_run = 0\<rparr>;
          e' = (if dry_run then e\<lparr>rc_dry_run := saturating_add (rc_dry_run e) 1\<rparr>
                else e\<lparr>rc_denied := saturating_add (rc_denied e) 1\<rparr>)
      in m\<lparr>by_rule := tbl_put rule_name e' (by_rule m)\<rparr>)"

section \<open>Exposition\<close>

definition show_u64 :: "u64 \<Rightarrow> string" where
  "show_u64 w = show_nat (unat w)"

definition nl :: string where
  "nl = [CHR 0x0A]"

definition dquote :: string where
  "dquote = [CHR 0x22]"

fun escape_label :: "string \<Rightarrow> string" where
  "escape_label [] = []"
| "escape_label (c # cs) =
     (if c = CHR 0x5C then [CHR 0x5C, CHR 0x5C]
      else if c = CHR 0x22 then [CHR 0x5C, CHR 0x22]
      else if c = CHR 0x0A then [CHR 0x5C, CHR ''n'']
      else [c]) @ escape_label cs"

definition counter_block :: "string \<Rightarrow> string \<Rightarrow> u64 \<Rightarrow> string" where
  "counter_block name help v =
     ''# HELP '' @ name @ '' '' @ help @ nl @
     ''# TYPE '' @ name @ '' counter'' @ nl @
     name @ '' '' @ show_u64 v @ nl"

definition render_outcomes :: "metrics \<Rightarrow> string" where
  "render_outcomes m =
     counter_block ''docker_proxy_requests_total'' ''Total HTTP requests received'' (requests_total m) @
     concat (map (\<lambda>(name, label, v). counter_block name (''Requests with outcome '' @ [CHR 0x27] @ label @ [CHR 0x27]) v)
       [(''docker_proxy_requests_allowed_total'', ''allowed'', requests_allowed m),
        (''docker_proxy_requests_denied_total'', ''denied'', requests_denied m),
        (''docker_proxy_requests_dry_run_total'', ''dry_run'', requests_dry_run m)])"

definition render_counters :: "metrics \<Rightarrow> string" where
  "render_counters m =
     concat (map (\<lambda>(name, help, v). counter_block name help v)
       [(''docker_proxy_auth_failures_total'', ''Failed auth attempts'', auth_failures_total m),
        (''docker_proxy_auth_lockouts_total'', ''IP auth lockouts triggered'', auth_lockouts_total m),
        (''docker_proxy_rate_limited_total'', ''Requests blocked by rate limit'', rate_limited_total m),
        (''docker_proxy_upstream_errors_total'', ''Upstream docker errors'', upstream_errors_total m),
        (''docker_proxy_upstream_timeouts_total'', ''Upstream docker timeouts'', upstream_timeouts_total m),
        (''docker_proxy_body_too_large_total'', ''Requests rejected for body size'', body_too_large_total m),
        (''docker_proxy_bad_request_total'', ''Requests rejected as malformed'', bad_request_total m),
        (''docker_proxy_request_timeouts_total'', ''Client request read timeouts'', request_timeouts_total m),
        (''docker_proxy_upgrade_total'', ''HTTP upgrade (exec/attach) requests proxied'', upgrade_total m)])"

definition rule_line :: "string \<Rightarrow> string \<Rightarrow> u64 \<Rightarrow> string" where
  "rule_line rule mode v =
     ''docker_proxy_rule_decisions_total{rule='' @ dquote @ escape_label rule @ dquote @
     '',mode='' @ dquote @ mode @ dquote @ ''} '' @ show_u64 v @ nl"

definition render_rules :: "metrics \<Rightarrow> string" where
  "render_rules m =
     ''# HELP docker_proxy_rule_decisions_total Decisions per rule'' @ nl @
     ''# TYPE docker_proxy_rule_decisions_total counter'' @ nl @
     concat (map (\<lambda>(rule, c). rule_line rule ''enforced'' (rc_denied c) @ rule_line rule ''dry_run'' (rc_dry_run c))
       (by_rule m))"

text \<open>The running sums of the bucket loop, the last one being the \<^verbatim>\<open>+Inf\<close> bucket.\<close>

fun cumulative :: "u64 \<Rightarrow> u64 list \<Rightarrow> u64 list" where
  "cumulative acc [] = []"
| "cumulative acc (b # bs) = (let acc' = saturating_add acc b in acc' # cumulative acc' bs)"

definition bucket_line :: "string \<Rightarrow> u64 \<Rightarrow> string" where
  "bucket_line le v = ''docker_proxy_upstream_latency_ms_bucket{le='' @ dquote @ le @ dquote @ ''} '' @ show_u64 v @ nl"

definition render_latency :: "latency_histogram \<Rightarrow> string" where
  "render_latency h =
     ''# HELP docker_proxy_upstream_latency_ms Latency to docker upstream in milliseconds'' @ nl @
     ''# TYPE docker_proxy_upstream_latency_ms histogram'' @ nl @
     concat (map2 bucket_line (map show_u64 LATENCY_BUCKETS_MS @ [''+Inf'']) (cumulative 0 (lh_buckets h))) @
     ''docker_proxy_upstream_latency_ms_sum '' @ show_u64 (lh_sum_ms h) @ nl @
     ''docker_proxy_upstream_latency_ms_count '' @ show_u64 (lh_count h) @ nl"

definition render_prometheus :: "metrics \<Rightarrow> string" where
  "render_prometheus m = render_outcomes m @ render_counters m @ render_rules m @ render_latency (latency m)"

section \<open>The histogram counts observations\<close>

lemma placed_index_ge: "k + length bs < LATENCY_BUCKET_COUNT \<Longrightarrow> k \<le> placed_index m k bs"
proof (induction bs arbitrary: k)
  case (Cons b bs)
  from Cons.IH [of "Suc k"] Cons.prems show ?case by auto
qed (simp add: LATENCY_BUCKET_COUNT_def)

lemma placed_index_iff:
  assumes "sorted bs" "k + length bs < LATENCY_BUCKET_COUNT" "i < length bs"
  shows "placed_index m k bs \<le> k + i \<longleftrightarrow> m \<le> bs ! i"
  using assms
proof (induction bs arbitrary: k i)
  case (Cons b bs)
  show ?case
  proof (cases i)
    case 0
    with placed_index_ge [of "Suc k" bs m] Cons.prems show ?thesis by auto
  next
    case (Suc j)
    with Cons.prems have "b \<le> bs ! j" by simp
    with Suc Cons.IH [of "Suc k" j] Cons.prems show ?thesis by (auto intro: order_trans)
  qed
qed simp

lemma placed_index_bound: "k + length bs < LATENCY_BUCKET_COUNT \<Longrightarrow> placed_index m k bs < LATENCY_BUCKET_COUNT"
  by (induction bs arbitrary: k) auto

lemma latency_bounds: "sorted LATENCY_BUCKETS_MS" "length LATENCY_BUCKETS_MS = 11"
  by (simp_all add: LATENCY_BUCKETS_MS_def)

definition bucket_of :: "u64 \<Rightarrow> nat" where
  "bucket_of m = placed_index m 0 LATENCY_BUCKETS_MS"

lemma bucket_of_less: "bucket_of m < LATENCY_BUCKET_COUNT"
  unfolding bucket_of_def by (rule placed_index_bound) (simp add: latency_bounds LATENCY_BUCKET_COUNT_def)

lemma bucket_of_le: "i < length LATENCY_BUCKETS_MS \<Longrightarrow> bucket_of m \<le> i \<longleftrightarrow> m \<le> LATENCY_BUCKETS_MS ! i"
  using placed_index_iff [of LATENCY_BUCKETS_MS 0 i m] latency_bounds
  by (simp add: bucket_of_def LATENCY_BUCKET_COUNT_def)

definition observed :: "u64 list \<Rightarrow> latency_histogram" where
  "observed ms = fold observe ms latency_histogram_new"

lemma observed_snoc: "observed (ms @ [m]) = observe m (observed ms)"
  by (simp add: observed_def)

lemma observed_buckets:
  "length (lh_buckets (observed ms)) = LATENCY_BUCKET_COUNT
   \<and> (\<forall>i < LATENCY_BUCKET_COUNT. lh_buckets (observed ms) ! i = of_nat (length (filter (\<lambda>m. bucket_of m = i) ms)))
   \<and> lh_count (observed ms) = of_nat (length ms)"
proof (induction ms rule: rev_induct)
  case Nil
  then show ?case by (simp add: observed_def latency_histogram_new_def)
next
  case (snoc m ms)
  then show ?case
    using bucket_of_less [of m]
    by (auto simp: observed_snoc observe_def bucket_of_def [symmetric] Let_def nth_list_update add.commute)
qed

lemma length_cumulative [simp]: "length (cumulative acc bs) = length bs"
  by (induction bs arbitrary: acc) (auto simp: Let_def)

lemma cumulative_nth:
  "i < length bs \<Longrightarrow>
     unat (cumulative acc bs ! i) = min (unat acc + sum_list (map unat (take (Suc i) bs))) (2 ^ 64 - 1)"
proof (induction bs arbitrary: acc i)
  case (Cons b bs)
  show ?case
  proof (cases i)
    case 0
    then show ?thesis by (simp add: Let_def unat_saturating_add)
  next
    case (Suc j)
    with Cons.IH [of j "saturating_add acc b"] Cons.prems show ?thesis
      by (simp add: Let_def unat_saturating_add)
  qed
qed simp

lemma count_classes:
  "sum_list (map (\<lambda>j. length (filter (\<lambda>m. f m = j) ms)) [0..<n]) = length (filter (\<lambda>m. f m < n) ms)"
proof (induction n)
  case (Suc n)
  have "length (filter (\<lambda>m. f m < n) ms) + length (filter (\<lambda>m. f m = n) ms) = length (filter (\<lambda>m. f m < Suc n) ms)"
    by (induction ms) auto
  with Suc show ?case by simp
qed simp

lemma cumulative_observed:
  assumes "length ms < 2 ^ 64" and "i < LATENCY_BUCKET_COUNT"
  shows "unat (cumulative 0 (lh_buckets (observed ms)) ! i) = length (filter (\<lambda>m. bucket_of m \<le> i) ms)"
proof -
  let ?bs = "lh_buckets (observed ms)"
  let ?n = "\<lambda>j. length (filter (\<lambda>m. bucket_of m = j) ms)"
  have len: "length ?bs = LATENCY_BUCKET_COUNT" using observed_buckets by blast
  have small: "?n j < 2 ^ 64" for j using length_filter_le [of _ ms] assms(1) by (rule le_less_trans)
  have "map unat (take (Suc i) ?bs) = map ?n [0..<Suc i]"
  proof (rule nth_equalityI)
    show "length (map unat (take (Suc i) ?bs)) = length (map ?n [0..<Suc i])" using len assms(2) by simp
    show "map unat (take (Suc i) ?bs) ! j = map ?n [0..<Suc i] ! j" if "j < length (map unat (take (Suc i) ?bs))" for j
      using that len assms(2) observed_buckets [of ms] small [of j]
      by (auto simp: unat_of_nat take_bit_nat_eq_self_iff simp del: upt_Suc)
  qed
  then have "unat (cumulative 0 ?bs ! i) = min (length (filter (\<lambda>m. bucket_of m < Suc i) ms)) (2 ^ 64 - 1)"
    using cumulative_nth [of i ?bs 0] len assms(2) by (simp add: count_classes del: upt_Suc)
  moreover have "length (filter (\<lambda>m. bucket_of m < Suc i) ms) < 2 ^ 64"
    using length_filter_le [of _ ms] assms(1) by (rule le_less_trans)
  ultimately show ?thesis by (simp add: less_Suc_eq_le)
qed

text \<open>
  The exported latency buckets are exact: after any sequence of fewer than $2^{64}$
  observations the value printed for the bound \<open>b\<close> is the number of observations of at most
  \<open>b\<close> milliseconds.
\<close>

theorem latency_buckets_exact:
  assumes "length ms < 2 ^ 64" and "i < length LATENCY_BUCKETS_MS"
  shows "unat (cumulative 0 (lh_buckets (fold observe ms latency_histogram_new)) ! i)
       = length (filter (\<lambda>m. m \<le> LATENCY_BUCKETS_MS ! i) ms)"
  using cumulative_observed [OF assms(1), of i] assms(2) bucket_of_le latency_bounds
  by (simp add: observed_def LATENCY_BUCKET_COUNT_def)

text \<open>
  The \<^verbatim>\<open>+Inf\<close> bucket agrees with the exported count, as the exposition format requires.
\<close>

theorem latency_inf_is_count:
  assumes "length ms < 2 ^ 64"
  shows "last (cumulative 0 (lh_buckets (fold observe ms latency_histogram_new)))
       = lh_count (fold observe ms latency_histogram_new)"
proof -
  let ?c = "cumulative 0 (lh_buckets (observed ms))"
  have len: "length ?c = LATENCY_BUCKET_COUNT" using observed_buckets by simp
  then have "last ?c = ?c ! 11" by (subst last_conv_nth) (force simp: LATENCY_BUCKET_COUNT_def)+
  moreover have "bucket_of m \<le> 11" for m using bucket_of_less [of m] by (simp add: LATENCY_BUCKET_COUNT_def)
  then have "unat (?c ! 11) = length ms"
    using cumulative_observed [OF assms, of 11] by (simp add: LATENCY_BUCKET_COUNT_def)
  ultimately show ?thesis
    using observed_buckets [of ms] by (metis observed_def of_nat_unat ucast_id)
qed

theorem latency_buckets_exact_witness:
  "unat (cumulative 0 (lh_buckets (fold observe [3, 7, 12000] latency_histogram_new)) ! 1)
     = length (filter (\<lambda>m. m \<le> LATENCY_BUCKETS_MS ! 1) [3, 7, 12000])"
  by (rule latency_buckets_exact) (simp_all add: LATENCY_BUCKETS_MS_def)

theorem latency_inf_is_count_witness:
  "last (cumulative 0 (lh_buckets (fold observe [3, 7, 12000] latency_histogram_new)))
     = lh_count (fold observe [3, 7, 12000] latency_histogram_new)"
  by (rule latency_inf_is_count) simp

section \<open>Labels and rule counters\<close>

text \<open>
  A reader of a quoted label value, as the text format specifies it: up to the first
  unescaped quote, with the three escapes; a raw line feed ends the line and so the label.
\<close>

fun read_label :: "string \<Rightarrow> (string \<times> string) option" where
  "read_label [] = None"
| "read_label (c # cs) =
     (if c = CHR 0x22 then Some ([], cs)
      else if c = CHR 0x0A then None
      else if c = CHR 0x5C then
        (case cs of
           [] \<Rightarrow> None
         | d # ds \<Rightarrow>
             map_option (\<lambda>(s, r). ((if d = CHR ''n'' then CHR 0x0A else d) # s, r)) (read_label ds))
      else map_option (\<lambda>(s, r). (c # s, r)) (read_label cs))"

text \<open>
  A rule name cannot break the exposition: a reader of the escaped label gets back the name and
  stops exactly at the closing quote, whatever bytes the name holds.
\<close>

theorem escape_label_roundtrip: "read_label (escape_label s @ CHR 0x22 # rest) = Some (s, rest)"
  by (induction s) simp_all

text \<open>The counter of one rule and mode after a sequence of decisions.\<close>

definition rule_count :: "string \<Rightarrow> bool \<Rightarrow> metrics \<Rightarrow> nat" where
  "rule_count rule dry m =
     (case tbl_get (by_rule m) rule of
        None \<Rightarrow> 0 | Some c \<Rightarrow> unat (if dry then rc_dry_run c else rc_denied c))"

lemma by_rule_wf: "tbl_wf (by_rule m) \<Longrightarrow> tbl_wf (by_rule (record_rule_deny r d m))"
  by (simp add: record_rule_deny_def Let_def)

lemma rule_count_step:
  assumes "tbl_wf (by_rule m)"
  shows "rule_count rule dry (record_rule_deny r d m)
       = (if r = rule \<and> d = dry then min (rule_count rule dry m + 1) (2 ^ 64 - 1) else rule_count rule dry m)"
  using assms
  by (auto simp: rule_count_def record_rule_deny_def Let_def unat_saturating_add unwrap_or_def split: option.splits)

text \<open>
  The decision counters per rule are exact up to saturation: starting from nothing, the counter
  of a rule and a mode is the number of decisions recorded for it, capped at $2^{64} - 1$; other
  rules and the other mode do not disturb it.
\<close>

theorem rule_counters_exact:
  "rule_count rule dry (fold (\<lambda>(r, d). record_rule_deny r d) decisions metrics_new)
     = min (length (filter (\<lambda>e. e = (rule, dry)) decisions)) (2 ^ 64 - 1)"
proof -
  have "tbl_wf (by_rule m) \<Longrightarrow> rule_count rule dry m \<le> 2 ^ 64 - 1 \<Longrightarrow>
      rule_count rule dry (fold (\<lambda>(r, d). record_rule_deny r d) ds m)
        = min (rule_count rule dry m + length (filter (\<lambda>e. e = (rule, dry)) ds)) (2 ^ 64 - 1)" for ds m
  proof (induction ds arbitrary: m)
    case (Cons e ds)
    obtain r d where e: "e = (r, d)" by (cases e)
    from Cons.IH [of "record_rule_deny r d m"] Cons.prems show ?case
      by (auto simp: e rule_count_step by_rule_wf)
  qed (simp add: min_def)
  from this [of metrics_new decisions] show ?thesis
    by (simp add: metrics_new_def rule_count_def tbl_defs)
qed

end
