(* ===== verification/Float64.thy ===== *)
theory Float64
  imports Prelude "HOL-Library.Log_Nat"
begin

text \<open>
  The \<^verbatim>\<open>f64\<close> arithmetic of the rate limiter. A finite \<^verbatim>\<open>f64\<close> is a rational number, and
  every operation rounds its exact result to 53 significant bits, to nearest, ties to even
  (IEEE 754 binary64). The limits of the exponent are left out: the limiter's values are zero or
  between \<open>2 ^ -94\<close> and \<open>2 ^ 128\<close>, so nothing overflows or becomes subnormal.

  The locale states what clients rely on; the interpretation shows that the rounding has it.
\<close>

section \<open>Interface\<close>

locale rounding =
  fixes rnd :: "rat \<Rightarrow> rat"
  assumes rnd_mono: "0 \<le> x \<Longrightarrow> x \<le> y \<Longrightarrow> rnd x \<le> rnd y"
    and rnd_grid: "\<bar>k\<bar> \<le> 2 ^ 53 \<Longrightarrow> rnd (of_int k * 2 powi e) = of_int k * 2 powi e"
    and rnd_float: "\<exists>k e. \<bar>k\<bar> \<le> 2 ^ 53 \<and> rnd x = of_int k * 2 powi e"
    and rnd_upper: "0 \<le> x \<Longrightarrow> rnd x \<le> x * (1 + 1 / 2 ^ 53)"
    and rnd_lower: "0 \<le> x \<Longrightarrow> x * (1 - 1 / 2 ^ 53) \<le> rnd x"
begin

lemma rnd_rnd [simp]: "rnd (rnd x) = rnd x"
  using rnd_float [of x] rnd_grid by fastforce

lemma rnd_of_nat: "n \<le> 2 ^ 53 \<Longrightarrow> rnd (of_nat n) = of_nat n"
  using rnd_grid [of "int n" 0] by simp

lemma rnd_0 [simp]: "rnd 0 = 0"
  using rnd_of_nat [of 0] by simp

lemma rnd_1 [simp]: "rnd 1 = 1"
  using rnd_of_nat [of 1] by simp

lemma rnd_numeral: "numeral w \<le> (2 ^ 53 :: nat) \<Longrightarrow> rnd (numeral w) = numeral w"
  using rnd_of_nat [of "numeral w"] by (simp only: of_nat_numeral)

lemma rnd_nonneg: "0 \<le> x \<Longrightarrow> 0 \<le> rnd x"
  using rnd_mono [of 0 x] by simp

lemma rnd_ge1: "1 \<le> x \<Longrightarrow> 1 \<le> rnd x"
  using rnd_mono [of 1 x] by simp

text \<open>Taking one off a float that is at least one loses nothing.\<close>

lemma rnd_minus_1:
  assumes "1 \<le> rnd x" and "rnd x \<le> 2 ^ 53"
  shows "rnd (rnd x - 1) = rnd x - 1"
proof -
  obtain k e where k: "\<bar>k\<bar> \<le> 2 ^ 53" and x: "rnd x = of_int k * 2 powi e" using rnd_float [of x] by blast
  show ?thesis
  proof (cases "0 \<le> e")
    case True
    then obtain n where "e = int n" by (metis nonneg_int_cases)
    then have i: "rnd x = of_int (k * 2 ^ n)" by (simp add: x)
    with assms have "of_int 1 \<le> (of_int (k * 2 ^ n) :: rat)" "(of_int (k * 2 ^ n) :: rat) \<le> of_int (2 ^ 53)" by simp_all
    then have "1 \<le> k * 2 ^ n" "k * 2 ^ n \<le> 2 ^ 53" by (simp_all only: of_int_le_iff)
    then have "\<bar>k * 2 ^ n - 1\<bar> \<le> 2 ^ 53" by simp
    with rnd_grid [of "k * 2 ^ n - 1" 0] i show ?thesis by simp
  next
    case False
    then obtain n where n: "e = - int n" by (metis nonneg_int_cases add.inverse_inverse linear neg_0_le_iff_le)
    have q: "rnd x = of_int k / 2 ^ n" by (simp add: x n power_int_minus divide_inverse)
    with assms(1) have "of_int (2 ^ n) \<le> (of_int k :: rat)" by (simp add: pos_le_divide_eq)
    then have "2 ^ n \<le> k" by (simp only: of_int_le_iff)
    moreover have "0 < (2 ^ n :: int)" by simp
    ultimately have "\<bar>k - 2 ^ n\<bar> \<le> 2 ^ 53" using k by linarith
    then have "rnd (of_int (k - 2 ^ n) * 2 powi e) = of_int (k - 2 ^ n) * 2 powi e" by (rule rnd_grid)
    moreover have "of_int (k - 2 ^ n) * 2 powi e = rnd x - 1"
      by (simp add: q n power_int_minus left_diff_distrib divide_inverse)
    ultimately show ?thesis by simp
  qed
qed

end

section \<open>Rounding to nearest, ties to even\<close>

definition round_half_even :: "rat \<Rightarrow> int" where
  "round_half_even q =
     (let n = \<lfloor>q\<rfloor>; r = q - of_int n
      in if r < 1 / 2 then n else if 1 / 2 < r then n + 1 else if even n then n else n + 1)"

text \<open>The exponent of the leading bit.\<close>

definition ilog2 :: "rat \<Rightarrow> int" where
  "ilog2 q =
     (let (a, b) = quotient_of q; k = int (floorlog 2 (nat a)) - int (floorlog 2 (nat b))
      in if 2 powi k \<le> q then k else k - 1)"

definition f64_round :: "rat \<Rightarrow> rat" where
  "f64_round q =
     (if q = 0 then 0
      else let s = 2 powi (ilog2 \<bar>q\<bar> - 52) in of_int (round_half_even (q / s)) * s)"

lemma round_half_even_of_int [simp]: "round_half_even (of_int k) = k"
  by (simp add: round_half_even_def)

lemma round_half_even_near: "\<bar>of_int (round_half_even q) - q\<bar> \<le> 1 / 2"
proof -
  define n r where "n = \<lfloor>q\<rfloor>" and "r = q - of_int n"
  have q: "q = of_int n + r" and r: "0 \<le> r" "r < 1" unfolding n_def r_def by linarith+
  have "round_half_even q = (if r < 1 / 2 then n else if 1 / 2 < r then n + 1 else if even n then n else n + 1)"
    by (simp add: round_half_even_def n_def r_def Let_def)
  then show ?thesis using r unfolding q by (auto simp: abs_if)
qed

lemma round_half_even_mono: "x \<le> y \<Longrightarrow> round_half_even x \<le> round_half_even y"
proof (cases "\<lfloor>x\<rfloor> = \<lfloor>y\<rfloor>")
  case True
  assume "x \<le> y"
  with True show ?thesis by (auto simp: round_half_even_def Let_def)
next
  case False
  assume "x \<le> y"
  then have "\<lfloor>x\<rfloor> \<le> \<lfloor>y\<rfloor>" by (rule floor_mono)
  with False have "\<lfloor>x\<rfloor> + 1 \<le> \<lfloor>y\<rfloor>" by simp
  moreover have "round_half_even x \<le> \<lfloor>x\<rfloor> + 1" "\<lfloor>y\<rfloor> \<le> round_half_even y"
    by (auto simp: round_half_even_def Let_def)
  ultimately show ?thesis by linarith
qed

lemma floorlog_powi:
  assumes "0 < a"
  shows "2 powi (int (floorlog 2 (nat a)) - 1) \<le> (of_int a :: rat)"
    and "(of_int a :: rat) < 2 powi int (floorlog 2 (nat a))"
proof -
  obtain n where a: "a = int n" using assms by (metis less_imp_le nonneg_int_cases)
  have n: "0 < n" using assms a by simp
  then have pos: "0 < floorlog 2 n" by (auto simp: floorlog_def)
  have b: "2 ^ (floorlog 2 n - 1) \<le> n" "n < 2 ^ floorlog 2 n" using floorlog_bounds [of n 2] n by auto
  have "of_nat (2 ^ (floorlog 2 n - 1)) \<le> (of_nat n :: rat)" "(of_nat n :: rat) < of_nat (2 ^ floorlog 2 n)"
    using b by (simp_all only: of_nat_le_iff of_nat_less_iff)
  moreover have "int (floorlog 2 n) - 1 = int (floorlog 2 n - 1)" using pos by simp
  ultimately show "2 powi (int (floorlog 2 (nat a)) - 1) \<le> (of_int a :: rat)"
    and "(of_int a :: rat) < 2 powi int (floorlog 2 (nat a))"
    unfolding a by (simp_all only: nat_int power_int_of_nat of_int_of_nat_eq of_nat_power of_nat_numeral)
qed

lemma ilog2_bounds:
  assumes "0 < q"
  shows "2 powi ilog2 q \<le> q" and "q < 2 powi (ilog2 q + 1)"
proof -
  obtain a b where ab: "quotient_of q = (a, b)" by fastforce
  then have q: "q = of_int a / of_int b" and b: "0 < b"
    by (simp_all add: quotient_of_div quotient_of_denom_pos)
  with assms have a: "0 < a" by (simp add: zero_less_divide_iff)
  let ?m = "int (floorlog 2 (nat a))" and ?n = "int (floorlog 2 (nat b))"
  note A = floorlog_powi [OF a] and B = floorlog_powi [OF b]
  have "2 powi (?m - ?n - 1) * (of_int b :: rat) \<le> 2 powi (?m - ?n - 1) * 2 powi ?n"
    using B(2) by (intro mult_left_mono) auto
  also have "\<dots> = 2 powi (?m - ?n - 1 + ?n)" by (intro power_int_add [symmetric]) simp
  also have "?m - ?n - 1 + ?n = ?m - 1" by simp
  finally have lo: "2 powi (?m - ?n - 1) \<le> q" using A(1) b by (simp add: q pos_le_divide_eq)
  have "(2 :: rat) powi ?m = 2 powi (?m - ?n + 1) * 2 powi (?n - 1)"
    by (simp add: power_int_add [symmetric])
  also have "\<dots> \<le> 2 powi (?m - ?n + 1) * of_int b" using B(1) by (intro mult_left_mono) auto
  finally have hi: "q < 2 powi (?m - ?n + 1)" using less_le_trans [OF A(2)] b unfolding q by (subst pos_divide_less_eq) simp_all
  show "2 powi ilog2 q \<le> q" and "q < 2 powi (ilog2 q + 1)"
    using lo hi by (auto simp: ilog2_def ab Let_def)
qed

lemma powi2_mono: "i \<le> j \<Longrightarrow> (2 :: rat) powi i \<le> 2 powi j"
  by (intro power_int_increasing) auto

lemma powi2_less: "(2 :: rat) powi i < 2 powi j \<Longrightarrow> i < j"
  using powi2_mono [of j i] by (meson leD linorder_le_less_linear)

lemma powi2_mult_int:
  assumes "0 \<le> d"
  shows "\<exists>m. of_int k * (2 :: rat) powi d = of_int m"
proof -
  from assms obtain n where "d = int n" by (metis nonneg_int_cases)
  then have "of_int k * (2 :: rat) powi d = of_int (k * 2 ^ n)" by simp
  then show ?thesis ..
qed

section \<open>The rounding in a binade\<close>

definition ulp :: "rat \<Rightarrow> rat" where
  "ulp q = 2 powi (ilog2 \<bar>q\<bar> - 52)"

lemma ulp_pos [simp]: "0 < ulp q" "ulp q \<noteq> 0"
  by (simp_all add: ulp_def)

lemma f64_round_ulp: "f64_round q = (if q = 0 then 0 else of_int (round_half_even (q / ulp q)) * ulp q)"
  by (simp add: f64_round_def ulp_def Let_def)

lemma ulp_bounds:
  assumes "q \<noteq> 0"
  shows "2 ^ 52 * ulp q \<le> \<bar>q\<bar>" and "\<bar>q\<bar> < 2 ^ 53 * ulp q"
proof -
  have "2 powi ilog2 \<bar>q\<bar> = 2 ^ 52 * ulp q" "2 powi (ilog2 \<bar>q\<bar> + 1) = 2 ^ 53 * ulp q"
    unfolding ulp_def by (simp_all add: power_int_diff power_int_add)
  with ilog2_bounds [of "\<bar>q\<bar>"] assms show "2 ^ 52 * ulp q \<le> \<bar>q\<bar>" and "\<bar>q\<bar> < 2 ^ 53 * ulp q" by auto
qed

lemma f64_round_near: "\<bar>f64_round q - q\<bar> \<le> ulp q / 2"
proof (cases "q = 0")
  case False
  have "\<bar>of_int (round_half_even (q / ulp q)) - q / ulp q\<bar> * ulp q \<le> 1 / 2 * ulp q"
    by (intro mult_right_mono round_half_even_near) (simp add: less_imp_le)
  moreover have "\<bar>of_int (round_half_even (q / ulp q)) - q / ulp q\<bar> * ulp q
      = \<bar>of_int (round_half_even (q / ulp q)) * ulp q - q\<bar>"
    by (simp add: abs_mult_pos' [symmetric] abs_mult_pos left_diff_distrib less_imp_le)
  ultimately show ?thesis using False by (simp add: f64_round_ulp)
qed (simp add: f64_round_def less_imp_le)

lemma f64_round_grid:
  assumes "\<bar>k\<bar> \<le> 2 ^ 53"
  shows "f64_round (of_int k * 2 powi e) = of_int k * 2 powi e"
proof (cases "k = 0")
  case False
  let ?q = "of_int k * 2 powi e :: rat"
  have q: "?q \<noteq> 0" using False by simp
  let ?l = "ilog2 \<bar>?q\<bar>"
  have "\<exists>m. ?q / ulp ?q = of_int m"
  proof (cases "?l \<le> e + 52")
    case True
    have "?q / ulp ?q = of_int k * 2 powi (e - (?l - 52))"
      unfolding ulp_def by (simp add: power_int_diff)
    with True powi2_mult_int [of "e - (?l - 52)" k] show ?thesis by simp
  next
    case big: False
    have "2 powi (e + 53) \<le> (2 :: rat) powi ?l" using big by (intro powi2_mono) simp
    also have "\<dots> \<le> \<bar>?q\<bar>" using q by (intro ilog2_bounds(1)) simp
    finally have "2 powi (e + 53) \<le> \<bar>?q\<bar>" .
    then have "(2 :: rat) ^ 53 * 2 powi e \<le> of_int \<bar>k\<bar> * 2 powi e"
      by (simp add: power_int_add abs_mult mult.commute)
    then have "(2 :: rat) ^ 53 \<le> of_int \<bar>k\<bar>" by simp
    then have "of_int (2 ^ 53) \<le> (of_int \<bar>k\<bar> :: rat)" by simp
    then have "2 ^ 53 \<le> \<bar>k\<bar>" by (simp only: of_int_le_iff)
    with assms have k: "\<bar>k\<bar> = 2 ^ 53" by simp
    have "2 powi ?l \<le> (2 :: rat) powi (e + 53)"
      using ilog2_bounds(1) [of "\<bar>?q\<bar>"] q k by (simp add: power_int_add abs_mult mult.commute flip: of_int_abs)
    then have "?l \<le> e + 53" using powi2_less by (metis linorder_not_less order_le_less power_int_strict_increasing one_less_numeral_iff semiring_norm(76))
    with big have "?l = e + 53" by simp
    then have "?q / ulp ?q = of_int k / 2"
      unfolding ulp_def by (simp add: power_int_diff power_int_add)
    also have "\<dots> = of_int (k div 2)"
    proof -
      have "even \<bar>k\<bar>" unfolding k by simp
      then have "k = 2 * (k div 2)" by simp
      then have "(of_int k :: rat) = 2 * of_int (k div 2)" by (metis of_int_mult of_int_numeral)
      then show ?thesis by simp
    qed
    finally show ?thesis ..
  qed
  then obtain m where m: "?q / ulp ?q = of_int m" ..
  then have "of_int m * ulp ?q = ?q" by (metis nonzero_divide_eq_eq ulp_pos(2))
  then show ?thesis using q by (simp only: f64_round_ulp m round_half_even_of_int if_False)
qed (simp add: f64_round_def)

lemma f64_round_multiple:
  obtains m e where "f64_round q = of_int m * 2 powi e" and "\<bar>m\<bar> \<le> 2 ^ 53"
proof (cases "q = 0")
  case True
  then show ?thesis using that [of 0 0] by (simp add: f64_round_def)
next
  case False
  let ?m = "round_half_even (q / ulp q)"
  have "\<bar>q / ulp q\<bar> = \<bar>q\<bar> / ulp q" by (simp add: abs_of_pos)
  also have "\<dots> \<le> 2 ^ 53" using ulp_bounds(2) [OF False] by (subst pos_divide_le_eq) (rule ulp_pos, rule less_imp_le)
  finally have "\<bar>q / ulp q\<bar> \<le> 2 ^ 53" .
  then have b: "of_int (- (2 ^ 53)) \<le> q / ulp q" "q / ulp q \<le> of_int (2 ^ 53)"
    unfolding of_int_minus of_int_power of_int_numeral by (simp_all only: abs_le_iff minus_le_iff)
  have "- (2 ^ 53) \<le> ?m" "?m \<le> 2 ^ 53"
    using b [THEN round_half_even_mono] unfolding round_half_even_of_int by this+
  with that [of ?m "ilog2 \<bar>q\<bar> - 52"] False show ?thesis by (simp add: f64_round_ulp ulp_def)
qed

lemma f64_round_upper:
  assumes "0 \<le> q"
  shows "f64_round q \<le> q * (1 + 1 / 2 ^ 53)"
proof (cases "q = 0")
  case False
  have "f64_round q \<le> q + ulp q / 2" using f64_round_near [of q] by linarith
  with ulp_bounds(1) [OF False] assms show ?thesis by (simp add: distrib_left)
qed (simp add: f64_round_def)

lemma f64_round_lower:
  assumes "0 \<le> q"
  shows "q * (1 - 1 / 2 ^ 53) \<le> f64_round q"
proof (cases "q = 0")
  case False
  have "q - ulp q / 2 \<le> f64_round q" using f64_round_near [of q] by linarith
  with ulp_bounds(1) [OF False] assms show ?thesis by (simp add: right_diff_distrib)
qed (simp add: f64_round_def)

text \<open>A number of a lower binade is rounded at most to the start of the next one.\<close>

lemma f64_round_binade:
  assumes "0 < q"
  shows "2 powi ilog2 q \<le> f64_round q" and "f64_round q \<le> 2 powi (ilog2 q + 1)"
proof -
  have lo: "of_int (2 ^ 52) \<le> q / ulp q" and hi: "q / ulp q \<le> of_int (2 ^ 53)"
    using ulp_bounds [of q] assms by (simp_all add: pos_le_divide_eq pos_divide_le_eq)
  have "2 ^ 52 \<le> round_half_even (q / ulp q)" using round_half_even_mono [OF lo] unfolding round_half_even_of_int .
  then have "of_int (2 ^ 52) * ulp q \<le> of_int (round_half_even (q / ulp q)) * ulp q"
    by (intro mult_right_mono) (simp_all only: of_int_le_iff ulp_pos less_imp_le)
  moreover have "round_half_even (q / ulp q) \<le> 2 ^ 53" using round_half_even_mono [OF hi] unfolding round_half_even_of_int .
  then have "of_int (round_half_even (q / ulp q)) * ulp q \<le> of_int (2 ^ 53) * ulp q"
    by (intro mult_right_mono) (simp_all only: of_int_le_iff ulp_pos less_imp_le)
  moreover have "2 powi ilog2 q = of_int (2 ^ 52) * ulp q" "2 powi (ilog2 q + 1) = of_int (2 ^ 53) * ulp q"
    unfolding ulp_def using assms by (simp_all add: power_int_diff power_int_add)
  ultimately show "2 powi ilog2 q \<le> f64_round q" and "f64_round q \<le> 2 powi (ilog2 q + 1)"
    using assms by (simp_all only: f64_round_ulp less_irrefl if_False split: if_splits) auto
qed

lemma f64_round_mono_pos:
  assumes "0 < p" and "p \<le> q"
  shows "f64_round p \<le> f64_round q"
proof (cases "ilog2 p = ilog2 q")
  case True
  then have u: "ulp q = ulp p" using assms by (simp add: ulp_def)
  have "p / ulp p \<le> q / ulp p" using assms(2) by (intro divide_right_mono) (simp_all add: less_imp_le)
  then have "(of_int (round_half_even (p / ulp p)) :: rat) \<le> of_int (round_half_even (q / ulp p))"
    by (simp only: of_int_le_iff round_half_even_mono)
  then show ?thesis using assms by (simp add: f64_round_ulp u)
next
  case False
  have q: "0 < q" using assms by simp
  have "(2 :: rat) powi ilog2 p < 2 powi (ilog2 q + 1)"
    using ilog2_bounds [OF assms(1)] ilog2_bounds [OF q] assms(2) by linarith
  then have "ilog2 p < ilog2 q + 1" by (rule powi2_less)
  with False have "(2 :: rat) powi (ilog2 p + 1) \<le> 2 powi ilog2 q" by (intro powi2_mono) simp
  with f64_round_binade [OF assms(1)] f64_round_binade [OF q] show ?thesis by linarith
qed

interpretation f64: rounding f64_round
proof (unfold_locales, goal_cases)
  case (1 x y)
  show ?case
  proof (cases "0 < x")
    case True
    with 1 show ?thesis by (intro f64_round_mono_pos)
  next
    case False
    then have "x = 0" using 1 by simp
    moreover have "0 \<le> f64_round y"
    proof (cases "y = 0")
      case False
      then have "2 powi ilog2 y \<le> f64_round y" using 1 by (intro f64_round_binade) simp
      then show ?thesis by (rule order_trans [rotated]) simp
    qed (simp add: f64_round_def)
    ultimately show ?thesis by (simp add: f64_round_def)
  qed
next
  case (2 k e)
  then show ?case by (rule f64_round_grid)
next
  case (3 x)
  show ?case by (rule f64_round_multiple [of x]) blast
next
  case (4 x)
  then show ?case by (rule f64_round_upper)
next
  case (5 x)
  then show ?case by (rule f64_round_lower)
qed

section \<open>The operations\<close>

definition f64_add :: "rat \<Rightarrow> rat \<Rightarrow> rat" where
  "f64_add a b = f64_round (a + b)"

definition f64_sub :: "rat \<Rightarrow> rat \<Rightarrow> rat" where
  "f64_sub a b = f64_round (a - b)"

definition f64_mul :: "rat \<Rightarrow> rat \<Rightarrow> rat" where
  "f64_mul a b = f64_round (a * b)"

definition f64_div :: "rat \<Rightarrow> rat \<Rightarrow> rat" where
  "f64_div a b = f64_round (a / b)"

text \<open>The conversion \<^verbatim>\<open>n as f64\<close> of an unsigned integer.\<close>

definition nat_as_f64 :: "nat \<Rightarrow> rat" where
  "nat_as_f64 n = f64_round (of_nat n)"

lemmas f64_ops = f64_add_def f64_sub_def f64_mul_def f64_div_def nat_as_f64_def

lemma f64_ops_nonneg [simp]:
  "0 \<le> a \<Longrightarrow> 0 \<le> b \<Longrightarrow> 0 \<le> f64_add a b" "0 \<le> a \<Longrightarrow> 0 \<le> b \<Longrightarrow> 0 \<le> f64_mul a b"
  "0 \<le> a \<Longrightarrow> 0 \<le> b \<Longrightarrow> 0 \<le> f64_div a b" "0 \<le> nat_as_f64 n"
  by (simp_all add: f64_ops f64.rnd_nonneg)

text \<open>An integer above \<open>2 ^ 53\<close> may be rounded, but not below \<open>2 ^ 53\<close>.\<close>

lemma nat_as_f64_small:
  assumes "nat_as_f64 n \<le> 2 ^ 53"
  obtains k where "nat_as_f64 n = of_nat k" and "k \<le> 2 ^ 53"
proof (cases "n \<le> 2 ^ 53")
  case True
  with that [of n] show ?thesis by (simp add: nat_as_f64_def f64.rnd_of_nat)
next
  case False
  then have "(of_nat (2 ^ 53) :: rat) \<le> of_nat n" by (simp only: of_nat_le_iff linorder_not_le less_imp_le)
  then have "f64_round (of_nat (2 ^ 53)) \<le> f64_round (of_nat n)" by (intro f64.rnd_mono of_nat_0_le_iff)
  then have "of_nat (2 ^ 53) \<le> nat_as_f64 n" by (simp only: nat_as_f64_def f64.rnd_of_nat [OF order_refl])
  with assms have "nat_as_f64 n = of_nat (2 ^ 53)" by simp
  with that [of "2 ^ 53"] show ?thesis by simp
qed

lemma nat_as_f64_ge:
  assumes "k \<le> n" and "k \<le> 2 ^ 53"
  shows "of_nat k \<le> nat_as_f64 n"
proof -
  have "f64_round (of_nat k) \<le> f64_round (of_nat n)" using assms(1) by (intro f64.rnd_mono) simp_all
  with f64.rnd_of_nat [OF assms(2)] show ?thesis by (simp add: nat_as_f64_def)
qed

end
