(* ===== verification/Rate_Limiter.thy ===== *)
theory Rate_Limiter
  imports Keyed_Limiter Net_Addr Float64
begin

text \<open>
  The token-bucket rate limiter of \<^verbatim>\<open>src/rules.rs\<close> (\<^verbatim>\<open>RateLimiter\<close>). The token counts are
  \<^verbatim>\<open>f64\<close> values and every operation on them rounds. The clock reading of a call is its argument \<open>now\<close>. A result \<^const>\<open>None\<close> is the panic of \<^verbatim>\<open>Instant + Duration\<close>
  on overflow, with the table as the unwinding leaves it.
\<close>

definition MAX_RATE_LIMIT_BUCKETS :: nat where
  "MAX_RATE_LIMIT_BUCKETS = 16384"

record rate_bucket =
  last_check :: instant
  tokens :: rat
  max_tokens :: rat
  blocked_until :: "instant option"

type_synonym rate_limiter = "(string, rate_bucket) table"

definition rate_limiter_new :: rate_limiter where
  "rate_limiter_new = []"

definition u64_as_f64 :: "u64 \<Rightarrow> rat" where
  "u64_as_f64 n = nat_as_f64 (unat n)"

text \<open>\<^verbatim>\<open>Duration::as_secs_f64\<close>: the whole seconds and the nanoseconds are converted apart.\<close>

definition as_secs_f64 :: "duration \<Rightarrow> rat" where
  "as_secs_f64 d =
     f64_add (nat_as_f64 (d div NANOS_PER_SEC))
       (f64_div (nat_as_f64 (d mod NANOS_PER_SEC)) (nat_as_f64 NANOS_PER_SEC))"

definition refill_rate :: "u64 \<Rightarrow> u64 \<Rightarrow> rat" where
  "refill_rate max_requests period_secs =
     (if period_secs = 0 then u64_as_f64 max_requests
      else f64_div (u64_as_f64 max_requests) (u64_as_f64 period_secs))"

text \<open>The body of \<^verbatim>\<open>check\<close> once the bucket is at hand.\<close>

definition bucket_check ::
    "instant \<Rightarrow> u64 \<Rightarrow> u64 \<Rightarrow> u64 \<Rightarrow> rate_bucket \<Rightarrow> bool option \<times> rate_bucket" where
  "bucket_check now max_requests period_secs penalty_secs b =
     (if (case blocked_until b of None \<Rightarrow> False | Some u \<Rightarrow> now < u) then (Some False, b)
      else
        (let cap = u64_as_f64 max_requests;
             b1 = (case blocked_until b of None \<Rightarrow> b
                   | Some _ \<Rightarrow> b\<lparr>blocked_until := None, tokens := cap, last_check := now\<rparr>);
             elapsed = as_secs_f64 (now - last_check b1);
             tk = min (f64_add (tokens b1) (f64_mul elapsed (refill_rate max_requests period_secs))) cap;
             b2 = b1\<lparr>tokens := tk, last_check := now, max_tokens := cap\<rparr>
         in if 1 \<le> tk then (Some True, b2\<lparr>tokens := f64_sub tk 1\<rparr>)
            else case instant_add now (from_secs (unat penalty_secs)) of
                None \<Rightarrow> (None, b2)
              | Some u \<Rightarrow> (Some False, b2\<lparr>blocked_until := Some u\<rparr>)))"

definition new_bucket :: "instant \<Rightarrow> u64 \<Rightarrow> rate_bucket" where
  "new_bucket now max_requests =
     \<lparr>last_check = now, tokens = u64_as_f64 max_requests,
      max_tokens = u64_as_f64 max_requests, blocked_until = None\<rparr>"

definition rl_check ::
    "instant \<Rightarrow> string \<Rightarrow> u64 \<Rightarrow> u64 \<Rightarrow> u64 \<Rightarrow> rate_limiter \<Rightarrow> bool option \<times> rate_limiter" where
  "rl_check now key max_requests period_secs penalty_secs rl =
     (if max_requests = 0 then (Some False, rl)
      else if tbl_get rl key = None \<and> MAX_RATE_LIMIT_BUCKETS \<le> tbl_len rl then (Some False, rl)
      else
        (let b = unwrap_or (tbl_get rl key) (new_bucket now max_requests);
             (res, b') = bucket_check now max_requests period_secs penalty_secs b
         in (res, tbl_put key b' rl)))"

definition KEEP_MARGIN :: rat where
  "KEEP_MARGIN = f64_round (1 / 1000)"

definition rl_keep :: "instant \<Rightarrow> rate_bucket \<Rightarrow> bool" where
  "rl_keep now b =
     (case blocked_until b of
        Some u \<Rightarrow> now < u \<or> tokens b < f64_sub (max_tokens b) KEEP_MARGIN
      | None \<Rightarrow> tokens b < f64_sub (max_tokens b) KEEP_MARGIN)"

definition rl_cleanup :: "instant \<Rightarrow> rate_limiter \<Rightarrow> rate_limiter" where
  "rl_cleanup now rl = tbl_retain (\<lambda>_ b. rl_keep now b) rl"

section \<open>Invariant\<close>

definition bucket_ok :: "rate_bucket \<Rightarrow> bool" where
  "bucket_ok b =
     (0 \<le> tokens b \<and> 1 \<le> max_tokens b
      \<and> (max_tokens b \<le> 2 ^ 53 \<longrightarrow> tokens b \<le> max_tokens b - 1 \<or> tokens b < 1))"

definition rl_inv :: "rate_limiter \<Rightarrow> bool" where
  "rl_inv rl = (tbl_wf rl \<and> tbl_len rl \<le> MAX_RATE_LIMIT_BUCKETS
                \<and> (\<forall>k b. tbl_get rl k = Some b \<longrightarrow> bucket_ok b))"

lemma u64_as_f64_ge1: "n \<noteq> 0 \<Longrightarrow> 1 \<le> u64_as_f64 n"
  using nat_as_f64_ge [of 1 "unat n"] unat_gt_0 [of n] by (simp add: u64_as_f64_def)

lemma u64_as_f64_nonneg [simp]: "0 \<le> u64_as_f64 n"
  by (simp add: u64_as_f64_def)

lemma u64_as_f64_float [simp]: "f64_round (u64_as_f64 n) = u64_as_f64 n"
  by (simp add: u64_as_f64_def nat_as_f64_def)

lemma refill_rate_nonneg [simp]: "0 \<le> refill_rate m p"
  by (simp add: refill_rate_def)

lemma as_secs_f64_nonneg [simp]: "0 \<le> as_secs_f64 d"
  by (simp add: as_secs_f64_def)

lemma as_secs_f64_0 [simp]: "as_secs_f64 0 = 0"
  by (simp add: as_secs_f64_def f64_ops)

text \<open>
  The refilled count is a float, so it is decremented exactly as long as the capacity is at
  most \<open>2 ^ 53\<close>.
\<close>

definition refilled :: "instant \<Rightarrow> u64 \<Rightarrow> u64 \<Rightarrow> rate_bucket \<Rightarrow> rat" where
  "refilled now m per b =
     min (f64_add (tokens b) (f64_mul (as_secs_f64 (now - last_check b)) (refill_rate m per))) (u64_as_f64 m)"

lemma refilled_float [simp]: "f64_round (refilled now m per b) = refilled now m per b"
  by (simp add: refilled_def min_def f64_add_def)

lemma refilled_nonneg: "0 \<le> tokens b \<Longrightarrow> 0 \<le> refilled now m per b"
  by (simp add: refilled_def)

lemma refilled_le: "refilled now m per b \<le> u64_as_f64 m"
  by (simp add: refilled_def)

lemma refilled_minus_1:
  assumes "1 \<le> refilled now m per b" and "u64_as_f64 m \<le> 2 ^ 53"
  shows "f64_sub (refilled now m per b) 1 = refilled now m per b - 1"
  using f64.rnd_minus_1 [of "refilled now m per b"] assms refilled_le [of now m per b]
  by (simp add: f64_sub_def)

lemma bucket_check_open:
  assumes "blocked_until b = None"
  shows "bucket_check now m per pen b =
     (let tk = refilled now m per b;
          b2 = b\<lparr>tokens := tk, last_check := now, max_tokens := u64_as_f64 m\<rparr>
      in if 1 \<le> tk then (Some True, b2\<lparr>tokens := f64_sub tk 1\<rparr>)
         else case instant_add now (from_secs (unat pen)) of
             None \<Rightarrow> (None, b2)
           | Some u \<Rightarrow> (Some False, b2\<lparr>blocked_until := Some u\<rparr>))"
  using assms by (simp add: bucket_check_def refilled_def Let_def)

lemma bucket_check_unblock:
  assumes "blocked_until b = Some u" and "u \<le> now"
  shows "bucket_check now m per pen b =
     bucket_check now m per pen (b\<lparr>blocked_until := None, tokens := u64_as_f64 m, last_check := now\<rparr>)"
  using assms by (simp add: bucket_check_def Let_def)

lemma bucket_check_blocked:
  "blocked_until b = Some u \<Longrightarrow> now < u \<Longrightarrow> bucket_check now m per pen b = (Some False, b)"
  by (simp add: bucket_check_def)

lemma bucket_check_open_ok:
  assumes "blocked_until b = None" and "0 \<le> tokens b" and "m \<noteq> 0"
  shows "bucket_ok (snd (bucket_check now m per pen b))"
proof -
  let ?tk = "refilled now m per b"
  have c: "1 \<le> u64_as_f64 m" using assms(3) by (rule u64_as_f64_ge1)
  have "0 \<le> f64_sub ?tk 1" if "1 \<le> ?tk" using that by (simp add: f64_sub_def f64.rnd_nonneg)
  moreover have "f64_sub ?tk 1 \<le> u64_as_f64 m - 1" if "1 \<le> ?tk" "u64_as_f64 m \<le> 2 ^ 53"
    using refilled_minus_1 [OF that] refilled_le [of now m per b] by simp
  ultimately show ?thesis
    using c refilled_nonneg [OF assms(2), of now m per]
    by (auto simp: bucket_check_open [OF assms(1)] bucket_ok_def Let_def split: option.splits)
qed

lemma bucket_check_ok:
  assumes "0 \<le> tokens b" and "m \<noteq> 0" and "blocked_until b \<noteq> None \<Longrightarrow> bucket_ok b"
  shows "bucket_ok (snd (bucket_check now m per pen b))"
proof (cases "blocked_until b")
  case None
  then show ?thesis using assms by (intro bucket_check_open_ok)
next
  case (Some u)
  show ?thesis
  proof (cases "now < u")
    case True
    with Some assms(3) show ?thesis by (simp add: bucket_check_blocked)
  next
    case False
    then have "u \<le> now" by simp
    with Some show ?thesis using assms(2) by (subst bucket_check_unblock) (auto intro: bucket_check_open_ok)
  qed
qed

lemma new_bucket_nonneg [simp]: "0 \<le> tokens (new_bucket now m)" "blocked_until (new_bucket now m) = None"
  by (simp_all add: new_bucket_def)

lemma rl_check_inv [inv_intros]:
  assumes "rl_inv rl"
  shows "rl_inv (snd (rl_check now key m per pen rl))"
proof (cases "m = 0 \<or> (tbl_get rl key = None \<and> MAX_RATE_LIMIT_BUCKETS \<le> tbl_len rl)")
  case True
  with assms show ?thesis by (auto simp: rl_check_def)
next
  case False
  let ?b = "unwrap_or (tbl_get rl key) (new_bucket now m)"
  let ?b' = "snd (bucket_check now m per pen ?b)"
  have eq: "snd (rl_check now key m per pen rl) = tbl_put key ?b' rl"
    using False by (auto simp: rl_check_def Let_def split: prod.splits)
  have wf: "tbl_wf rl" and len: "tbl_len rl \<le> MAX_RATE_LIMIT_BUCKETS"
    and all: "\<And>k b. tbl_get rl k = Some b \<Longrightarrow> bucket_ok b"
    using assms by (auto simp: rl_inv_def)
  have "bucket_ok ?b'"
    using False all [of key] by (intro bucket_check_ok) (auto simp: bucket_ok_def unwrap_or_def split: option.splits)
  moreover have "tbl_len (tbl_put key ?b' rl) \<le> MAX_RATE_LIMIT_BUCKETS"
    using tbl.capped_put [OF wf len, of key] False by simp
  ultimately show ?thesis using wf all unfolding eq rl_inv_def by auto
qed

lemma rl_cleanup_inv [inv_intros]: "rl_inv rl \<Longrightarrow> rl_inv (rl_cleanup now rl)"
  using tbl.len_retain [of rl "\<lambda>_ b. rl_keep now b"]
  by (auto simp: rl_inv_def rl_cleanup_def split: option.splits if_splits)

section \<open>The limiter as a keyed limiter\<close>

datatype rl_op = RlCheck instant string u64 u64 u64 | RlCleanup instant

fun rl_step :: "rl_op \<Rightarrow> rate_limiter \<Rightarrow> rate_limiter" where
  "rl_step (RlCheck now key m per pen) rl = snd (rl_check now key m per pen rl)"
| "rl_step (RlCleanup now) rl = rl_cleanup now rl"

fun rl_target :: "rl_op \<Rightarrow> string option" where
  "rl_target (RlCheck now key m per pen) = Some key"
| "rl_target (RlCleanup now) = None"

lemma rl_check_frame:
  "tbl_wf rl \<Longrightarrow> k' \<noteq> key \<Longrightarrow> tbl_get (snd (rl_check now key m per pen rl)) k' = tbl_get rl k'"
  by (auto simp: rl_check_def Let_def split: prod.splits)

interpretation rl: keyed_limiter rate_limiter_new rl_step rl_target tbl_get rl_inv
proof (unfold_locales, goal_cases)
  case 1
  show ?case by (simp add: rl_inv_def rate_limiter_new_def)
next
  case (2 s op)
  then show ?case by (cases op) (auto intro: inv_intros)
next
  case (3 s op k k')
  then show ?case by (cases op) (auto simp: rl_check_frame rl_inv_def)
qed


section \<open>How many requests pass\<close>

lemmas rl_eval = rl_check_def bucket_check_def new_bucket_def Let_def u64_as_f64_def f64_ops f64.rnd_numeral
  tbl_defs MAX_RATE_LIMIT_BUCKETS_def refill_rate_def instant_add_def from_secs_def instant_max_def
  NANOS_PER_SEC_def

fun rl_checks ::
    "string \<Rightarrow> u64 \<Rightarrow> u64 \<Rightarrow> u64 \<Rightarrow> instant list \<Rightarrow> rate_limiter \<Rightarrow> bool option list \<times> rate_limiter" where
  "rl_checks key m per pen [] rl = ([], rl)"
| "rl_checks key m per pen (t # ts) rl =
     (let (r, rl1) = rl_check t key m per pen rl; (rs, rl2) = rl_checks key m per pen ts rl1
      in (r # rs, rl2))"

lemma rl_checks_Cons:
  "fst (rl_checks key m per pen (t # ts) rl)
     = fst (rl_check t key m per pen rl) # fst (rl_checks key m per pen ts (snd (rl_check t key m per pen rl)))"
  by (simp add: Let_def split: prod.splits)

lemma rl_check_known:
  assumes "tbl_wf rl" and "tbl_get rl key = Some b" and "m \<noteq> 0"
  shows "fst (rl_check now key m per pen rl) = fst (bucket_check now m per pen b)"
    and "tbl_get (snd (rl_check now key m per pen rl)) key = Some (snd (bucket_check now m per pen b))"
  using assms by (auto simp: rl_check_def Let_def split: prod.splits)

lemma rl_check_wf: "tbl_wf rl \<Longrightarrow> tbl_wf (snd (rl_check now key m per pen rl))"
  by (auto simp: rl_check_def Let_def split: prod.splits)

definition ROUND :: rat where
  "ROUND = 1 + 1 / 2 ^ 53"

lemma ROUND_ge1 [simp]: "1 \<le> ROUND" "0 \<le> ROUND"
  by (simp_all add: ROUND_def)

lemma round_le: "0 \<le> a \<Longrightarrow> a \<le> b \<Longrightarrow> f64_round a \<le> b * ROUND"
  using f64.rnd_upper [of a] mult_right_mono [of a b ROUND] by (simp add: ROUND_def)

text \<open>The measured time exceeds the true one by at most two roundings.\<close>

definition seconds :: "duration \<Rightarrow> rat" where
  "seconds d = of_nat d / of_nat NANOS_PER_SEC"

lemma seconds_add: "a \<le> b \<Longrightarrow> b \<le> c \<Longrightarrow> seconds (c - b) + seconds (b - a) = seconds (c - a)"
  by (simp add: seconds_def add_divide_distrib [symmetric] of_nat_diff)

lemma seconds_nonneg [simp]: "0 \<le> seconds d"
  by (simp add: seconds_def)

lemma as_secs_f64_upper: "as_secs_f64 d \<le> seconds d * ROUND ^ 2"
proof -
  let ?s = "of_nat (d div NANOS_PER_SEC) :: rat" and ?n = "of_nat (d mod NANOS_PER_SEC) :: rat" and ?N = "of_nat NANOS_PER_SEC :: rat"
  have N: "nat_as_f64 NANOS_PER_SEC = ?N"
    unfolding nat_as_f64_def by (intro f64.rnd_of_nat) (simp add: NANOS_PER_SEC_def)
  have "d mod NANOS_PER_SEC \<le> 2 ^ 53"
    by (rule order_trans [of _ NANOS_PER_SEC]) (simp_all add: NANOS_PER_SEC_def less_imp_le)
  then have n: "nat_as_f64 (d mod NANOS_PER_SEC) = ?n"
    unfolding nat_as_f64_def by (rule f64.rnd_of_nat)
  have "of_nat d = (of_nat (d div NANOS_PER_SEC * NANOS_PER_SEC + d mod NANOS_PER_SEC) :: rat)"
    by (simp only: div_mult_mod_eq)
  also have "\<dots> = ?s * ?N + ?n" by (simp only: of_nat_add of_nat_mult)
  finally have d: "seconds d = ?s + ?n / ?N"
    by (simp only: seconds_def add_divide_distrib) (simp add: NANOS_PER_SEC_def)
  have "f64_round ?s \<le> ?s * ROUND" "f64_round (?n / ?N) \<le> ?n / ?N * ROUND"
    by (rule round_le; simp)+
  then have "f64_round ?s + f64_round (?n / ?N) \<le> seconds d * ROUND"
    by (simp add: d distrib_right)
  then have "f64_round (f64_round ?s + f64_round (?n / ?N)) \<le> seconds d * ROUND * ROUND"
    by (intro round_le) (simp_all add: f64.rnd_nonneg)
  then show ?thesis
    by (simp add: as_secs_f64_def f64_add_def f64_div_def N n power2_eq_square mult.assoc) (simp add: nat_as_f64_def)
qed

lemma refilled_upper:
  assumes "0 \<le> tokens b" and "tokens b \<le> u64_as_f64 m"
  shows "refilled now m per b
           \<le> tokens b + u64_as_f64 m / 2 ^ 53 + seconds (now - last_check b) * refill_rate m per * ROUND ^ 4"
proof -
  let ?d = "now - last_check b" and ?r = "refill_rate m per"
  have "f64_mul (as_secs_f64 ?d) ?r \<le> as_secs_f64 ?d * ?r * ROUND"
    unfolding f64_mul_def by (rule round_le) simp_all
  also have "\<dots> \<le> seconds ?d * ROUND ^ 2 * ?r * ROUND"
    by (intro mult_right_mono as_secs_f64_upper) simp_all
  finally have x: "f64_mul (as_secs_f64 ?d) ?r \<le> seconds ?d * ?r * ROUND ^ 3"
    by (simp add: eval_nat_numeral mult_ac)
  have "refilled now m per b \<le> f64_round (tokens b + f64_mul (as_secs_f64 ?d) ?r)"
    by (simp add: refilled_def f64_add_def)
  also have "\<dots> \<le> (tokens b + seconds ?d * ?r * ROUND ^ 3) * ROUND"
    using assms(1) x by (intro round_le) simp_all
  also have "\<dots> = tokens b * ROUND + seconds ?d * ?r * ROUND ^ 4"
    by (simp add: eval_nat_numeral algebra_simps)
  also have "tokens b * ROUND \<le> tokens b + u64_as_f64 m / 2 ^ 53"
    using assms(2) by (simp add: ROUND_def distrib_left divide_right_mono)
  finally show ?thesis by simp
qed

lemma bucket_check_allowed:
  assumes "bucket_check now m per pen b = (Some True, b')" and "blocked_until b = None"
  shows "blocked_until b' = None" and "last_check b' = now"
    and "u64_as_f64 m \<le> 2 ^ 53 \<Longrightarrow> tokens b' + 1 = refilled now m per b"
    and "1 \<le> refilled now m per b"
  using assms refilled_minus_1 [of now m per b]
  by (auto simp: bucket_check_open Let_def split: if_splits option.splits)

lemma rl_checks_bucket_bound:
  assumes "tbl_wf rl" and "tbl_get rl key = Some b" and "blocked_until b = None" and "0 \<le> tokens b"
    and "m \<noteq> 0" and "sorted (last_check b # ts)"
    and "set (fst (rl_checks key m per pen ts rl)) \<subseteq> {Some True}"
    and "tokens b \<le> u64_as_f64 m" and "u64_as_f64 m \<le> 2 ^ 53"
  shows "of_nat (length ts) * (1 - u64_as_f64 m / 2 ^ 53)
           \<le> tokens b + seconds (last (last_check b # ts) - last_check b) * refill_rate m per * ROUND ^ 4"
  using assms
proof (induction ts arbitrary: rl b)
  case Nil
  then show ?case by (simp add: seconds_def)
next
  case (Cons t ts)
  obtain r b' where bc: "bucket_check t m per pen b = (r, b')" by fastforce
  let ?rl = "snd (rl_check t key m per pen rl)" and ?rate = "refill_rate m per * ROUND ^ 4"
  note known = rl_check_known [OF Cons.prems(1,2,5), of t per pen]
  have r: "r = Some True" and rest: "set (fst (rl_checks key m per pen ts ?rl)) \<subseteq> {Some True}"
    using Cons.prems(7) bc known(1) unfolding rl_checks_Cons by auto
  note allowed = bucket_check_allowed [OF bc [unfolded r] Cons.prems(3)]
  have tk: "tokens b' + 1 = refilled t m per b" using allowed(3) Cons.prems(9) .
  have "0 \<le> tokens b'" "tokens b' \<le> u64_as_f64 m"
    using tk allowed(4) refilled_le [of t m per b] by linarith+
  then have IH: "of_nat (length ts) * (1 - u64_as_f64 m / 2 ^ 53)
      \<le> tokens b' + seconds (last (t # ts) - t) * ?rate"
    using Cons.IH [of ?rl b'] rest known(2) bc allowed(1,2) Cons.prems(1,5,6,9)
    by (simp add: rl_check_wf mult.assoc)
  have le: "last_check b \<le> t" and srt: "sorted (t # ts)" using Cons.prems(6) by auto
  have lst: "t \<le> last (t # ts)" using srt by (cases ts) (auto simp: last_in_set)
  have "seconds (last (t # ts) - last_check b) * ?rate
      = seconds (last (t # ts) - t) * ?rate + seconds (t - last_check b) * ?rate"
    using seconds_add [OF le lst] by (simp only: distrib_right [symmetric])
  with IH tk refilled_upper [OF Cons.prems(4,8), of t per] show ?case
    by (simp add: distrib_right mult.assoc)
qed

text \<open>
  Rate bound: starting from a client the limiter has not seen, a run of checks that are
  all allowed is no longer than the bucket's capacity plus what refills between the first and
  the last of them: at most \<open>max_requests + rate * elapsed\<close> requests pass, up to the rounding of
  the floating-point arithmetic. The rounding can add \<open>max_requests / 2 ^ 53\<close> of a request for each
  request and four relative errors of \<open>2 ^ -53\<close> to the time.
\<close>

theorem rate_limit_bound:
  assumes "rl_inv rl" and "tbl_get rl key = None" and "max_requests \<noteq> 0" and "sorted (t # ts)"
    and "set (fst (rl_checks key max_requests period penalty (t # ts) rl)) \<subseteq> {Some True}"
  shows "of_nat (length (t # ts)) * (1 - u64_as_f64 max_requests / 2 ^ 53)
           \<le> u64_as_f64 max_requests
             + seconds (last (t # ts) - t) * refill_rate max_requests period * (1 + 1 / 2 ^ 53) ^ 4"
proof (cases "u64_as_f64 max_requests \<le> 2 ^ 53")
  case True
  let ?b = "new_bucket t max_requests"
  let ?rl = "snd (rl_check t key max_requests period penalty rl)"
  have wf: "tbl_wf rl" using assms(1) by (simp add: rl_inv_def)
  have first: "fst (rl_check t key max_requests period penalty rl) = Some True"
    and rest: "set (fst (rl_checks key max_requests period penalty ts ?rl)) \<subseteq> {Some True}"
    using assms(5) unfolding rl_checks_Cons by auto
  obtain r b' where bc: "bucket_check t max_requests period penalty ?b = (r, b')" by fastforce
  have r: "r = Some True" and get: "tbl_get ?rl key = Some b'"
    using first wf assms(2,3) bc by (auto simp: rl_check_def Let_def split: if_splits)
  note allowed = bucket_check_allowed [OF bc [unfolded r] new_bucket_nonneg(2)]
  have tk: "0 \<le> tokens b'" "tokens b' + 1 \<le> u64_as_f64 max_requests"
    using allowed(3) [OF True] allowed(4) refilled_le [of t max_requests period ?b] by linarith+
  have "of_nat (length ts) * (1 - u64_as_f64 max_requests / 2 ^ 53)
      \<le> tokens b' + seconds (last (t # ts) - t) * refill_rate max_requests period * ROUND ^ 4"
    using rl_checks_bucket_bound [of ?rl key b' max_requests ts period penalty]
      wf get allowed(1,2) tk assms(3,4) rest True by (simp add: rl_check_wf)
  moreover have "of_nat (length (t # ts)) * (1 - u64_as_f64 max_requests / 2 ^ 53)
      \<le> 1 + of_nat (length ts) * (1 - u64_as_f64 max_requests / 2 ^ 53)"
    by (simp add: distrib_right)
  ultimately show ?thesis using tk(2) unfolding ROUND_def by linarith
next
  case False
  then have "of_nat (length (t # ts)) * (1 - u64_as_f64 max_requests / 2 ^ 53) \<le> 0"
    by (intro mult_nonneg_nonpos) simp_all
  also have "\<dots> \<le> u64_as_f64 max_requests
             + seconds (last (t # ts) - t) * refill_rate max_requests period * (1 + 1 / 2 ^ 53) ^ 4" by simp
  finally show ?thesis .
qed

theorem rate_limit_bound_witness:
  "rl_inv [] \<and> of_nat (length [0::nat, 0]) * (1 - u64_as_f64 2 / 2 ^ 53)
     \<le> u64_as_f64 2 + seconds (last [0::nat, 0] - 0) * refill_rate 2 1 * (1 + 1 / 2 ^ 53) ^ 4"
proof -
  have inv: "rl_inv []" using rl.inv_init by (simp add: rate_limiter_new_def)
  have "set (fst (rl_checks ''r:1.2.3.4'' 2 1 1 [0, 0] [])) \<subseteq> {Some True}"
    by (simp add: rl_eval)
  from rate_limit_bound [OF inv _ _ _ this] inv show ?thesis by simp
qed

lemma refilled_lower:
  assumes "0 \<le> tokens b" and "f64_round (tokens b) = tokens b" and "tokens b \<le> u64_as_f64 m"
  shows "tokens b \<le> refilled now m per b"
proof -
  have "f64_round (tokens b)
      \<le> f64_round (tokens b + f64_mul (as_secs_f64 (now - last_check b)) (refill_rate m per))"
    using assms(1) by (intro f64.rnd_mono) simp_all
  with assms(2,3) show ?thesis by (simp add: refilled_def f64_add_def)
qed

lemma bucket_check_full_enough:
  assumes "blocked_until b = None" and "1 \<le> tokens b" and "f64_round (tokens b) = tokens b"
    and "tokens b \<le> u64_as_f64 m" and "u64_as_f64 m \<le> 2 ^ 53"
  obtains b' where "bucket_check now m per pen b = (Some True, b')" and "blocked_until b' = None"
    and "tokens b - 1 \<le> tokens b'" and "f64_round (tokens b') = tokens b'" and "tokens b' \<le> u64_as_f64 m"
proof -
  let ?tk = "refilled now m per b"
  have tk: "tokens b \<le> ?tk" using assms by (intro refilled_lower) simp_all
  with assms(2) have ge: "1 \<le> ?tk" by simp
  show ?thesis
  proof (rule that)
    show "bucket_check now m per pen b =
        (Some True, b\<lparr>tokens := f64_sub ?tk 1, last_check := now, max_tokens := u64_as_f64 m\<rparr>)"
      using ge by (simp add: bucket_check_open [OF assms(1)] Let_def)
  qed (use assms(1) tk refilled_minus_1 [OF ge assms(5)] refilled_le [of now m per b] in
        \<open>simp_all add: f64_sub_def\<close>)
qed

lemma rl_checks_bucket_burst:
  assumes "tbl_wf rl" and "tbl_get rl key = Some b" and "m \<noteq> 0" and "u64_as_f64 m \<le> 2 ^ 53"
    and "blocked_until b = None" and "f64_round (tokens b) = tokens b" and "tokens b \<le> u64_as_f64 m"
    and "of_nat (length ts) \<le> tokens b"
  shows "fst (rl_checks key m per pen ts rl) = replicate (length ts) (Some True)"
  using assms
proof (induction ts arbitrary: rl b)
  case (Cons t ts)
  have ge: "1 \<le> tokens b" using Cons.prems(8) by simp
  obtain b' where bc: "bucket_check t m per pen b = (Some True, b')" and b': "blocked_until b' = None"
    "tokens b - 1 \<le> tokens b'" "f64_round (tokens b') = tokens b'" "tokens b' \<le> u64_as_f64 m"
    by (rule bucket_check_full_enough [OF Cons.prems(5) ge Cons.prems(6,7,4)])
  note known = rl_check_known [OF Cons.prems(1-3), of t per pen, unfolded bc fst_conv snd_conv]
  have "fst (rl_checks key m per pen ts (snd (rl_check t key m per pen rl))) = replicate (length ts) (Some True)"
    using Cons.prems(8) b' by (intro Cons.IH [OF rl_check_wf [OF Cons.prems(1)] known(2) Cons.prems(3,4)]) simp_all
  with known(1) show ?case by (simp only: rl_checks_Cons length_Cons replicate_Suc)
qed simp

text \<open>
  No false alarm: a client that is new to the limiter has its first \<open>max_requests\<close> checks admitted,
  however closely they follow each other, provided the table has room for its bucket. Limits up to
  \<open>2 ^ 53\<close> are exact in floating point.
\<close>

theorem burst_admitted:
  assumes "rl_inv rl" and "tbl_get rl key = None" and "tbl_len rl < MAX_RATE_LIMIT_BUCKETS"
    and "unat max_requests \<le> 2 ^ 53" and "length ts \<le> unat max_requests"
  shows "fst (rl_checks key max_requests period penalty ts rl) = replicate (length ts) (Some True)"
proof (cases ts)
  case (Cons t us)
  let ?b = "new_bucket t max_requests" and ?rl = "snd (rl_check t key max_requests period penalty rl)"
  have wf: "tbl_wf rl" using assms(1) by (simp add: rl_inv_def)
  have cap: "u64_as_f64 max_requests = of_nat (unat max_requests)"
    unfolding u64_as_f64_def nat_as_f64_def using assms(4) by (rule f64.rnd_of_nat)
  have len: "(of_nat (length ts) :: rat) \<le> of_nat (unat max_requests)" using assms(5) by (simp only: of_nat_le_iff)
  have "(of_nat (unat max_requests) :: rat) \<le> of_nat (2 ^ 53)" using assms(4) by (simp only: of_nat_le_iff)
  then have small: "u64_as_f64 max_requests \<le> 2 ^ 53" by (simp add: cap)
  have tb: "tokens ?b = u64_as_f64 max_requests" by (simp add: new_bucket_def)
  have m: "max_requests \<noteq> 0" using assms(5) Cons by auto
  obtain b' where bc: "bucket_check t max_requests period penalty ?b = (Some True, b')" and b': "blocked_until b' = None"
    "tokens ?b - 1 \<le> tokens b'" "f64_round (tokens b') = tokens b'" "tokens b' \<le> u64_as_f64 max_requests"
    using u64_as_f64_ge1 [OF m] small by (elim bucket_check_full_enough [rotated 5]) (simp_all add: tb)
  have "fst (rl_check t key max_requests period penalty rl) = Some True" and get: "tbl_get ?rl key = Some b'"
    using wf assms(2,3) m bc by (simp_all add: rl_check_def)
  moreover have "fst (rl_checks key max_requests period penalty us ?rl) = replicate (length us) (Some True)"
    using len b' by (intro rl_checks_bucket_burst [OF rl_check_wf [OF wf] get m small]) (simp_all add: Cons tb cap)
  ultimately show ?thesis by (simp only: Cons rl_checks_Cons length_Cons replicate_Suc)
qed simp

theorem burst_admitted_witness:
  "fst (rl_checks ''r:1.2.3.4'' 3 60 30 [5, 5, 7] []) = replicate (length [5, 5, 7 :: instant]) (Some True)"
proof (rule burst_admitted)
  show "rl_inv []" using rl.inv_init by (simp add: rate_limiter_new_def)
  show "tbl_len ([] :: rate_limiter) < MAX_RATE_LIMIT_BUCKETS" by (simp add: tbl_len_def MAX_RATE_LIMIT_BUCKETS_def)
qed (simp_all add: tbl_get_def)

section \<open>Penalty\<close>

lemma bucket_check_exhausted:
  assumes "bucket_check now m per pen b = (Some False, b')" and "blocked_until b = None"
  shows "blocked_until b' = Some (now + from_secs (unat pen))"
  using assms by (auto simp: bucket_check_def Let_def instant_add_def split: if_splits option.splits)

lemma bucket_check_released:
  "blocked_until b = Some u \<Longrightarrow> u \<le> now \<Longrightarrow> m \<noteq> 0 \<Longrightarrow> fst (bucket_check now m per pen b) = Some True"
  using u64_as_f64_ge1 [of m] by (auto simp: bucket_check_def Let_def f64_add_def f64_mul_def)

text \<open>
  Penalty: when a check finds the bucket empty, every check of that key in the following
  \<open>penalty\<close> seconds is refused and leaves the bucket alone, and the first check after them
  is admitted, whatever limits those later checks use.
\<close>

theorem rate_limit_penalty:
  assumes "tbl_wf rl" and "tbl_get rl key = Some b" and "blocked_until b = None" and "m \<noteq> 0"
    and "rl_check now key m per penalty rl = (Some False, rl')" and "m' \<noteq> 0"
  shows "(t < now + from_secs (unat penalty) \<longrightarrow>
            fst (rl_check t key m' per' pen' rl') = Some False
            \<and> tbl_get (snd (rl_check t key m' per' pen' rl')) key = tbl_get rl' key)
       \<and> (now + from_secs (unat penalty) \<le> t \<longrightarrow> fst (rl_check t key m' per' pen' rl') = Some True)"
proof -
  obtain r b' where bc: "bucket_check now m per penalty b = (r, b')" by fastforce
  have r: "r = Some False" and wf: "tbl_wf rl'" and get: "tbl_get rl' key = Some b'"
    using rl_check_known [OF assms(1,2,4), of now per penalty] assms(5) bc
      rl_check_wf [OF assms(1), of now key m per penalty] by auto
  note blk = bucket_check_exhausted [OF bc [unfolded r] assms(3)]
  note known = rl_check_known [OF wf get assms(6), of t per' pen']
  show ?thesis
    using known get by (simp add: bucket_check_blocked [OF blk] bucket_check_released [OF blk _ assms(6)])
qed

definition empty_bucket :: rate_bucket where
  "empty_bucket = \<lparr>last_check = 0, tokens = 0, max_tokens = 5, blocked_until = None\<rparr>"

theorem rate_limit_penalty_witness:
  "\<exists>rl'. rl_check 0 ''k'' 5 10 30 [(''k'', empty_bucket)] = (Some False, rl')
     \<and> fst (rl_check (from_secs 29) ''k'' 5 10 30 rl') = Some False
     \<and> fst (rl_check (from_secs 30) ''k'' 5 10 30 rl') = Some True"
proof -
  let ?rl = "[(''k'', empty_bucket)]" and ?rl' = "[(''k'', empty_bucket\<lparr>blocked_until := Some (from_secs 30)\<rparr>)]"
  have wf: "tbl_wf ?rl" and get: "tbl_get ?rl ''k'' = Some empty_bucket" by (simp_all add: tbl_defs)
  have c: "rl_check 0 ''k'' 5 10 30 ?rl = (Some False, ?rl')"
    by (simp add: rl_eval empty_bucket_def)
  have b: "blocked_until empty_bucket = None" by (simp add: empty_bucket_def)
  have n: "(5::u64) \<noteq> 0" by simp
  show ?thesis
    using c rate_limit_penalty [OF wf get b n c n, of "from_secs 29" 10 30]
      rate_limit_penalty [OF wf get b n c n, of "from_secs 30" 10 30]
    by (auto simp: from_secs_def NANOS_PER_SEC_def)
qed

section \<open>Cleanup\<close>

text \<open>
  The sweep compares the token count stored at the last check, which is never refilled
  while a client is idle, with the capacity. A completed check leaves at least one token
  missing, or less than one token, so a bucket of capacity two or more always passes the test
  that keeps it (up to \<open>2 ^ 52\<close>, where half a token is still representable).
\<close>

definition sized :: "rate_bucket \<Rightarrow> bool" where
  "sized b = (2 \<le> max_tokens b \<and> max_tokens b \<le> 2 ^ 52)"

lemma keep_threshold:
  assumes "2 \<le> c" and "c \<le> 2 ^ 52"
  shows "c - 1 < f64_sub c KEEP_MARGIN" and "1 \<le> f64_sub c KEEP_MARGIN"
proof -
  have "KEEP_MARGIN \<le> 1 / 1000 * (1 + 1 / 2 ^ 53)" unfolding KEEP_MARGIN_def by (rule f64.rnd_upper) simp
  also have "\<dots> \<le> 1 / 2" by simp
  finally have k: "KEEP_MARGIN \<le> 1 / 2" .
  have m: "f64_round (c - 1 / 2) \<le> f64_sub c KEEP_MARGIN"
    unfolding f64_sub_def using assms(1) k by (intro f64.rnd_mono) simp_all
  have "(c - 1 / 2) * (1 - 1 / 2 ^ 53) \<le> f64_round (c - 1 / 2)" using assms(1) by (intro f64.rnd_lower) simp
  moreover have "c - 1 < (c - 1 / 2) * (1 - 1 / 2 ^ 53)" using assms(2) by (simp add: field_simps)
  ultimately show "c - 1 < f64_sub c KEEP_MARGIN" using m by linarith
  have "1 \<le> f64_round (c - 1 / 2)" using assms(1) by (intro f64.rnd_ge1) simp
  with m show "1 \<le> f64_sub c KEEP_MARGIN" by linarith
qed

lemma rl_keep_ok:
  assumes "bucket_ok b" and "sized b"
  shows "rl_keep now b"
proof -
  have c: "2 \<le> max_tokens b" "max_tokens b \<le> 2 ^ 52" using assms(2) by (auto simp: sized_def)
  have "(2 :: rat) ^ 52 \<le> 2 ^ 53" by simp
  with c have "tokens b \<le> max_tokens b - 1 \<or> tokens b < 1"
    using assms(1) unfolding bucket_ok_def by (meson order_trans)
  with keep_threshold [OF c] have "tokens b < f64_sub (max_tokens b) KEEP_MARGIN" by linarith
  then show ?thesis by (simp add: rl_keep_def split: option.split)
qed

text \<open>
  The periodic sweep frees nothing: in every table that a sequence of checks and sweeps
  can produce, if all buckets have capacity between two and \<open>2 ^ 52\<close>, a sweep at any time, however long
  the clients have been idle, returns the table unchanged.
\<close>

theorem rl_cleanup_evicts_nothing:
  assumes "rl = fold rl_step ops rate_limiter_new"
    and "\<And>k b. tbl_get rl k = Some b \<Longrightarrow> sized b"
  shows "rl_cleanup now rl = rl"
proof -
  have "rl_inv rl" using rl.inv_reached assms(1) by simp
  with assms(2) show ?thesis
    unfolding rl_cleanup_def rl_inv_def by (intro tbl.retain_id) (auto intro: rl_keep_ok)
qed

theorem rl_cleanup_evicts_nothing_witness:
  "let rl = fold rl_step [RlCheck 0 ''k'' 50 30 30] rate_limiter_new
   in rl \<noteq> [] \<and> rl_cleanup (from_secs 1000000) rl = rl"
proof -
  let ?rl = "fold rl_step [RlCheck 0 ''k'' 50 30 30] rate_limiter_new"
  have eq: "?rl = [(''k'', \<lparr>last_check = 0, tokens = 49, max_tokens = 50, blocked_until = None\<rparr>)]"
    by (simp add: rl_eval rate_limiter_new_def)
  have "rl_cleanup (from_secs 1000000) ?rl = ?rl"
    by (rule rl_cleanup_evicts_nothing [OF refl], unfold eq) (auto simp: tbl_defs sized_def split: if_splits)
  with eq show ?thesis by (simp add: Let_def)
qed

lemma u64_as_f64_sized:
  assumes "2 \<le> unat m" and "unat m \<le> 2 ^ 52"
  shows "2 \<le> u64_as_f64 m" and "u64_as_f64 m \<le> 2 ^ 52"
proof -
  have "(2 :: nat) ^ 52 \<le> 2 ^ 53" by simp
  with assms(2) have "unat m \<le> 2 ^ 53" by (rule order_trans)
  then have m: "u64_as_f64 m = of_nat (unat m)" unfolding u64_as_f64_def nat_as_f64_def by (rule f64.rnd_of_nat)
  have "of_nat 2 \<le> (of_nat (unat m) :: rat)" "(of_nat (unat m) :: rat) \<le> of_nat (2 ^ 52)"
    using assms by (simp_all only: of_nat_le_iff)
  then show "2 \<le> u64_as_f64 m" and "u64_as_f64 m \<le> 2 ^ 52"
    unfolding m by (simp_all only: of_nat_numeral of_nat_power)
qed

lemma bucket_check_sized:
  "sized b \<Longrightarrow> 2 \<le> unat m \<Longrightarrow> unat m \<le> 2 ^ 52 \<Longrightarrow> sized (snd (bucket_check now m per pen b))"
  using u64_as_f64_sized [of m] by (auto simp: sized_def bucket_check_def Let_def split: option.split)

definition rl_full :: "rate_limiter \<Rightarrow> bool" where
  "rl_full rl = (rl_inv rl \<and> tbl_len rl = MAX_RATE_LIMIT_BUCKETS
                 \<and> (\<forall>k b. tbl_get rl k = Some b \<longrightarrow> sized b))"

fun rl_op_capacity :: "rl_op \<Rightarrow> bool" where
  "rl_op_capacity (RlCheck now k m per pen) = (2 \<le> unat m \<and> unat m \<le> 2 ^ 52)"
| "rl_op_capacity (RlCleanup now) = True"

lemma rl_full_check:
  assumes "rl_full rl" and "2 \<le> unat m" and "unat m \<le> 2 ^ 52"
  shows "rl_full (snd (rl_check now k m per pen rl))"
    and "tbl_get rl key = None \<Longrightarrow> tbl_get (snd (rl_check now k m per pen rl)) key = None"
proof -
  have inv: "rl_inv rl" and wf: "tbl_wf rl" and len: "tbl_len rl = MAX_RATE_LIMIT_BUCKETS"
    and cap: "\<And>k b. tbl_get rl k = Some b \<Longrightarrow> sized b"
    using assms(1) by (auto simp: rl_full_def rl_inv_def)
  have m: "m \<noteq> 0" using assms(2) by auto
  have "rl_full (snd (rl_check now k m per pen rl))
     \<and> (tbl_get rl key = None \<longrightarrow> tbl_get (snd (rl_check now k m per pen rl)) key = None)"
  proof (cases "tbl_get rl k")
    case None
    with assms(1) len m show ?thesis by (simp add: rl_check_def)
  next
    case (Some b)
    have eq: "snd (rl_check now k m per pen rl) = tbl_put k (snd (bucket_check now m per pen b)) rl"
      using Some m by (auto simp: rl_check_def Let_def split: prod.splits)
    have "sized (snd (bucket_check now m per pen b))"
      using cap [OF Some] assms(2,3) by (rule bucket_check_sized)
    moreover have "rl_inv (snd (rl_check now k m per pen rl))" using inv by (rule rl_check_inv)
    ultimately show ?thesis
      using wf len cap Some unfolding rl_full_def eq by (auto simp: tbl.len_put)
  qed
  then show "rl_full (snd (rl_check now k m per pen rl))"
    and "tbl_get rl key = None \<Longrightarrow> tbl_get (snd (rl_check now k m per pen rl)) key = None" by auto
qed

lemma rl_full_cleanup: "rl_full rl \<Longrightarrow> rl_cleanup now rl = rl"
  unfolding rl_cleanup_def rl_full_def rl_inv_def
  by (intro tbl.retain_id) (auto intro: rl_keep_ok)

lemma rl_full_step:
  assumes "rl_full rl" and "rl_op_capacity op"
  shows "rl_full (rl_step op rl) \<and> (tbl_get rl key = None \<longrightarrow> tbl_get (rl_step op rl) key = None)"
  using assms by (cases op) (auto simp: rl_full_cleanup rl_full_check)

lemma rl_full_run:
  assumes "rl_full rl" and "list_all rl_op_capacity ops" and "tbl_get rl key = None"
  shows "rl_full (fold rl_step ops rl) \<and> tbl_get (fold rl_step ops rl) key = None"
  using assms
proof (induction ops arbitrary: rl)
  case (Cons op ops)
  with rl_full_step [of rl op key] show ?case by simp
qed simp

text \<open>
  (C32) Exhaustion of the bucket table is permanent: once it holds 16384 buckets of capacity two
  or more (and at most \<open>2 ^ 52\<close>, as are those of the later checks), no sequence of later checks and sweeps makes room, and a client it does not know
  is refused at any later time, even if it has never sent a request before.
\<close>

theorem rl_full_refuses_newcomers:
  assumes "rl_full rl" and "tbl_get rl key = None" and "list_all rl_op_capacity ops"
  shows "fst (rl_check now key m per pen (fold rl_step ops rl)) = Some False"
  using rl_full_run [OF assms(1,3,2)] by (simp add: rl_full_def rl_check_def)

lemma show_nat_inj: "show_nat m = show_nat n \<Longrightarrow> m = n"
  by (metis digits_value_show_nat option.inject)

definition full_table :: rate_limiter where
  "full_table = map (\<lambda>i. (show_nat i, empty_bucket)) [0..<16384]"

lemma full_table_full: "rl_full full_table"
proof -
  have "distinct (map show_nat [0..<16384])"
    by (simp add: distinct_map inj_on_def show_nat_inj)
  then have wf: "tbl_wf full_table" by (simp add: full_table_def tbl_defs comp_def)
  have len: "tbl_len full_table = MAX_RATE_LIMIT_BUCKETS"
    by (simp add: full_table_def tbl_len_def MAX_RATE_LIMIT_BUCKETS_def)
  have all: "bucket_ok b \<and> sized b" if "tbl_get full_table k = Some b" for k b
  proof -
    from that have "b = empty_bucket"
      by (auto simp: full_table_def tbl_defs dest!: map_of_SomeD)
    then show ?thesis by (simp add: bucket_ok_def sized_def empty_bucket_def)
  qed
  show ?thesis using wf len all by (auto simp: rl_full_def rl_inv_def)
qed

theorem rl_full_refuses_newcomers_witness:
  "fst (rl_check (from_secs 3600) ''r:10.0.0.1'' 50 30 30
     (fold rl_step [RlCleanup (from_secs 60), RlCleanup (from_secs 120)] full_table)) = Some False"
proof -
  have "tbl_get full_table ''r:10.0.0.1'' = None"
  proof -
    have "CHR ''r'' \<notin> set (show_nat i)" for i
      using show_nat_digits [of "CHR ''r''" i] by (auto simp: to_digit_def)
    then have "''r:10.0.0.1'' \<noteq> show_nat i" for i by (metis list.set_intros(1))
    then show ?thesis by (simp add: full_table_def tbl_defs map_of_eq_None_iff image_iff)
  qed
  then show ?thesis by (intro rl_full_refuses_newcomers full_table_full) simp_all
qed

text \<open>
  Isolation: checks of other keys, in any number and order, leave a client's bucket as it
  was, so its next decision does not depend on them.
\<close>

theorem rl_isolation:
  assumes "rl_inv rl" and "\<forall>op \<in> set ops. \<exists>now k m per pen. op = RlCheck now k m per pen \<and> k \<noteq> key"
  shows "tbl_get (fold rl_step ops rl) key = tbl_get rl key"
proof (rule rl.isolation_run [OF assms(1)])
  fix op assume "op \<in> set ops"
  with assms(2) show "\<exists>k. rl_target op = Some k \<and> k \<noteq> key" by fastforce
qed

theorem rl_isolation_witness:
  "tbl_get (fold rl_step [RlCheck 5 ''b'' 1 1 1, RlCheck 6 ''b'' 1 1 1] [(''a'', empty_bucket)]) ''a''
     = Some empty_bucket"
proof -
  have "rl_inv [(''a'', empty_bucket)]"
    by (auto simp: rl_inv_def bucket_ok_def empty_bucket_def tbl_defs MAX_RATE_LIMIT_BUCKETS_def split: if_splits)
  from rl_isolation [OF this, of "[RlCheck 5 ''b'' 1 1 1, RlCheck 6 ''b'' 1 1 1]" "''a''"]
  show ?thesis by (simp add: tbl_get_def)
qed

end
