(* ===== verification/Audit_Log.thy ===== *)
theory Audit_Log
  imports Net_Addr
begin

text \<open>
  The audit log of \<^verbatim>\<open>src/audit.rs\<close>: events go through a bounded channel to a background task
  that appends one JSON line per event. Sending never waits: a full channel drops the event.
  The channel and the task are an event system with three kinds of steps; serialising an
  event and the outcome of the file operations are parameters.
\<close>

record audit_event =
  ae_timestamp :: string
  ae_event :: string
  ae_peer_ip :: string
  ae_method :: string
  ae_path :: string
  ae_user_agent :: string
  ae_user_role :: "string option"
  ae_identity :: "string option"
  ae_rule_name :: "string option"
  ae_rule_action :: "string option"
  ae_status :: u16
  ae_dry_run :: bool
  ae_message :: "string option"

definition audit_event_new :: "string \<Rightarrow> string \<Rightarrow> ip_addr \<Rightarrow> string \<Rightarrow> string \<Rightarrow> string \<Rightarrow> audit_event" where
  "audit_event_new timestamp event peer_ip meth path user_agent =
     \<lparr>ae_timestamp = timestamp, ae_event = event, ae_peer_ip = show_ip peer_ip, ae_method = meth,
      ae_path = path, ae_user_agent = user_agent, ae_user_role = None, ae_identity = None,
      ae_rule_name = None, ae_rule_action = None, ae_status = 0, ae_dry_run = False, ae_message = None\<rparr>"

text \<open>
  The sink: whether there is a sender at all, the events in the channel, whether the
  receiving task is alive, and the bytes appended to the log file so far.
\<close>

record audit_sink =
  au_tx :: bool
  au_queue :: "audit_event list"
  au_receiving :: bool
  au_file :: bytes

definition AUDIT_CHANNEL_CAPACITY :: nat where
  "AUDIT_CHANNEL_CAPACITY = 4096"

definition audit_disabled :: audit_sink where
  "audit_disabled = \<lparr>au_tx = False, au_queue = [], au_receiving = False, au_file = []\<rparr>"

definition audit_spawn :: "bytes \<Rightarrow> audit_sink" where
  "audit_spawn content = \<lparr>au_tx = True, au_queue = [], au_receiving = True, au_file = content\<rparr>"

definition audit_is_enabled :: "audit_sink \<Rightarrow> bool" where
  "audit_is_enabled s = au_tx s"

definition audit_send :: "audit_event \<Rightarrow> audit_sink \<Rightarrow> audit_sink" where
  "audit_send ev s =
     (if au_tx s \<and> au_receiving s \<and> length (au_queue s) < AUDIT_CHANNEL_CAPACITY
      then s\<lparr>au_queue := au_queue s @ [ev]\<rparr> else s)"

text \<open>
  One event written: serialised, a line feed appended, written and flushed. \<open>io\<close> is the fate of
  the write: \<^const>\<open>None\<close> if \<^verbatim>\<open>write_all\<close> and \<^verbatim>\<open>flush\<close> succeed, \<open>Some k\<close> if the error comes after
  \<open>k\<close> bytes have reached the file.
\<close>

definition write_event ::
    "(audit_event \<Rightarrow> string option) \<Rightarrow> nat option \<Rightarrow> audit_event \<Rightarrow> bytes \<Rightarrow> (string + unit) \<times> bytes" where
  "write_event to_json io ev content =
     (case to_json ev of
        None \<Rightarrow> (Inl ''invalid data'', content)
      | Some l \<Rightarrow>
          (let line = l @ [CHR 0x0A]
           in case io of None \<Rightarrow> (Inr (), content @ line) | Some k \<Rightarrow> (Inl ''write failed'', content @ take k line)))"

text \<open>The steps of the task: the file cannot be opened and the task ends; or it takes an event.\<close>

definition audit_open_failed :: "audit_sink \<Rightarrow> audit_sink" where
  "audit_open_failed s = s\<lparr>au_receiving := False, au_queue := []\<rparr>"

definition audit_recv :: "(audit_event \<Rightarrow> string option) \<Rightarrow> nat option \<Rightarrow> audit_sink \<Rightarrow> audit_sink" where
  "audit_recv to_json io s =
     (if au_receiving s then
        (case au_queue s of
           [] \<Rightarrow> s
         | ev # rest \<Rightarrow> s\<lparr>au_queue := rest, au_file := snd (write_event to_json io ev (au_file s))\<rparr>)
      else s)"

section \<open>Runs of the log\<close>

datatype audit_op = Send audit_event | OpenFailed | Recv "nat option"

fun audit_step :: "(audit_event \<Rightarrow> string option) \<Rightarrow> audit_op \<Rightarrow> audit_sink \<Rightarrow> audit_sink" where
  "audit_step to_json (Send ev) s = audit_send ev s"
| "audit_step to_json OpenFailed s = audit_open_failed s"
| "audit_step to_json (Recv io) s = audit_recv to_json io s"

definition audit_run :: "(audit_event \<Rightarrow> string option) \<Rightarrow> audit_op list \<Rightarrow> audit_sink \<Rightarrow> audit_sink" where
  "audit_run to_json ops s = fold (audit_step to_json) ops s"

fun sent :: "audit_op list \<Rightarrow> audit_event list" where
  "sent [] = []"
| "sent (Send ev # ops) = ev # sent ops"
| "sent (_ # ops) = sent ops"

definition log_line :: "(audit_event \<Rightarrow> string option) \<Rightarrow> audit_event \<Rightarrow> bytes" where
  "log_line to_json ev = (case to_json ev of None \<Rightarrow> [] | Some l \<Rightarrow> l @ [CHR 0x0A])"

text \<open>
  What the file gets for an event and the fate of its write: its whole line, or the part of the line
  that reached the file before the error.
\<close>

fun log_piece :: "(audit_event \<Rightarrow> string option) \<Rightarrow> audit_event \<times> nat option \<Rightarrow> bytes" where
  "log_piece to_json (ev, None) = log_line to_json ev"
| "log_piece to_json (ev, Some k) = take k (log_line to_json ev)"

definition log_text :: "(audit_event \<Rightarrow> string option) \<Rightarrow> (audit_event \<times> nat option) list \<Rightarrow> bytes" where
  "log_text to_json ws = concat (map (log_piece to_json) ws)"

text \<open>The fates of the writes in a run, in order.\<close>

fun fates :: "audit_op list \<Rightarrow> nat option list" where
  "fates [] = []"
| "fates (Recv io # ops) = io # fates ops"
| "fates (_ # ops) = fates ops"

lemma fates_append: "fates (a @ b) = fates a @ fates b"
  by (induction a rule: fates.induct) auto

lemma sent_append: "sent (a @ b) = sent a @ sent b"
  by (induction a rule: sent.induct) auto

lemma audit_run_snoc: "audit_run to_json (ops @ [op]) s = audit_step to_json op (audit_run to_json ops s)"
  by (simp add: audit_run_def)

text \<open>
  Everything taken from the channel and everything still queued, taken together, was sent, in that
  order; the file is the concatenation of what was written for the events taken.
\<close>

lemma audit_run_alive:
  "OpenFailed \<notin> set ops \<Longrightarrow> au_tx (audit_run to_json ops (audit_spawn old)) \<and> au_receiving (audit_run to_json ops (audit_spawn old))"
proof (induction ops rule: rev_induct)
  case Nil
  then show ?case by (simp add: audit_run_def audit_spawn_def)
next
  case (snoc op ops)
  then show ?case by (cases op) (auto simp: audit_run_snoc audit_send_def audit_recv_def split: list.split)
qed

lemma audit_run_inv:
  "\<exists>ws. subseq (map fst ws @ au_queue (audit_run to_json ops (audit_spawn old))) (sent ops)
     \<and> subseq (map snd ws) (fates ops)
     \<and> au_file (audit_run to_json ops (audit_spawn old)) = old @ log_text to_json ws
     \<and> length (au_queue (audit_run to_json ops (audit_spawn old))) \<le> AUDIT_CHANNEL_CAPACITY
     \<and> (OpenFailed \<notin> set ops \<and> length (sent ops) \<le> AUDIT_CHANNEL_CAPACITY
          \<longrightarrow> map fst ws @ au_queue (audit_run to_json ops (audit_spawn old)) = sent ops)"
proof (induction ops rule: rev_induct)
  case Nil
  then show ?case by (intro exI [of _ "[]"]) (simp add: audit_run_def audit_spawn_def log_text_def)
next
  case (snoc op ops)
  let ?s = "audit_run to_json ops (audit_spawn old)"
  obtain ws where sub: "subseq (map fst ws @ au_queue ?s) (sent ops)" and io: "subseq (map snd ws) (fates ops)"
    and fl: "au_file ?s = old @ log_text to_json ws" and len: "length (au_queue ?s) \<le> AUDIT_CHANNEL_CAPACITY"
    and all: "OpenFailed \<notin> set ops \<and> length (sent ops) \<le> AUDIT_CHANNEL_CAPACITY \<longrightarrow> map fst ws @ au_queue ?s = sent ops"
    using snoc by auto
  show ?case
  proof (cases op)
    case (Send ev)
    have "subseq (map fst ws @ au_queue ?s @ [ev]) (sent ops @ [ev])"
      using list_emb_append_mono [OF sub, of "[ev]" "[ev]"] by simp
    moreover have "subseq (map fst ws @ au_queue ?s) (sent ops @ [ev])" using sub by (meson prefixI prefix_imp_subseq subseq_order.trans)
    moreover have "au_queue (audit_send ev ?s) = au_queue ?s @ [ev] \<and> map fst ws @ au_queue ?s = sent ops"
      if "OpenFailed \<notin> set ops" "Suc (length (sent ops)) \<le> AUDIT_CHANNEL_CAPACITY"
    proof -
      have eq: "map fst ws @ au_queue ?s = sent ops" using all that by simp
      then have "length (au_queue ?s) \<le> length (sent ops)" by (metis le_add2 length_append)
      with that audit_run_alive [of ops to_json old] eq show ?thesis by (simp add: audit_send_def)
    qed
    ultimately show ?thesis
      using fl len io by (intro exI [of _ ws]) (auto simp: audit_run_snoc Send audit_send_def sent_append fates_append)
  next
    case OpenFailed
    have "subseq (map fst ws) (sent ops)" using sub by (meson prefixI prefix_imp_subseq subseq_order.trans)
    with fl io show ?thesis
      by (intro exI [of _ ws]) (simp add: audit_run_snoc OpenFailed audit_open_failed_def sent_append fates_append)
  next
    case (Recv f)
    have io': "subseq (map snd ws) (fates ops @ [f])" using io by (meson prefixI prefix_imp_subseq subseq_order.trans)
    have io'': "subseq (map snd ws @ [f]) (fates ops @ [f])" using list_emb_append_mono [OF io, of "[f]" "[f]"] by simp
    show ?thesis
    proof (cases "au_receiving ?s \<and> au_queue ?s \<noteq> []")
      case False
      then have "audit_recv to_json f ?s = ?s" by (auto simp: audit_recv_def split: list.split)
      with sub fl len io' all show ?thesis
        by (intro exI [of _ ws]) (simp add: audit_run_snoc Recv sent_append fates_append)
    next
      case True
      then obtain ev rest where q: "au_queue ?s = ev # rest" by (cases "au_queue ?s") auto
      have "snd (write_event to_json f ev (au_file ?s)) = old @ log_text to_json (ws @ [(ev, f)])"
        using fl by (cases f) (auto simp: write_event_def log_line_def log_text_def Let_def split: option.split)
      with sub len io'' all True q show ?thesis
        by (intro exI [of _ "ws @ [(ev, f)]"]) (simp add: audit_run_snoc Recv audit_recv_def sent_append fates_append)
    qed
  qed
qed

text \<open>
  (C34) The audit log never invents or reorders: after any interleaving of sends and task steps, including
  the death of the task and writes that fail part-way, the file is its old content followed by
  what was written for a subsequence of the events that were sent, in the order they were sent.
  That is the whole line of the event, unless its write failed after \<open>k\<close> bytes: then it is the first
  \<open>k\<close> bytes of the line. The channel never holds more than 4096 events, and as long as no more have been
  sent and the file could be opened, nothing is lost.
\<close>

theorem audit_log_subsequence:
  "\<exists>ws. subseq (map fst ws) (sent ops) \<and> subseq (map snd ws) (fates ops)
     \<and> au_file (audit_run to_json ops (audit_spawn old)) = old @ log_text to_json ws
     \<and> length (au_queue (audit_run to_json ops (audit_spawn old))) \<le> 4096
     \<and> (OpenFailed \<notin> set ops \<and> length (sent ops) \<le> 4096
          \<longrightarrow> map fst ws @ au_queue (audit_run to_json ops (audit_spawn old)) = sent ops)"
proof -
  obtain ws where "subseq (map fst ws @ au_queue (audit_run to_json ops (audit_spawn old))) (sent ops)"
    and "subseq (map snd ws) (fates ops)"
    and "au_file (audit_run to_json ops (audit_spawn old)) = old @ log_text to_json ws"
    and "length (au_queue (audit_run to_json ops (audit_spawn old))) \<le> AUDIT_CHANNEL_CAPACITY"
    and "OpenFailed \<notin> set ops \<and> length (sent ops) \<le> AUDIT_CHANNEL_CAPACITY
          \<longrightarrow> map fst ws @ au_queue (audit_run to_json ops (audit_spawn old)) = sent ops"
    using audit_run_inv by blast
  moreover have "subseq (map fst ws) (map fst ws @ q)" for q by (simp add: prefix_imp_subseq)
  ultimately show ?thesis unfolding AUDIT_CHANNEL_CAPACITY_def by (meson subseq_order.trans)
qed

definition sample_event :: audit_event where
  "sample_event = audit_event_new ''2024-01-01T00:00:00Z'' ''deny'' (V4 10 0 0 1) ''GET'' ''/secrets'' ''-''"

theorem audit_log_subsequence_witness:
  "\<exists>ws. au_file (audit_run (\<lambda>e. Some (ae_event e)) [Send sample_event, Send sample_event, Recv None] (audit_spawn []))
        = log_text (\<lambda>e. Some (ae_event e)) ws
     \<and> map fst ws @ [sample_event] = [sample_event, sample_event]"
proof -
  let ?ops = "[Send sample_event, Send sample_event, Recv None]"
  have "au_queue (audit_run (\<lambda>e. Some (ae_event e)) ?ops (audit_spawn [])) = [sample_event]"
    by (simp add: audit_run_def audit_spawn_def audit_send_def audit_recv_def AUDIT_CHANNEL_CAPACITY_def)
  with audit_log_subsequence [of ?ops "\<lambda>e. Some (ae_event e)" "[]"] show ?thesis by auto
qed

text \<open>A torn write leaves the start of its line, and the next line follows it without a line feed.\<close>

lemma audit_log_torn_line:
  "au_file (audit_run (\<lambda>e. Some (ae_event e)) [Send sample_event, Send sample_event, Recv (Some 2), Recv None] (audit_spawn []))
     = ''dedeny'' @ [CHR 0x0A]"
  by (simp add: audit_run_def audit_spawn_def audit_send_def audit_recv_def write_event_def sample_event_def
      audit_event_new_def AUDIT_CHANNEL_CAPACITY_def)

end
