(* ===== verification/Auth.thy ===== *)
theory Auth
  imports Auth_Limiter Http Tls_Identity Metrics Rate_Limiter Audit_Log
begin

text \<open>
  Authentication, \<^verbatim>\<open>src/main.rs\<close>: the proxy's shared state, the constant-time comparison,
  bearer tokens, roles and \<^verbatim>\<open>authenticate\<close>. Locks recover from poisoning, so a panic leaves
  the state as the panicking call left it; an outcome \<^const>\<open>None\<close> is such a panic (the clock
  overflow in \<^verbatim>\<open>record_failure\<close>).
\<close>

section \<open>Shared state\<close>

record proxy_state =
  ps_socket_path :: string
  ps_env_secret :: string
  ps_config_holder :: proxy_config
  ps_rate_limiter :: rate_limiter
  ps_auth_limiter :: auth_limiter
  ps_metrics :: metrics
  ps_audit :: audit_sink
  ps_metrics_path :: "string option"

definition current_config :: "proxy_state \<Rightarrow> proxy_config" where
  "current_config st = ps_config_holder st"

definition swap_config :: "proxy_config \<Rightarrow> proxy_state \<Rightarrow> proxy_state" where
  "swap_config new_cfg st = st\<lparr>ps_config_holder := new_cfg\<rparr>"

definition MAX_TOKEN_LEN :: nat where
  "MAX_TOKEN_LEN = 4096"

definition AUTH_FAIL_MAX :: u32 where
  "AUTH_FAIL_MAX = 10"

definition AUTH_FAIL_WINDOW :: duration where
  "AUTH_FAIL_WINDOW = from_secs 60"

definition AUTH_FAIL_LOCKOUT :: duration where
  "AUTH_FAIL_LOCKOUT = from_secs 300"

section \<open>Tokens\<close>

definition byte_at :: "bytes \<Rightarrow> nat \<Rightarrow> u8" where
  "byte_at a i = (if i < length a then of_nat (of_char (a ! i)) else 0)"

text \<open>Lengths are \<^verbatim>\<open>usize\<close>, 64 bits; their difference is truncated to 32.\<close>

definition constant_time_eq :: "bytes \<Rightarrow> bytes \<Rightarrow> bool" where
  "constant_time_eq a b =
     (let max_len = max (length a) (length b);
          diff0 = (ucast ((of_nat (length a) :: u64) XOR of_nat (length b)) :: u32)
      in fold (\<lambda>i diff. diff OR ucast (byte_at a i XOR byte_at b i)) [0..<max_len] diff0 = 0)"

definition extract_bearer_token :: "external \<Rightarrow> headers \<Rightarrow> unit + string option" where
  "extract_bearer_token x hs =
     (case header_get_all hs ''authorization'' of
        [] \<Rightarrow> Inr None
      | [first] \<Rightarrow>
          (case header_to_str x first of
             None \<Rightarrow> Inl ()
           | Some v \<Rightarrow>
               (case strip_prefix ''Bearer '' v of
                  Some t \<Rightarrow> if t \<noteq> [] \<and> length t \<le> MAX_TOKEN_LEN then Inr (Some t) else Inl ()
                | None \<Rightarrow> Inl ()))
      | _ \<Rightarrow> Inl ())"

text \<open>The loop over the tokens compares with every one of them and keeps the first match.\<close>

definition match_tokens :: "token_entry list \<Rightarrow> string \<Rightarrow> string option" where
  "match_tokens entries token =
     fold (\<lambda>t matched.
             let eq = constant_time_eq (expose_secret (te_token t)) token
             in if eq \<and> matched = None then Some (unwrap_or (te_role t) ''user'') else matched)
       entries None"

definition resolve_token_role :: "proxy_config \<Rightarrow> string \<Rightarrow> string \<Rightarrow> string option" where
  "resolve_token_role config env_secret token =
     (case cfg_auth config of
        Some auth \<Rightarrow>
          (case (case a_tokens auth of None \<Rightarrow> None | Some entries \<Rightarrow> match_tokens entries token) of
             Some role \<Rightarrow> Some role
           | None \<Rightarrow>
               (case a_secret auth of
                  Some secret \<Rightarrow>
                    if expose_secret secret \<noteq> [] \<and> constant_time_eq (expose_secret secret) token
                    then Some ''admin'' else None
                | None \<Rightarrow> None))
      | None \<Rightarrow>
          if env_secret \<noteq> [] \<and> constant_time_eq env_secret token then Some ''admin'' else None)"

definition is_auth_strictly_configured :: "proxy_config \<Rightarrow> string \<Rightarrow> bool" where
  "is_auth_strictly_configured config env_secret =
     (case cfg_auth config of
        Some auth \<Rightarrow>
          if a_type auth = Some ''none'' then True
          else if a_type auth = Some ''mtls'' then True
          else
            (let has_tokens = is_some_and (a_tokens auth) (list_ex (\<lambda>e. expose_secret (te_token e) \<noteq> []));
                 has_secret = is_some_and (a_secret auth) (\<lambda>s. expose_secret s \<noteq> [])
             in has_tokens \<or> has_secret)
      | None \<Rightarrow> env_secret \<noteq> [])"

section \<open>Authenticating a request\<close>

datatype auth_outcome = Allowed "string option" "string option" | Denied u16 string

definition auth_type :: "proxy_config \<Rightarrow> string option" where
  "auth_type config = Option.bind (cfg_auth config) a_type"

text \<open>The failure branches: count, record, count a lockout, deny.\<close>

definition auth_failure :: "instant \<Rightarrow> string \<Rightarrow> string \<Rightarrow> proxy_state \<Rightarrow> auth_outcome option \<times> proxy_state" where
  "auth_failure now auth_key msg st =
     (let st1 = st\<lparr>ps_metrics := (ps_metrics st)\<lparr>auth_failures_total := auth_failures_total (ps_metrics st) + 1\<rparr>\<rparr>;
          (r, al) = al_record_failure now auth_key AUTH_FAIL_MAX AUTH_FAIL_WINDOW AUTH_FAIL_LOCKOUT (ps_auth_limiter st1);
          st2 = st1\<lparr>ps_auth_limiter := al\<rparr>
      in case r of
           None \<Rightarrow> (None, st2)
         | Some locked \<Rightarrow>
             (Some (Denied 401 msg),
              if locked
              then st2\<lparr>ps_metrics := (ps_metrics st2)\<lparr>auth_lockouts_total := auth_lockouts_total (ps_metrics st2) + 1\<rparr>\<rparr>
              else st2))"

definition auth_success :: "string \<Rightarrow> proxy_state \<Rightarrow> proxy_state" where
  "auth_success auth_key st = st\<lparr>ps_auth_limiter := al_record_success auth_key (ps_auth_limiter st)\<rparr>"

definition cert_display_name :: "cert_identity \<Rightarrow> string option" where
  "cert_display_name i = or_else (common_name i) (case sans i of [] \<Rightarrow> None | s # _ \<Rightarrow> Some s)"

definition authenticate_mtls ::
    "instant \<Rightarrow> string \<Rightarrow> proxy_config \<Rightarrow> cert_identity option \<Rightarrow> proxy_state \<Rightarrow> auth_outcome option \<times> proxy_state" where
  "authenticate_mtls now auth_key config cert st =
     (case cert of
        None \<Rightarrow> (Some (Denied 401 ''mTLS required but no client certificate presented''), st)
      | Some i \<Rightarrow>
          (case resolve_mtls_role i (Option.bind (cfg_auth config) a_mtls) of
             Some role \<Rightarrow> (Some (Allowed (Some role) (cert_display_name i)), auth_success auth_key st)
           | None \<Rightarrow> auth_failure now auth_key ''Client certificate not authorized'' st))"

definition authenticate_bearer ::
    "external \<Rightarrow> instant \<Rightarrow> string \<Rightarrow> proxy_config \<Rightarrow> headers \<Rightarrow> proxy_state \<Rightarrow> auth_outcome option \<times> proxy_state" where
  "authenticate_bearer x now auth_key config hs st =
     (if \<not> is_auth_strictly_configured config (ps_env_secret st) then
        (Some (Denied 401 ''Authentication is not configured''), st)
      else case extract_bearer_token x hs of
        Inr None \<Rightarrow> auth_failure now auth_key ''Missing authorization'' st
      | Inl _ \<Rightarrow> auth_failure now auth_key ''Malformed authorization'' st
      | Inr (Some token) \<Rightarrow>
          (case resolve_token_role config (ps_env_secret st) token of
             Some role \<Rightarrow> (Some (Allowed (Some role) None), auth_success auth_key st)
           | None \<Rightarrow> auth_failure now auth_key ''Invalid token'' st))"

text \<open>
  The two clock readings are those of \<^verbatim>\<open>is_blocked\<close> and \<^verbatim>\<open>record_failure\<close>.
\<close>

definition authenticate ::
    "external \<Rightarrow> instant \<times> instant \<Rightarrow> proxy_config \<Rightarrow> headers \<Rightarrow> ip_addr \<Rightarrow> cert_identity option \<Rightarrow>
       proxy_state \<Rightarrow> auth_outcome option \<times> proxy_state" where
  "authenticate x clk config hs peer cert st =
     (let auth_key = show_ip peer
      in if al_is_blocked (fst clk) auth_key (ps_auth_limiter st) then
           (Some (Denied 429 ''Too many authentication failures''), st)
         else if auth_type config = Some ''none'' then (Some (Allowed None None), st)
         else if auth_type config = Some ''mtls'' then authenticate_mtls (snd clk) auth_key config cert st
         else authenticate_bearer x (snd clk) auth_key config hs st)"

section \<open>The comparison decides equality\<close>

lemma fold_or_eq_0:
  fixes d :: "'a::len word"
  shows "fold (\<lambda>i d. d OR f i) xs d = 0 \<longleftrightarrow> d = 0 \<and> (\<forall>i \<in> set xs. f i = 0)"
  by (induction xs arbitrary: d) (auto simp: or_eq_0_iff)

lemma ucast_byte_eq_0: "(ucast (w :: u8) :: u32) = 0 \<longleftrightarrow> w = 0"
  by transfer simp

lemma xor_word_eq_0: "(v :: 'a::len word) XOR w = 0 \<longleftrightarrow> v = w"
  by (metis xor.assoc xor_self_eq xor.right_neutral xor.left_neutral)

lemma byte_word_eq: "(of_nat (of_char (c :: char)) :: u8) = of_nat (of_char d) \<longleftrightarrow> c = d"
  by (simp add: word_of_nat_eq_iff take_bit_eq_mod)

lemma length_diff_eq: "(ucast ((of_nat m :: u64) XOR of_nat n) :: u32) = of_nat m XOR of_nat n"
  by transfer (simp add: take_bit_xor)

lemma of_nat_u32_eq: "m < 2 ^ 32 \<Longrightarrow> n < 2 ^ 32 \<Longrightarrow> (of_nat m :: u32) = of_nat n \<longleftrightarrow> m = n"
  by (simp add: word_of_nat_eq_iff take_bit_nat_eq_self_iff take_bit_nat_eq_self)

lemma constant_time_eq_iff:
  assumes "length a < 2 ^ 32" and "length b < 2 ^ 32"
  shows "constant_time_eq a b \<longleftrightarrow> a = b"
proof -
  have "constant_time_eq a b \<longleftrightarrow>
      length a = length b \<and> (\<forall>i < max (length a) (length b). byte_at a i = byte_at b i)"
    using of_nat_u32_eq [OF assms]
    by (auto simp: constant_time_eq_def Let_def fold_or_eq_0 ucast_byte_eq_0 length_diff_eq xor_word_eq_0)
  also have "\<dots> \<longleftrightarrow> a = b"
    by (auto simp: byte_at_def byte_word_eq list_eq_iff_nth_eq)
  finally show ?thesis .
qed

section \<open>Who gets in\<close>

text \<open>The role of a token, by plain equality: what the comparison loops are to compute.\<close>

definition token_role_spec :: "proxy_config \<Rightarrow> string \<Rightarrow> string \<Rightarrow> string option" where
  "token_role_spec config env_secret token =
     (case cfg_auth config of
        Some auth \<Rightarrow>
          (case find (\<lambda>t. expose_secret (te_token t) = token) (unwrap_or (a_tokens auth) []) of
             Some t \<Rightarrow> Some (unwrap_or (te_role t) ''user'')
           | None \<Rightarrow> if a_secret auth = Some (SecretToken token) then Some ''admin'' else None)
      | None \<Rightarrow> if env_secret = token then Some ''admin'' else None)"

text \<open>No configured secret is four gigabytes long.\<close>

definition secrets_short :: "proxy_config \<Rightarrow> string \<Rightarrow> bool" where
  "secrets_short config env_secret =
     (length env_secret < 2 ^ 32 \<and>
      (case cfg_auth config of
         None \<Rightarrow> True
       | Some auth \<Rightarrow>
           list_all (\<lambda>t. length (expose_secret (te_token t)) < 2 ^ 32) (unwrap_or (a_tokens auth) [])
           \<and> is_none_or (a_secret auth) (\<lambda>s. length (expose_secret s) < 2 ^ 32)))"

lemma match_tokens_find:
  assumes "length token < 2 ^ 32" and "list_all (\<lambda>t. length (expose_secret (te_token t)) < 2 ^ 32) entries"
  shows "match_tokens entries token =
     map_option (\<lambda>t. unwrap_or (te_role t) ''user'') (find (\<lambda>t. expose_secret (te_token t) = token) entries)"
proof -
  let ?f = "\<lambda>t matched. if constant_time_eq (expose_secret (te_token t)) token \<and> matched = None
                         then Some (unwrap_or (te_role t) ''user'') else matched"
  have kept: "fold ?f ts (Some r) = Some r" for ts r by (induction ts) auto
  from assms(2) show ?thesis
    unfolding match_tokens_def Let_def
    by (induction entries) (auto simp: constant_time_eq_iff [OF _ assms(1)] kept)
qed

lemma resolve_token_role_refines:
  assumes "secrets_short config env_secret" and "token \<noteq> []" and "length token \<le> MAX_TOKEN_LEN"
  shows "resolve_token_role config env_secret token = token_role_spec config env_secret token"
proof -
  have tok: "length token < 2 ^ 32" using assms(3) by (simp add: MAX_TOKEN_LEN_def)
  show ?thesis
  proof (cases "cfg_auth config")
    case None
    with assms tok show ?thesis
      by (auto simp: resolve_token_role_def token_role_spec_def secrets_short_def constant_time_eq_iff)
  next
    case (Some auth)
    have m: "(case a_tokens auth of None \<Rightarrow> None | Some entries \<Rightarrow> match_tokens entries token) =
        map_option (\<lambda>t. unwrap_or (te_role t) ''user'')
          (find (\<lambda>t. expose_secret (te_token t) = token) (unwrap_or (a_tokens auth) []))"
      using assms(1) Some match_tokens_find [OF tok] by (auto simp: secrets_short_def split: option.splits)
    have s: "(case a_secret auth of
                 Some secret \<Rightarrow> if expose_secret secret \<noteq> [] \<and> constant_time_eq (expose_secret secret) token
                                then Some ''admin'' else None
               | None \<Rightarrow> None) = (if a_secret auth = Some (SecretToken token) then Some ''admin'' else None)"
      using assms(1,2) Some tok
      by (cases "a_secret auth") (auto simp: secrets_short_def constant_time_eq_iff secret_token.expand)
    show ?thesis
      unfolding resolve_token_role_def token_role_spec_def Some option.case m s by (simp split: option.splits)
  qed
qed

lemma extract_bearer_token_Some:
  "extract_bearer_token x hs = Inr (Some token) \<longleftrightarrow>
     (\<exists>v. header_get_all hs ''authorization'' = [v] \<and> header_to_str x v = Some (''Bearer '' @ token)
        \<and> token \<noteq> [] \<and> length token \<le> MAX_TOKEN_LEN)"
  by (auto simp: extract_bearer_token_def split: list.splits option.splits)

lemma auth_failure_denies [simp]: "auth_failure now key msg st \<noteq> (Some (Allowed role ident), st')"
  by (auto simp: auth_failure_def Let_def split: prod.splits option.splits)


text \<open>
  (C16) The constant-time comparisons compute exactly the intended function: for a token as it can
  arrive in a header, the role is that of the first configured token equal to it, or
  \<^verbatim>\<open>admin\<close> if it equals the configured secret (the environment's secret when there is no
  \<^verbatim>\<open>auth\<close> section), and otherwise there is none.
\<close>

theorem token_role_exact:
  assumes "secrets_short config env_secret" and "extract_bearer_token x hs = Inr (Some token)"
  shows "resolve_token_role config env_secret token = token_role_spec config env_secret token"
  using assms extract_bearer_token_Some resolve_token_role_refines by auto

text \<open>
  (C6) Nobody gets in without a reason. If a request is allowed, its address was not locked out,
  and authentication is switched off, or a client certificate maps to the role, or the
  request has exactly one \<^verbatim>\<open>Authorization\<close> header and it carries a token that is configured
  for the role.
\<close>

theorem authenticate_sound:
  assumes "secrets_short config (ps_env_secret st)"
    and "authenticate x clk config hs peer cert st = (Some (Allowed role ident), st')"
  shows "\<not> al_is_blocked (fst clk) (show_ip peer) (ps_auth_limiter st)
    \<and> (auth_type config = Some ''none'' \<and> role = None
       \<or> auth_type config = Some ''mtls''
         \<and> (\<exists>c. cert = Some c \<and> role \<noteq> None \<and> resolve_mtls_role c (Option.bind (cfg_auth config) a_mtls) = role)
       \<or> (\<exists>v token. header_get_all hs ''authorization'' = [v] \<and> header_to_str x v = Some (''Bearer '' @ token)
            \<and> token \<noteq> [] \<and> role \<noteq> None \<and> token_role_spec config (ps_env_secret st) token = role))"
proof -
  have bearer: "\<exists>v token. header_get_all hs ''authorization'' = [v] \<and> header_to_str x v = Some (''Bearer '' @ token)
      \<and> token \<noteq> [] \<and> role \<noteq> None \<and> token_role_spec config (ps_env_secret st) token = role"
    if b: "authenticate_bearer x (snd clk) (show_ip peer) config hs st = (Some (Allowed role ident), st')"
  proof -
    obtain token where t: "extract_bearer_token x hs = Inr (Some token)"
      and r: "resolve_token_role config (ps_env_secret st) token = role" "role \<noteq> None"
      using b by (auto simp: authenticate_bearer_def split: if_splits sum.splits option.splits) metis
    then show ?thesis
      using assms(1) resolve_token_role_refines by (auto simp: extract_bearer_token_Some)
  qed
  have mtls: "\<exists>c. cert = Some c \<and> role \<noteq> None \<and> resolve_mtls_role c (Option.bind (cfg_auth config) a_mtls) = role"
    if m: "authenticate_mtls (snd clk) (show_ip peer) config cert st = (Some (Allowed role ident), st')"
    using m by (auto simp: authenticate_mtls_def split: option.splits) metis
  show ?thesis
    using assms(2) bearer mtls by (auto simp: authenticate_def Let_def split: if_splits)
qed

text \<open>
  The proxy fails closed: with no \<^verbatim>\<open>auth\<close> section and no secret in the environment every
  request is refused, with 401, or with 429 if its address is locked out, and nothing is
  recorded.
\<close>

theorem unconfigured_auth_denies:
  assumes "cfg_auth config = None" and "ps_env_secret st = []"
  shows "\<exists>code msg. authenticate x clk config hs peer cert st = (Some (Denied code msg), st) \<and> code \<in> {401, 429}"
  using assms
  by (auto simp: authenticate_def authenticate_bearer_def auth_type_def is_auth_strictly_configured_def Let_def)

definition auth_frame :: "proxy_state \<Rightarrow> proxy_state \<Rightarrow> bool" where
  "auth_frame st st' =
     (st'\<lparr>ps_auth_limiter := ps_auth_limiter st, ps_metrics := ps_metrics st\<rparr> = st \<and> al_inv (ps_auth_limiter st'))"

lemma auth_frame_steps:
  assumes "al_inv (ps_auth_limiter st)"
  shows "auth_frame st st" "auth_frame st (auth_success key st)" "auth_frame st (snd (auth_failure now key msg st))"
proof -
  show "auth_frame st st" "auth_frame st (auth_success key st)"
    using assms by (auto simp: auth_frame_def auth_success_def intro: inv_intros)
  show "auth_frame st (snd (auth_failure now key msg st))"
    using al_record_failure_inv [OF assms, of now key AUTH_FAIL_MAX AUTH_FAIL_WINDOW AUTH_FAIL_LOCKOUT]
    by (auto simp: auth_frame_def auth_failure_def Let_def split: prod.splits option.splits)
qed

text \<open>
  The lockout table's invariant survives every authentication, and nothing but the lockout
  table and the metrics changes.
\<close>

theorem authenticate_frame:
  assumes "al_inv (ps_auth_limiter st)"
  shows "auth_frame st (snd (authenticate x clk config hs peer cert st))"
  using auth_frame_steps [OF assms]
  by (auto simp: authenticate_def authenticate_mtls_def authenticate_bearer_def Let_def split: option.splits sum.splits)

section \<open>Brute force\<close>

text \<open>A peer's authentication attempts one after the other: clock readings and request headers.\<close>

fun authenticate_all ::
    "external \<Rightarrow> proxy_config \<Rightarrow> ip_addr \<Rightarrow> cert_identity option \<Rightarrow> ((instant \<times> instant) \<times> headers) list \<Rightarrow>
       proxy_state \<Rightarrow> proxy_state" where
  "authenticate_all x config peer cert [] st = st"
| "authenticate_all x config peer cert ((clk, hs) # as) st =
     authenticate_all x config peer cert as (snd (authenticate x clk config hs peer cert st))"

definition bad_token :: "external \<Rightarrow> proxy_config \<Rightarrow> string \<Rightarrow> headers \<Rightarrow> bool" where
  "bad_token x config env_secret hs =
     (\<forall>token. extract_bearer_token x hs = Inr (Some token) \<longrightarrow> resolve_token_role config env_secret token = None)"

definition bearer_configured :: "proxy_config \<Rightarrow> string \<Rightarrow> bool" where
  "bearer_configured config env_secret =
     (is_auth_strictly_configured config env_secret \<and> auth_type config \<noteq> Some ''none'' \<and> auth_type config \<noteq> Some ''mtls'')"

lemma bad_attempt:
  assumes "bearer_configured config (ps_env_secret st)" and "bad_token x config (ps_env_secret st) hs"
    and "\<not> al_is_blocked (fst clk) (show_ip peer) (ps_auth_limiter st)"
  shows "\<exists>msg. authenticate x clk config hs peer cert st = auth_failure (snd clk) (show_ip peer) msg st"
proof (cases "extract_bearer_token x hs")
  case (Inl u)
  with assms show ?thesis
    by (auto simp: authenticate_def authenticate_bearer_def bearer_configured_def Let_def)
next
  case (Inr t)
  with assms show ?thesis
    by (cases t) (auto simp: authenticate_def authenticate_bearer_def bearer_configured_def bad_token_def Let_def)
qed

lemma auth_failure_state:
  "ps_auth_limiter (snd (auth_failure now key msg st))
     = snd (al_record_failure now key AUTH_FAIL_MAX AUTH_FAIL_WINDOW AUTH_FAIL_LOCKOUT (ps_auth_limiter st))"
  "ps_env_secret (snd (auth_failure now key msg st)) = ps_env_secret st"
  by (auto simp: auth_failure_def Let_def split: prod.splits option.splits)

lemma bad_attempts_run:
  assumes "tbl_wf (ps_auth_limiter st)" and "tbl_get (ps_auth_limiter st) (show_ip peer) = Some e"
    and "lockout_until e = None" and "unat (failures e) + length as = unat AUTH_FAIL_MAX" and "as \<noteq> []"
    and "bearer_configured config (ps_env_secret st)"
    and "\<forall>(clk, hs) \<in> set as. bad_token x config (ps_env_secret st) hs \<and> snd clk - first_failure e \<le> AUTH_FAIL_WINDOW"
    and "snd (fst (last as)) + AUTH_FAIL_LOCKOUT \<le> instant_max"
  shows "\<exists>e'. tbl_get (ps_auth_limiter (authenticate_all x config peer cert as st)) (show_ip peer) = Some e'
       \<and> lockout_until e' = Some (snd (fst (last as)) + AUTH_FAIL_LOCKOUT)"
  using assms
proof (induction as arbitrary: st e)
  case (Cons a as)
  obtain clk hs where a: "a = (clk, hs)" by (cases a)
  let ?al = "ps_auth_limiter st"
  let ?st = "snd (authenticate x clk config hs peer cert st)"
  have bad: "bad_token x config (ps_env_secret st) hs" and win: "snd clk - first_failure e \<le> AUTH_FAIL_WINDOW"
    using Cons.prems(7) by (auto simp: a)
  have "\<not> al_is_blocked (fst clk) (show_ip peer) ?al" using Cons.prems(2,3) by (simp add: al_is_blocked_def)
  with bad_attempt [OF Cons.prems(6) bad] obtain msg
    where step: "?st = snd (auth_failure (snd clk) (show_ip peer) msg st)" by metis
  have lt: "unat (failures e) < unat AUTH_FAIL_MAX" using Cons.prems(4) by simp
  note count = lockout_failure_count [OF Cons.prems(3) win lt, of AUTH_FAIL_LOCKOUT]
  note known = al_record_failure_known [OF Cons.prems(1,2)]
  show ?case
  proof (cases "as = []")
    case True
    with count(2) Cons.prems(1,4,8) show ?thesis by (simp add: a step auth_failure_state known)
  next
    case False
    let ?e = "e\<lparr>failures := saturating_add (failures e) 1\<rparr>"
    have more: "Suc (unat (failures e)) < unat AUTH_FAIL_MAX" using Cons.prems(4) False by (cases as) auto
    have st: "ps_auth_limiter ?st = tbl_put (show_ip peer) ?e ?al" "ps_env_secret ?st = ps_env_secret st"
      using count(1) [OF more] by (simp_all add: step auth_failure_state known)
    have "\<exists>e'. tbl_get (ps_auth_limiter (authenticate_all x config peer cert as ?st)) (show_ip peer) = Some e'
       \<and> lockout_until e' = Some (snd (fst (last as)) + AUTH_FAIL_LOCKOUT)"
      using Cons.prems False unat_saturating_Suc [OF lt] by (intro Cons.IH [where e = ?e]) (auto simp: st)
    with False show ?thesis by (simp add: a)
  qed
qed simp

text \<open>
  The window is a fixed one that starts with the first failure on record, not a sliding one: after an
  older failure, ten failures within six seconds do not lock the address out, if the minute of the
  first one ends between them.
\<close>

lemma fixed_window_misses_ten:
  "fold (\<lambda>t e. snd (lockout_failure (from_secs t) AUTH_FAIL_MAX AUTH_FAIL_WINDOW AUTH_FAIL_LOCKOUT e))
     [55, 55, 55, 55, 55, 55, 55, 55, 61, 61] \<lparr>failures = 1, first_failure = from_secs 0, lockout_until = None\<rparr>
   = \<lparr>failures = 2, first_failure = from_secs 61, lockout_until = None\<rparr>"
proof -
  let ?step = "\<lambda>t e. snd (lockout_failure (from_secs t) AUTH_FAIL_MAX AUTH_FAIL_WINDOW AUTH_FAIL_LOCKOUT e)"
  have count: "?step t \<lparr>failures = n, first_failure = from_secs s, lockout_until = None\<rparr>
      = \<lparr>failures = n + 1, first_failure = from_secs s, lockout_until = None\<rparr>" if "n < 9" "t \<le> s + 60" for n :: u32 and t s :: nat
  proof -
    have "unat n < 9" using that(1) by (simp add: word_less_nat_alt)
    with that(2) show ?thesis
      using lockout_failure_count(1) [of "\<lparr>failures = n, first_failure = from_secs s, lockout_until = None\<rparr>" "from_secs t"
          AUTH_FAIL_WINDOW AUTH_FAIL_MAX AUTH_FAIL_LOCKOUT]
      by (simp add: AUTH_FAIL_MAX_def AUTH_FAIL_WINDOW_def from_secs_def NANOS_PER_SEC_def saturating_add_def)
  qed
  have restart: "?step 61 \<lparr>failures = 9, first_failure = from_secs 0, lockout_until = None\<rparr>
      = \<lparr>failures = 1, first_failure = from_secs 61, lockout_until = None\<rparr>"
    by (simp add: word_le_nat_alt lockout_failure_def AUTH_FAIL_MAX_def AUTH_FAIL_WINDOW_def from_secs_def NANOS_PER_SEC_def saturating_add_def Let_def)
  show ?thesis by (simp add: count restart del: One_nat_def)
qed

text \<open>
  (C9) Brute force is stopped: when bearer credentials are configured, an address has no failures on record
  and the lockout table has room, then ten requests in a row from it with missing, malformed or wrong
  tokens, at most a minute after the first of them and with no success in between, lock it out for
  five minutes after the tenth. In that time every request from the address is refused with 429,
  even one with a valid token, a valid certificate or under a new configuration.
\<close>

theorem brute_force_locked_out:
  assumes "al_inv (ps_auth_limiter st)" and "tbl_get (ps_auth_limiter st) (show_ip peer) = None"
    and "tbl_len (ps_auth_limiter st) < MAX_AUTH_LIMITER_KEYS"
    and "bearer_configured config (ps_env_secret st)" and "length as = 10"
    and "\<forall>(clk, hs) \<in> set as. bad_token x config (ps_env_secret st) hs \<and> start \<le> snd clk \<and> snd clk \<le> start + AUTH_FAIL_WINDOW"
    and "snd (fst (hd as)) = start" and "snd (fst (last as)) + AUTH_FAIL_LOCKOUT \<le> instant_max"
    and "fst now < snd (fst (last as)) + AUTH_FAIL_LOCKOUT"
  shows "fst (authenticate x' now config' hs' peer cert' (authenticate_all x config peer cert as st))
       = Some (Denied 429 ''Too many authentication failures'')"
proof -
  obtain clk hs rest where as: "as = (clk, hs) # rest" and ne: "rest \<noteq> []" and len: "length rest = 9"
    using assms(5) by (cases as; cases "tl as") auto
  let ?k = "show_ip peer" and ?al = "ps_auth_limiter st"
  let ?st = "snd (authenticate x clk config hs peer cert st)"
  let ?e = "(fresh_lockout start)\<lparr>failures := 1\<rparr>"
  have wf: "tbl_wf ?al" using assms(1) by (simp add: al_inv_def)
  have t: "snd clk = start" using assms(7) by (simp add: as)
  have "\<not> al_is_blocked (fst clk) ?k ?al" using assms(2) by (simp add: al_is_blocked_def)
  with bad_attempt [OF assms(4), of x hs clk peer cert] assms(6) obtain msg
    where step: "?st = snd (auth_failure (snd clk) ?k msg st)" by (auto simp: as)
  have "lockout_failure start AUTH_FAIL_MAX AUTH_FAIL_WINDOW AUTH_FAIL_LOCKOUT (fresh_lockout start) = (Some False, ?e)"
    using lockout_failure_count(1) [of "fresh_lockout start" start AUTH_FAIL_WINDOW AUTH_FAIL_MAX AUTH_FAIL_LOCKOUT]
    by (simp add: fresh_lockout_def AUTH_FAIL_MAX_def saturating_add_def)
  then have st: "ps_auth_limiter ?st = tbl_put ?k ?e ?al" "ps_env_secret ?st = ps_env_secret st"
    using assms(2,3) by (simp_all add: step auth_failure_state t al_record_failure_def)
  have "\<exists>e'. tbl_get (ps_auth_limiter (authenticate_all x config peer cert rest ?st)) ?k = Some e'
       \<and> lockout_until e' = Some (snd (fst (last rest)) + AUTH_FAIL_LOCKOUT)"
    using wf assms(4,6,8) ne len
    by (intro bad_attempts_run [where e = ?e]) (auto simp: st as fresh_lockout_def AUTH_FAIL_MAX_def)
  with assms(9) ne have "al_is_blocked (fst now) ?k (ps_auth_limiter (authenticate_all x config peer cert as st))"
    by (auto simp: as al_is_blocked_def)
  then show ?thesis by (subst authenticate_def) simp
qed

section \<open>Witnesses\<close>

definition token_config :: proxy_config where
  "token_config = proxy_config_default\<lparr>cfg_auth := Some
     \<lparr>a_type = Some ''bearer'', a_secret = None,
      a_tokens = Some [\<lparr>te_token = SecretToken ''s3cret'', te_role = Some ''ci''\<rparr>], a_mtls = None\<rparr>\<rparr>"

definition fresh_state :: proxy_state where
  "fresh_state =
     \<lparr>ps_socket_path = ''/var/run/docker.sock'', ps_env_secret = [], ps_config_holder = proxy_config_default,
      ps_rate_limiter = rate_limiter_new, ps_auth_limiter = auth_limiter_new, ps_metrics = metrics_new,
      ps_audit = audit_disabled, ps_metrics_path = None\<rparr>"

definition bearer :: "string \<Rightarrow> headers" where
  "bearer token = [(''authorization'', ''Bearer '' @ token)]"

lemmas auth_eval = token_config_def proxy_config_default_def fresh_state_def bearer_def secrets_short_def
  extract_bearer_token_def header_get_all_def no_external_def MAX_TOKEN_LEN_def token_role_spec_def
  auth_type_def auth_limiter_new_def al_is_blocked_def tbl_get_def is_auth_strictly_configured_def

lemma sample_token:
  "extract_bearer_token no_external (bearer ''s3cret'') = Inr (Some ''s3cret'')" "secrets_short token_config []"
  by (simp_all add: auth_eval)

theorem token_role_exact_witness:
  "resolve_token_role token_config [] ''s3cret'' = token_role_spec token_config [] ''s3cret''
   \<and> token_role_spec token_config [] ''s3cret'' = Some ''ci''"
  using token_role_exact [OF sample_token(2) sample_token(1)] by (simp add: auth_eval)

lemma sample_allowed:
  "authenticate no_external (0, 0) token_config (bearer ''s3cret'') (V4 10 0 0 1) None fresh_state
     = (Some (Allowed (Some ''ci'') None), auth_success (show_ip (V4 10 0 0 1)) fresh_state)"
proof -
  have "resolve_token_role token_config [] ''s3cret'' = Some ''ci''"
    using resolve_token_role_refines [OF sample_token(2), of "''s3cret''"] by (simp add: auth_eval)
  with sample_token show ?thesis
    by (simp add: authenticate_def authenticate_bearer_def fresh_state_def auth_limiter_new_def al_is_blocked_def
        tbl_get_def token_config_def proxy_config_default_def auth_type_def is_auth_strictly_configured_def Let_def)
qed

theorem authenticate_sound_witness:
  "\<exists>v token. header_get_all (bearer ''s3cret'') ''authorization'' = [v] \<and> header_to_str no_external v = Some (''Bearer '' @ token)
     \<and> token_role_spec token_config [] token = Some ''ci''"
proof -
  have "secrets_short token_config (ps_env_secret fresh_state)" using sample_token(2) by (simp add: fresh_state_def)
  from authenticate_sound [OF this sample_allowed]
  show ?thesis by (auto simp: token_config_def auth_type_def fresh_state_def)
qed

theorem unconfigured_auth_denies_witness:
  "\<exists>code msg. authenticate no_external (0, 0) proxy_config_default (bearer ''x'') (V4 10 0 0 1) None fresh_state
     = (Some (Denied code msg), fresh_state) \<and> code \<in> {401, 429}"
  by (rule unconfigured_auth_denies) (simp_all add: proxy_config_default_def fresh_state_def)

theorem authenticate_frame_witness:
  "auth_frame fresh_state (snd (authenticate no_external (0, 0) token_config (bearer ''no'') (V4 10 0 0 1) None fresh_state))"
  by (rule authenticate_frame) (use al.inv_init in \<open>simp add: fresh_state_def\<close>)

theorem brute_force_locked_out_witness:
  "fst (authenticate no_external (7, 7) token_config (bearer ''s3cret'') (V4 10 0 0 1) None
          (authenticate_all no_external token_config (V4 10 0 0 1) None (replicate 10 ((5, 5), [])) fresh_state))
   = Some (Denied 429 ''Too many authentication failures'')"
proof (rule brute_force_locked_out [where start = 5])
  show "al_inv (ps_auth_limiter fresh_state)" using al.inv_init by (simp add: fresh_state_def)
  show "\<forall>(clk, hs) \<in> set (replicate 10 ((5, 5), [])). bad_token no_external token_config (ps_env_secret fresh_state) hs
      \<and> 5 \<le> snd clk \<and> snd clk \<le> 5 + AUTH_FAIL_WINDOW"
    by (auto simp: bad_token_def extract_bearer_token_def header_get_all_def)
  show "bearer_configured token_config (ps_env_secret fresh_state)"
    by (simp add: bearer_configured_def auth_eval)
qed (simp_all add: fresh_state_def auth_limiter_new_def tbl_defs MAX_AUTH_LIMITER_KEYS_def AUTH_FAIL_LOCKOUT_def
       from_secs_def NANOS_PER_SEC_def instant_max_def)

end
