(* ===== verification/Request_Path.thy ===== *)
theory Request_Path
  imports Config
begin

text \<open>
  Request paths, \<^verbatim>\<open>src/main.rs\<close>: percent decoding, the API version prefix,
  \<^verbatim>\<open>canonicalize_path\<close>, \<^verbatim>\<open>requires_json_body\<close>, and the request target sent upstream. The
  properties show the form of every path the
  rules see, that encoding and a version prefix do not hide a path from them, and where
  they do.
\<close>

section \<open>Decoding\<close>

definition MAX_PATH_LEN :: nat where
  "MAX_PATH_LEN = 8192"

fun percent_decode :: "string \<Rightarrow> bytes option" where
  "percent_decode [] = Some []"
| "percent_decode (b # bs) =
     (if b = CHR ''%'' then
        (case bs of
           h # l # rest \<Rightarrow>
             (case (to_digit 16 h, to_digit 16 l) of
                (Some hv, Some lv) \<Rightarrow> map_option (Cons (char_of (hv * 16 + lv))) (percent_decode rest)
              | _ \<Rightarrow> None)
         | _ \<Rightarrow> None)
      else map_option (Cons b) (percent_decode bs))"

text \<open>
  \<^verbatim>\<open>String::from_utf8\<close> succeeds on well-formed UTF-8 (Unicode, table 3-7). The
  second byte of a sequence is limited by the first.
\<close>

definition utf8_second :: "nat \<Rightarrow> nat \<Rightarrow> bool" where
  "utf8_second b c =
     (if b = 0xE0 then 0xA0 \<le> c \<and> c \<le> 0xBF
      else if b = 0xED then 0x80 \<le> c \<and> c \<le> 0x9F
      else if b = 0xF0 then 0x90 \<le> c \<and> c \<le> 0xBF
      else if b = 0xF4 then 0x80 \<le> c \<and> c \<le> 0x8F
      else 0x80 \<le> c \<and> c \<le> 0xBF)"

definition utf8_cont :: "nat \<Rightarrow> bool" where
  "utf8_cont c = (0x80 \<le> c \<and> c \<le> 0xBF)"

text \<open>What is left after the rest of the sequence that \<open>b\<close> starts.\<close>

definition utf8_tail :: "nat \<Rightarrow> nat list \<Rightarrow> nat list option" where
  "utf8_tail b bs =
     (if b < 0x80 then Some bs
      else if 0xC2 \<le> b \<and> b \<le> 0xDF then
        (case bs of c # r \<Rightarrow> if utf8_second b c then Some r else None | _ \<Rightarrow> None)
      else if 0xE0 \<le> b \<and> b \<le> 0xEF then
        (case bs of c # d # r \<Rightarrow> if utf8_second b c \<and> utf8_cont d then Some r else None | _ \<Rightarrow> None)
      else if 0xF0 \<le> b \<and> b \<le> 0xF4 then
        (case bs of c # d # e # r \<Rightarrow> if utf8_second b c \<and> utf8_cont d \<and> utf8_cont e then Some r else None | _ \<Rightarrow> None)
      else None)"

lemma utf8_tail_shorter: "utf8_tail b bs = Some r \<Longrightarrow> length r \<le> length bs"
  by (auto simp: utf8_tail_def split: if_splits list.splits)

lemma utf8_tail_append: "utf8_tail b bs = Some r \<Longrightarrow> utf8_tail b (bs @ ys) = Some (r @ ys)"
  by (auto simp: utf8_tail_def split: if_split_asm list.split_asm)

function utf8_valid :: "nat list \<Rightarrow> bool" where
  "utf8_valid [] = True"
| "utf8_valid (b # bs) = (case utf8_tail b bs of None \<Rightarrow> False | Some r \<Rightarrow> utf8_valid r)"
  by pat_completeness auto
termination
  by (relation "measure length") (auto dest: utf8_tail_shorter)

definition is_utf8 :: "bytes \<Rightarrow> bool" where
  "is_utf8 s = utf8_valid (map of_char s)"

text \<open>The control bytes both the path and the query check look for.\<close>

definition is_ctl :: "char \<Rightarrow> bool" where
  "is_ctl c = (let b = of_char c :: nat in b = 0 \<or> b < 0x20 \<or> b = 0x7f)"

section \<open>Canonical paths\<close>

definition is_version_char :: "char \<Rightarrow> bool" where
  "is_version_char c = (is_digit c \<or> c = CHR ''.'')"

definition strip_api_version_prefix :: "string \<Rightarrow> string" where
  "strip_api_version_prefix path =
     (if \<not> prefix ''/v'' path \<or> length path < 3 then path
      else
        (let rest = drop 2 path; version_part = takeWhile (\<lambda>c. c \<noteq> CHR ''/'') rest
         in if length version_part < length rest
               \<and> version_part \<noteq> [] \<and> version_part \<noteq> ''.'' \<and> list_all is_version_char version_part
            then drop (length version_part) rest
            else path))"

definition push_segment :: "string list \<Rightarrow> string \<Rightarrow> string list" where
  "push_segment segments seg =
     (if seg = '''' \<or> seg = ''.'' then segments
      else if seg = ''..'' then butlast segments
      else segments @ [seg])"

definition normalize_path :: "string \<Rightarrow> string" where
  "normalize_path decoded =
     (let trailing_slash = (1 < length decoded \<and> suffix ''/'' decoded);
          segments = foldl push_segment [] (split_on CHR ''/'' decoded);
          out = ''/'' @ join_with CHR ''/'' segments
      in if trailing_slash \<and> 1 < length out then out @ ''/'' else out)"

definition canonicalize_path :: "string \<Rightarrow> string option" where
  "canonicalize_path raw =
     (if raw = [] \<or> \<not> prefix ''/'' raw then None
      else if MAX_PATH_LEN < length raw then None
      else case percent_decode raw of
        None \<Rightarrow> None
      | Some decoded_bytes \<Rightarrow>
          if list_ex is_ctl decoded_bytes then None
          else if \<not> is_utf8 decoded_bytes then None
          else Some (normalize_path (strip_api_version_prefix decoded_bytes)))"

definition update_pattern :: regex where
  "update_pattern = ''^/containers/[^/]+/update$''"

definition requires_json_body :: "external \<Rightarrow> string \<Rightarrow> bool" where
  "requires_json_body x path =
     (if path = ''/containers/create'' then True
      else case regex_new x update_pattern of
        Inl _ \<Rightarrow> False
      | Inr r \<Rightarrow> regex_is_match x r path)"

text \<open>The query check of the handler and the request target it builds for Docker.\<close>

definition query_ok :: "string option \<Rightarrow> bool" where
  "query_ok raw_query =
     (case raw_query of
        None \<Rightarrow> True
      | Some q \<Rightarrow> \<not> (MAX_PATH_LEN < length q \<or> list_ex is_ctl q))"

definition canonical_path_and_query :: "string \<Rightarrow> string option \<Rightarrow> string" where
  "canonical_path_and_query canonical_path raw_query =
     (case raw_query of
        Some q \<Rightarrow> canonical_path @ ''?'' @ q
      | None \<Rightarrow> canonical_path)"

section \<open>The form of a canonical path\<close>

definition clean_segment :: "string \<Rightarrow> bool" where
  "clean_segment s =
     (s \<noteq> [] \<and> s \<noteq> ''.'' \<and> s \<noteq> ''..'' \<and> CHR ''/'' \<notin> set s \<and> \<not> list_ex is_ctl s)"

text \<open>
  A canonical path is a slash, clean segments joined by single slashes, and possibly a
  trailing slash after at least one segment.
\<close>

definition canonical :: "string \<Rightarrow> bool" where
  "canonical p =
     (\<exists>segs. list_all clean_segment segs
        \<and> (p = ''/'' @ join_with CHR ''/'' segs \<or> segs \<noteq> [] \<and> p = ''/'' @ join_with CHR ''/'' segs @ ''/''))"

lemma push_segments_clean:
  assumes "list_all clean_segment acc" and "\<And>s. s \<in> set ss \<Longrightarrow> CHR ''/'' \<notin> set s \<and> \<not> list_ex is_ctl s"
  shows "list_all clean_segment (foldl push_segment acc ss)"
  using assms
proof (induction ss arbitrary: acc)
  case (Cons s ss)
  have "list_all clean_segment (push_segment acc s)"
    using Cons.prems Cons.prems(2) [of s]
    by (auto simp: push_segment_def clean_segment_def list_all_iff dest: in_set_butlastD)
  with Cons show ?case by simp
qed simp

lemma strip_version_suffix: "suffix (strip_api_version_prefix path) path"
  by (simp add: strip_api_version_prefix_def Let_def suffix_drop)

lemma push_segments_append: "list_all clean_segment ss \<Longrightarrow> foldl push_segment acc ss = acc @ ss"
  by (induction ss arbitrary: acc) (auto simp: push_segment_def clean_segment_def)

lemma split_on_append: "split_on c (xs @ c # ys) = split_on c xs @ split_on c ys"
  by (induction xs) (auto simp: split_on_Cons simp del: split_on.simps(2))

lemma percent_decode_plain: "CHR ''%'' \<notin> set s \<Longrightarrow> percent_decode s = Some s"
  by (induction s) auto

lemma canonical_segments:
  assumes "list_all clean_segment segs"
  shows "foldl push_segment [] (split_on CHR ''/'' (''/'' @ join_with CHR ''/'' segs)) = segs"
    and "segs \<noteq> [] \<Longrightarrow> foldl push_segment [] (split_on CHR ''/'' (''/'' @ join_with CHR ''/'' segs @ ''/'')) = segs"
proof -
  have split: "split_on CHR ''/'' (join_with CHR ''/'' segs) = segs" if "segs \<noteq> []"
    using that assms by (intro split_join_with) (auto simp: list_all_iff clean_segment_def)
  have nil: "push_segment acc [] = acc" for acc by (simp add: push_segment_def)
  show "foldl push_segment [] (split_on CHR ''/'' (''/'' @ join_with CHR ''/'' segs)) = segs"
    using split push_segments_append [OF assms] by (cases "segs = []") (simp_all add: nil)
  show "foldl push_segment [] (split_on CHR ''/'' (''/'' @ join_with CHR ''/'' segs @ ''/'')) = segs"
    if "segs \<noteq> []"
    using split [OF that] push_segments_append [OF assms] by (simp add: nil split_on_append)
qed

lemma clean_join_ends:
  assumes "list_all clean_segment segs" and "segs \<noteq> []"
  shows "join_with CHR ''/'' segs \<noteq> [] \<and> last (join_with CHR ''/'' segs) \<noteq> CHR ''/''"
  using assms
proof (induction "CHR ''/''" segs rule: join_with.induct)
  case (2 s)
  then show ?case by (auto simp: clean_segment_def dest: last_in_set)
next
  case (3 s t ts)
  then show ?case by auto
qed simp

lemma canonical_no_ctl:
  assumes "canonical p"
  shows "\<not> list_ex is_ctl p"
proof -
  obtain segs where segs: "list_all clean_segment segs"
    and p: "p = ''/'' @ join_with CHR ''/'' segs \<or> p = ''/'' @ join_with CHR ''/'' segs @ ''/''"
    using assms by (auto simp: canonical_def)
  have slash: "\<not> is_ctl CHR ''/''" by (simp add: is_ctl_def)
  have "\<not> is_ctl c" if "c \<in> set (join_with CHR ''/'' segs)" for c
    using set_join_with [OF that] segs slash by (auto simp: list_all_iff clean_segment_def list_ex_iff)
  with p slash show ?thesis by (auto simp: list_ex_iff)
qed

lemma suffix_slash: "suffix ''/'' t \<longleftrightarrow> t \<noteq> [] \<and> last t = CHR ''/''"
  by (metis append_butlast_last_id last_snoc snoc_eq_iff_butlast suffix_def)

text \<open>What the normalisation makes of text that already is canonical, after any version prefix.\<close>

lemma canonicalize_decoded:
  assumes "prefix ''/'' raw" and "length raw \<le> MAX_PATH_LEN" and "percent_decode raw = Some d"
    and "\<not> list_ex is_ctl d" and "is_utf8 d" and "strip_api_version_prefix d = p" and "canonical p"
  shows "canonicalize_path raw = Some p"
proof -
  obtain segs where segs: "list_all clean_segment segs"
    and p: "p = ''/'' @ join_with CHR ''/'' segs \<or> segs \<noteq> [] \<and> p = ''/'' @ join_with CHR ''/'' segs @ ''/''"
    using assms(7) by (auto simp: canonical_def)
  have "normalize_path p = p"
    using p canonical_segments [OF segs] clean_join_ends [OF segs]
    by (cases "segs = []") (auto simp: normalize_path_def suffix_slash)
  with assms(1-6) show ?thesis by (auto simp: canonicalize_path_def)
qed

lemma normalize_path_canonical:
  assumes "\<not> list_ex is_ctl s"
  shows "canonical (normalize_path s)"
proof -
  define segs where "segs = foldl push_segment [] (split_on CHR ''/'' s)"
  have "CHR ''/'' \<notin> set t \<and> \<not> list_ex is_ctl t" if "t \<in> set (split_on CHR ''/'' s)" for t
    using split_on_no_sep [OF that] set_split_on [OF _ that] assms by (auto simp: list_ex_iff)
  then have "list_all clean_segment segs" unfolding segs_def by (rule push_segments_clean [rotated]) simp_all
  moreover have "normalize_path s = ''/'' @ join_with CHR ''/'' segs
      \<or> segs \<noteq> [] \<and> normalize_path s = ''/'' @ join_with CHR ''/'' segs @ ''/''"
    by (auto simp: normalize_path_def Let_def segs_def [symmetric])
  ultimately show ?thesis unfolding canonical_def by blast
qed

text \<open>
  (C10) Every path that the rules see is canonical: what comes out of the canonicalisation starts with a
  slash, its segments are separated by single slashes, none is empty, \<^verbatim>\<open>.\<close> or \<^verbatim>\<open>..\<close>, and it has
  no control bytes, whatever the client sent. (Docker is sent this path without encoding and may read it
  differently: the path of \<^verbatim>\<open>/a/..%3F\<close> is \<^verbatim>\<open>/a/..?\<close>, which is canonical, but as a request target it
  names \<^verbatim>\<open>/a/..\<close>.)
\<close>

theorem canonicalize_path_canonical:
  assumes "canonicalize_path raw = Some p"
  shows "canonical p"
proof -
  obtain d where ctl: "\<not> list_ex is_ctl d" and p: "p = normalize_path (strip_api_version_prefix d)"
    using assms by (auto simp: canonicalize_path_def split: if_splits option.splits)
  have "set (strip_api_version_prefix d) \<subseteq> set d"
    using strip_version_suffix set_mono_suffix by blast
  with ctl show ?thesis unfolding p by (intro normalize_path_canonical) (auto simp: list_ex_iff)
qed

lemmas path_eval = canonicalize_path_def normalize_path_def MAX_PATH_LEN_def is_ctl_def is_utf8_def strip_api_version_prefix_def
  is_version_char_def is_digit_def push_segment_def to_digit_def utf8_tail_def
  suffix_slash Let_def

theorem canonicalize_path_canonical_witness: "canonical ''/containers/json''"
  by (rule canonicalize_path_canonical [of "''/v1.41//containers/./x/..//json''"]) (simp add: path_eval)

section \<open>Spellings of a path\<close>

lemma utf8_valid_append: "utf8_valid a \<Longrightarrow> utf8_valid b \<Longrightarrow> utf8_valid (a @ b)"
  by (induction a rule: utf8_valid.induct) (auto simp: utf8_tail_append split: option.split_asm)

lemma is_utf8_append: "is_utf8 a \<Longrightarrow> is_utf8 b \<Longrightarrow> is_utf8 (a @ b)"
  by (simp add: is_utf8_def utf8_valid_append)

lemma is_utf8_ascii: "list_all (\<lambda>c. (of_char c :: nat) < 128) s \<Longrightarrow> is_utf8 s"
  by (induction s) (auto simp: is_utf8_def utf8_tail_def)

lemma version_char_plain:
  "is_version_char c \<Longrightarrow> (of_char c :: nat) < 128 \<and> c \<noteq> CHR ''%'' \<and> c \<noteq> CHR ''/'' \<and> \<not> is_ctl c"
  by (auto simp: is_version_char_def is_digit_def is_ctl_def Let_def)

lemma canonical_prefix: "canonical p \<Longrightarrow> prefix ''/'' p"
  by (auto simp: canonical_def)

lemma strip_version:
  assumes "v \<noteq> []" "v \<noteq> ''.''" "list_all is_version_char v" "prefix ''/'' p"
  shows "strip_api_version_prefix (''/v'' @ v @ p) = p"
proof -
  have "CHR ''/'' \<notin> set v" using assms(3) version_char_plain by (auto simp: list_all_iff)
  then have "takeWhile (\<lambda>c. c \<noteq> CHR ''/'') (v @ p) = v"
    using assms(4) by (subst takeWhile_append2) (auto simp: prefix_def)
  with assms show ?thesis by (auto simp: strip_api_version_prefix_def prefix_def Let_def)
qed

text \<open>
  (C22) A version prefix does not hide a path: for a well-formed version such as \<^verbatim>\<open>1.41\<close>, the
  rules see \<^verbatim>\<open>/v1.41/containers/json\<close> as \<^verbatim>\<open>/containers/json\<close>. Only one prefix is taken off,
  though: the path that is left may start with another.
\<close>

theorem versioned_path_same:
  assumes "canonical p" "CHR ''%'' \<notin> set p" "is_utf8 p"
    and "v \<noteq> []" "v \<noteq> ''.''" "list_all is_version_char v" "length v + length p + 2 \<le> MAX_PATH_LEN"
  shows "canonicalize_path (''/v'' @ v @ p) = Some p"
proof (rule canonicalize_decoded)
  have plain: "(of_char c :: nat) < 128 \<and> c \<noteq> CHR ''%'' \<and> \<not> is_ctl c" if "c \<in> set v" for c
    using that assms(6) version_char_plain by (auto simp: list_all_iff)
  show "percent_decode (''/v'' @ v @ p) = Some (''/v'' @ v @ p)"
    using assms(2) plain by (intro percent_decode_plain) auto
  show "\<not> list_ex is_ctl (''/v'' @ v @ p)"
    using plain canonical_no_ctl [OF assms(1)] by (auto simp: list_ex_iff is_ctl_def)
  have "is_utf8 (''/v'' @ v)" using plain by (intro is_utf8_ascii) (auto simp: list_all_iff)
  from is_utf8_append [OF this assms(3)] show "is_utf8 (''/v'' @ v @ p)" by simp
  show "strip_api_version_prefix (''/v'' @ v @ p) = p"
    using assms canonical_prefix by (intro strip_version) auto
qed (use assms in auto)

text \<open>Percent-encoding every byte, with lower-case digits.\<close>

definition percent_encode :: "string \<Rightarrow> string" where
  "percent_encode s = concat (map (\<lambda>c. [CHR ''%'', digit_char (of_char c div 16), digit_char (of_char c mod 16)]) s)"

lemma hex_digit_roundtrip: "d < 16 \<Longrightarrow> to_digit 16 (digit_char d) = Some d"
  by (auto simp: to_digit_def digit_char_def Let_def)

lemma percent_decode_encode: "percent_decode (percent_encode s) = Some s"
proof (induction s)
  case (Cons c s)
  have "(of_char c :: nat) < 256" by (rule nat_of_char_less_256)
  then have "(of_char c :: nat) div 16 < 16" by linarith
  with Cons show ?case by (simp add: percent_encode_def hex_digit_roundtrip)
qed (simp add: percent_encode_def)

lemma length_percent_encode: "length (percent_encode s) = 3 * length s"
  by (induction s) (auto simp: percent_encode_def)

text \<open>
  (C21) Percent-encoding does not hide a path: for a canonical path that is UTF-8 and starts with no
  version prefix, encoding every byte after the leading slash gives the same path to the rules, as
  long as the encoded path is within the length limit.
\<close>

theorem encoded_path_same:
  assumes "canonical (CHR ''/'' # s)" "is_utf8 (CHR ''/'' # s)" "strip_api_version_prefix (CHR ''/'' # s) = CHR ''/'' # s"
    and "3 * length s < MAX_PATH_LEN"
  shows "canonicalize_path (CHR ''/'' # percent_encode s) = Some (CHR ''/'' # s)"
  using assms canonical_no_ctl [OF assms(1)]
  by (intro canonicalize_decoded) (auto simp: percent_decode_encode length_percent_encode)

theorem versioned_path_same_witness:
  "canonicalize_path (''/v'' @ ''1.41'' @ ''/v1.41/secrets'') = Some ''/v1.41/secrets''"
proof (rule versioned_path_same)
  show "canonical ''/v1.41/secrets''"
    unfolding canonical_def by (intro exI [of _ "[''v1.41'', ''secrets'']"]) (simp add: clean_segment_def is_ctl_def)
qed (simp_all add: is_utf8_def utf8_tail_def is_version_char_def is_digit_def MAX_PATH_LEN_def)

theorem encoded_path_same_witness:
  "canonicalize_path (CHR ''/'' # percent_encode ''info'') = Some ''/info''"
proof (rule encoded_path_same)
  show "canonical ''/info''"
    unfolding canonical_def by (intro exI [of _ "[''info'']"]) (simp add: clean_segment_def is_ctl_def)
qed (simp_all add: is_utf8_def utf8_tail_def strip_api_version_prefix_def MAX_PATH_LEN_def)

section \<open>Where two views of a request differ\<close>

lemma canonical_snoc:
  assumes "canonical p" and "p \<noteq> ''/''" and "last p \<noteq> CHR ''/''"
    and "c \<noteq> CHR ''/''" and "c \<noteq> CHR ''.''" and "\<not> is_ctl c"
  shows "canonical (p @ [c])"
proof -
  obtain segs where segs: "list_all clean_segment segs" and p: "p = ''/'' @ join_with CHR ''/'' segs"
    using assms(1,3) by (auto simp: canonical_def)
  with assms(2) have ne: "segs \<noteq> []" by auto
  then obtain ss s where ss: "segs = ss @ [s]" by (metis append_butlast_last_id)
  have snoc: "join_with CHR ''/'' (us @ [s @ [c]]) = join_with CHR ''/'' (us @ [s]) @ [c]" for us
    by (induction us) (auto simp: join_with_Cons)
  have "clean_segment s" using segs by (simp add: ss)
  then have "clean_segment (s @ [c])"
    using assms(4-6) by (auto simp: clean_segment_def append_eq_Cons_conv)
  with segs show ?thesis
    unfolding canonical_def p ss by (intro exI [of _ "ss @ [s @ [c]]"]) (simp add: snoc)
qed

lemma takeWhile_snoc_neq: "P c \<Longrightarrow> length (takeWhile P xs) < length xs \<Longrightarrow> takeWhile P (xs @ [c]) = takeWhile P xs"
  by (induction xs) auto

lemma strip_version_snoc:
  assumes "strip_api_version_prefix p = p" and "c \<noteq> CHR ''/''" and "prefix ''/'' p" and "c \<noteq> CHR ''v''"
  shows "strip_api_version_prefix (p @ [c]) = p @ [c]"
proof (cases "prefix ''/v'' p")
  case False
  then have "\<not> prefix ''/v'' (p @ [c])" using assms(4) by (auto simp: prefix_def append_eq_Cons_conv)
  then show ?thesis by (simp add: strip_api_version_prefix_def)
next
  case True
  let ?P = "\<lambda>c. c \<noteq> CHR ''/''"
  obtain r where p: "p = ''/v'' @ r" using True by (auto simp: prefix_def)
  show ?thesis
  proof (cases "length (takeWhile ?P r) < length r")
    case True
    with takeWhile_snoc_neq [of ?P c r] assms(1,2) show ?thesis
      by (auto simp: strip_api_version_prefix_def p Let_def split: if_splits)
  next
    case False
    then have "takeWhile ?P r = r"
      by (metis linorder_not_less take_all takeWhile_eq_take)
    then have "takeWhile ?P (r @ [c]) = r @ [c]" using assms(2) unfolding takeWhile_eq_all_conv by simp
    then show ?thesis by (simp add: strip_api_version_prefix_def p Let_def)
  qed
qed

lemma percent_decode_append:
  assumes "CHR ''%'' \<notin> set s"
  shows "percent_decode (s @ t) = map_option ((@) s) (percent_decode t)"
proof (cases "percent_decode t")
  case None
  with assms show ?thesis by (induction s) auto
next
  case (Some u)
  with assms show ?thesis by (induction s) auto
qed

text \<open>
  An encoded question mark separates what the rules see from what Docker gets: for a path \<open>p\<close>
  the request \<open>p%3F\<close> is evaluated under the path \<open>p?\<close>, a different one, but the request target
  sent upstream is the one of \<open>p\<close> with an empty query.
\<close>

theorem encoded_question_mark_escapes:
  assumes "canonical p" "p \<noteq> ''/''" "last p \<noteq> CHR ''/''" "CHR ''%'' \<notin> set p" "is_utf8 p"
    and "strip_api_version_prefix p = p" "length p + 3 \<le> MAX_PATH_LEN"
  shows "\<exists>seen. canonicalize_path (p @ ''%3F'') = Some seen \<and> seen \<noteq> p
       \<and> canonical_path_and_query seen None = canonical_path_and_query p (Some [])"
proof -
  have q: "canonical (p @ ''?'')"
    using assms by (intro canonical_snoc) (auto simp: is_ctl_def)
  have "canonicalize_path (p @ ''%3F'') = Some (p @ ''?'')"
  proof (rule canonicalize_decoded)
    show "prefix ''/'' (p @ ''%3F'')" using canonical_prefix [OF assms(1)] by (auto simp: prefix_def)
    show "percent_decode (p @ ''%3F'') = Some (p @ ''?'')"
      by (simp add: percent_decode_append [OF assms(4)] to_digit_def) code_simp
    show "is_utf8 (p @ ''?'')"
      using assms(5) by (rule is_utf8_append) (simp add: is_utf8_def utf8_tail_def)
    show "strip_api_version_prefix (p @ ''?'') = p @ ''?''"
      using assms canonical_prefix by (intro strip_version_snoc) auto
  qed (use assms canonical_no_ctl [OF q] q in auto)
  then show ?thesis by (auto simp: canonical_path_and_query_def)
qed

theorem encoded_question_mark_escapes_witness:
  "\<exists>seen. canonicalize_path (''/containers/create'' @ ''%3F'') = Some seen \<and> seen \<noteq> ''/containers/create''
       \<and> canonical_path_and_query seen None = canonical_path_and_query ''/containers/create'' (Some [])"
proof (rule encoded_question_mark_escapes)
  show "canonical ''/containers/create''"
    unfolding canonical_def by (intro exI [of _ "[''containers'', ''create'']"]) (simp add: clean_segment_def is_ctl_def)
qed (simp_all add: is_utf8_def utf8_tail_def strip_api_version_prefix_def MAX_PATH_LEN_def)


text \<open>The characters of an encoded text: none of them ends or changes a path segment.\<close>

lemma hex_digit_cases: "d < 16 \<Longrightarrow> digit_char d \<in> set ''0123456789abcdef''"
proof -
  have "list_all (\<lambda>d. digit_char d \<in> set ''0123456789abcdef'') [0..<16]" by code_simp
  then show "d < 16 \<Longrightarrow> digit_char d \<in> set ''0123456789abcdef''" by (simp only: list_all_iff) auto
qed

lemma percent_encode_chars: "c \<in> set (percent_encode s) \<Longrightarrow> c \<in> set ''%0123456789abcdef''"
proof (induction s)
  case (Cons b s)
  have "(of_char b :: nat) div 16 < 16" using nat_of_char_less_256 [of b] by linarith
  then have "digit_char (of_char b div 16) \<in> set ''%0123456789abcdef''" "digit_char (of_char b mod 16) \<in> set ''%0123456789abcdef''"
    using hex_digit_cases by (auto simp del: set_simps simp: set_simps(2) [of "CHR ''%''"])
  moreover have "c = CHR ''%'' \<or> c = digit_char (of_char b div 16) \<or> c = digit_char (of_char b mod 16) \<or> c \<in> set (percent_encode s)"
    using Cons.prems by (auto simp: percent_encode_def)
  moreover have "CHR ''%'' \<in> set ''%0123456789abcdef''" by simp
  ultimately show ?case using Cons.IH by metis
qed (simp add: percent_encode_def)

lemma percent_encode_plain:
  assumes "c \<in> set (percent_encode s)"
  shows "(of_char c :: nat) < 128" "c \<noteq> CHR ''/''" "c \<noteq> CHR ''.''" "\<not> is_ctl c"
  using percent_encode_chars [OF assms] by (auto simp: is_ctl_def)

lemma percent_encode_segment:
  assumes "s \<noteq> []"
  shows "clean_segment (percent_encode s)"
proof -
  have p: "percent_encode s \<noteq> []" using assms by (cases s) (simp_all add: percent_encode_def)
  have "CHR ''.'' \<notin> set (percent_encode s)" "CHR ''/'' \<notin> set (percent_encode s)" using percent_encode_plain by blast+
  then have "percent_encode s \<noteq> ''.''" "percent_encode s \<noteq> ''..''" "CHR ''/'' \<notin> set (percent_encode s)" by auto
  moreover have "\<not> list_ex is_ctl (percent_encode s)" using percent_encode_plain(4) by (auto simp: list_ex_iff)
  ultimately show ?thesis using p by (simp add: clean_segment_def)
qed

lemma percent_encode_canonical: "s \<noteq> [] \<Longrightarrow> canonical (CHR ''/'' # percent_encode s)"
  unfolding canonical_def by (intro exI [of _ "[percent_encode s]"]) (simp add: percent_encode_segment)

text \<open>
  Encoding a path twice hides it from the rules: for every text \<open>s\<close> the request with \<open>s\<close> encoded
  twice is evaluated under the path with \<open>s\<close> encoded once, which is also the target that Docker is
  asked for. A rule that names \<open>/s\<close> does not see it, while a server that decodes its request target
  answers for \<open>/s\<close>.
\<close>

theorem double_encoding_escapes:
  assumes "s \<noteq> []" and "9 * length s < MAX_PATH_LEN"
  shows "\<exists>seen. canonicalize_path (CHR ''/'' # percent_encode (percent_encode s)) = Some seen
       \<and> prefix ''/%'' seen \<and> seen \<noteq> CHR ''/'' # s
       \<and> canonical_path_and_query seen None = seen \<and> percent_decode seen = Some (CHR ''/'' # s)"
proof -
  let ?seen = "CHR ''/'' # percent_encode s"
  have ascii: "is_utf8 ?seen" by (rule is_utf8_ascii) (auto simp: list_all_iff percent_encode_plain)
  have len: "length (percent_encode s) = 3 * length s" by (rule length_percent_encode)
  then have ne: "?seen \<noteq> CHR ''/'' # s" using assms(1) by (auto dest: arg_cong [of _ _ length])
  have pre: "prefix ''/%'' ?seen" using assms(1) by (cases s) (simp_all add: percent_encode_def)
  then have strip: "strip_api_version_prefix ?seen = ?seen"
    by (auto simp: strip_api_version_prefix_def prefix_def)
  have "canonicalize_path (CHR ''/'' # percent_encode (percent_encode s)) = Some ?seen"
    using assms ascii strip percent_encode_canonical [OF assms(1)] canonical_no_ctl [OF percent_encode_canonical [OF assms(1)]]
    by (intro canonicalize_decoded) (auto simp: percent_decode_encode length_percent_encode)
  with pre ne show ?thesis
    by (auto simp: canonical_path_and_query_def percent_decode_encode)
qed

theorem double_encoding_escapes_witness:
  "\<exists>seen. canonicalize_path (CHR ''/'' # percent_encode (percent_encode ''secrets'')) = Some seen
       \<and> prefix ''/%'' seen \<and> seen \<noteq> ''/secrets''
       \<and> canonical_path_and_query seen None = seen \<and> percent_decode seen = Some ''/secrets''"
  by (rule double_encoding_escapes) (simp_all add: MAX_PATH_LEN_def)

end
