(* ===== verification/Client_Ip.thy ===== *)
theory Client_Ip
  imports Http
begin

text \<open>
  The client address of a request behind reverse proxies, \<^verbatim>\<open>src/main.rs\<close>
  (\<^verbatim>\<open>parse_trusted_proxies\<close>, \<^verbatim>\<open>compute_client_ip\<close>). The address feeds the
  \<^verbatim>\<open>client_ip\<close> conditions and the rate limiter's keys, so the properties say when a header can
  influence it.
\<close>

definition parse_trusted_proxies :: "external \<Rightarrow> string list \<Rightarrow> ip_net list" where
  "parse_trusted_proxies x raw = List.map_filter (ipnet_parse x) raw"

definition is_trusted :: "external \<Rightarrow> ip_net list \<Rightarrow> ip_addr \<Rightarrow> bool" where
  "is_trusted x proxies ip = list_ex (\<lambda>net. ipnet_contains x net ip) proxies"

text \<open>The three header loops.\<close>

definition real_ip :: "string \<Rightarrow> ip_addr option" where
  "real_ip v = parse_ip (trim v)"

definition xff_entry :: "external \<Rightarrow> ip_net list \<Rightarrow> string \<Rightarrow> ip_addr option" where
  "xff_entry x proxies entry =
     (case parse_ip (trim entry) of
        Some ip \<Rightarrow> if \<not> is_trusted x proxies ip then Some ip else None
      | None \<Rightarrow> None)"

definition xff_ip :: "external \<Rightarrow> ip_net list \<Rightarrow> string \<Rightarrow> ip_addr option" where
  "xff_ip x proxies v = find_map (xff_entry x proxies) (rev (split_on CHR '','' v))"

definition forwarded_param :: "string \<Rightarrow> ip_addr option" where
  "forwarded_param param =
     (case strip_prefix ''for='' (trim param) of
        None \<Rightarrow> None
      | Some rest \<Rightarrow>
          (let raw = trim_matches (\<lambda>c. c = CHR 0x22) rest;
               raw' = unwrap_or (Option.bind (strip_prefix ''['' raw) (strip_suffix '']'')) raw
           in parse_ip raw'))"

definition forwarded_ip :: "string \<Rightarrow> ip_addr option" where
  "forwarded_ip v =
     find_map (\<lambda>segment. find_map forwarded_param (split_on CHR '';'' segment)) (rev (split_on CHR '','' v))"

definition compute_client_ip :: "external \<Rightarrow> ip_addr \<Rightarrow> headers \<Rightarrow> ip_net list \<Rightarrow> ip_addr" where
  "compute_client_ip x peer_ip hs proxies =
     (if \<not> is_trusted x proxies peer_ip then peer_ip
      else case Option.bind (header_text x hs ''x-real-ip'') real_ip of
        Some ip \<Rightarrow> ip
      | None \<Rightarrow>
          (case Option.bind (header_text x hs ''x-forwarded-for'') (xff_ip x proxies) of
             Some ip \<Rightarrow> ip
           | None \<Rightarrow>
               (case Option.bind (header_text x hs ''forwarded'') forwarded_ip of
                  Some ip \<Rightarrow> ip
                | None \<Rightarrow> peer_ip)))"

section \<open>What a header can do\<close>

lemma find_map_rev_last:
  assumes "f e = Some y" and "\<forall>u \<in> set us. f u = None"
  shows "find_map f (rev (xs @ e # us)) = Some y"
proof -
  have "find_map f (rev us) = None" using assms(2) by (simp add: find_map_None_iff)
  with assms(1) show ?thesis by (simp add: find_map_append)
qed

lemma split_on_join_append:
  assumes "\<And>s. s \<in> set (e # es) \<Longrightarrow> c \<notin> set s"
  shows "split_on c (xs @ c # join_with c (e # es)) = split_on c xs @ e # es"
proof -
  have "split_on c (ys @ c # zs) = split_on c ys @ split_on c zs" for ys zs :: "'a list"
    by (induction ys) (auto simp: split_on_Cons simp del: split_on.simps(2))
  with split_join_with [of "e # es" c] assms show ?thesis by simp
qed

text \<open>The result is an address of the right form, since the peer is and the parser returns no other.\<close>

lemma find_map_wf: "(\<And>y ip. f y = Some ip \<Longrightarrow> addr_wf ip) \<Longrightarrow> find_map f ys = Some ip \<Longrightarrow> addr_wf ip"
  by (auto dest!: find_map_SomeD)

lemma compute_client_ip_wf: "addr_wf peer \<Longrightarrow> addr_wf (compute_client_ip x peer hs proxies)"
proof -
  have entry: "xff_entry x proxies e = Some ip \<Longrightarrow> addr_wf ip" for e ip
    by (auto simp: xff_entry_def split: option.splits if_splits dest: parse_ip_wf)
  have param: "forwarded_param p = Some ip \<Longrightarrow> addr_wf ip" for p ip
    by (auto simp: forwarded_param_def Let_def split: option.splits dest: parse_ip_wf)
  assume "addr_wf peer"
  then show ?thesis
    by (auto simp: compute_client_ip_def real_ip_def xff_ip_def forwarded_ip_def split: option.split Option.bind_split
        dest: parse_ip_wf intro: find_map_wf [OF entry] find_map_wf [OF find_map_wf [OF param]])
qed

text \<open>
  (C24) An address other than the peer's is believed only when the peer is a trusted proxy, and then
  it comes from the \<^verbatim>\<open>X-Real-IP\<close> header, or is the right-most \<^verbatim>\<open>X-Forwarded-For\<close> entry
  that is not itself a trusted proxy, or is a \<^verbatim>\<open>for=\<close> parameter of \<^verbatim>\<open>Forwarded\<close>.
\<close>

theorem client_ip_origin:
  assumes "compute_client_ip x peer hs proxies = ip" and "ip \<noteq> peer"
  shows "is_trusted x proxies peer
     \<and> (Option.bind (header_text x hs ''x-real-ip'') real_ip = Some ip
        \<or> (\<exists>v us e vs. header_text x hs ''x-forwarded-for'' = Some v \<and> split_on CHR '','' v = us @ e # vs
              \<and> parse_ip (trim e) = Some ip \<and> \<not> is_trusted x proxies ip
              \<and> (\<forall>w \<in> set vs. is_none_or (parse_ip (trim w)) (is_trusted x proxies)))
        \<or> Option.bind (header_text x hs ''forwarded'') forwarded_ip = Some ip)"
proof -
  have xff: "\<exists>us e vs. split_on CHR '','' v = us @ e # vs \<and> parse_ip (trim e) = Some ip
      \<and> \<not> is_trusted x proxies ip \<and> (\<forall>w \<in> set vs. is_none_or (parse_ip (trim w)) (is_trusted x proxies))"
    if found: "xff_ip x proxies v = Some ip" for v
  proof -
    obtain us e vs where s: "rev (split_on CHR '','' v) = us @ e # vs"
      and e: "xff_entry x proxies e = Some ip" and us: "\<forall>u \<in> set us. xff_entry x proxies u = None"
      using find_map_SomeD [OF found [unfolded xff_ip_def]] by blast
    have "split_on CHR '','' v = rev vs @ e # rev us" using arg_cong [OF s, of rev] by simp
    with e us show ?thesis
      by (intro exI [of _ "rev vs"] exI [of _ e] exI [of _ "rev us"])
         (auto simp: xff_entry_def is_none_or_def split: option.splits if_splits)
  qed
  show ?thesis
    using assms xff
    by (auto simp: compute_client_ip_def split: if_splits option.splits Option.bind_splits)
qed

text \<open>
  (C25) A forged \<^verbatim>\<open>X-Forwarded-For\<close> prefix is ignored: when the peer is a trusted proxy, no address
  comes in an \<^verbatim>\<open>X-Real-IP\<close> header (which would take precedence), and the trusted proxies appended, to
  the one \<^verbatim>\<open>X-Forwarded-For\<close> line that is read, the client's real address, not itself trusted, and
  then only their own, the client's address is found whatever text the client had put in front.
\<close>

theorem forged_xff_prefix_ignored:
  assumes "is_trusted x proxies peer" and "Option.bind (header_text x hs ''x-real-ip'') real_ip = None"
    and "header_text x hs ''x-forwarded-for'' = Some (forged @ '','' @ join_with CHR '','' (e # es))"
    and "\<forall>s \<in> set (e # es). CHR '','' \<notin> set s"
    and "parse_ip (trim e) = Some ip" and "\<not> is_trusted x proxies ip"
    and "\<forall>w \<in> set es. is_some_and (parse_ip (trim w)) (is_trusted x proxies)"
  shows "compute_client_ip x peer hs proxies = ip"
proof -
  have "xff_entry x proxies e = Some ip" using assms(5,6) by (simp add: xff_entry_def)
  moreover have "\<forall>w \<in> set es. xff_entry x proxies w = None"
    using assms(7) by (auto simp: xff_entry_def is_some_and_def split: option.splits)
  moreover have "split_on CHR '','' (forged @ CHR '','' # join_with CHR '','' (e # es)) = split_on CHR '','' forged @ e # es"
    using assms(4) by (intro split_on_join_append) blast
  ultimately have "xff_ip x proxies (forged @ '','' @ join_with CHR '','' (e # es)) = Some ip"
    using find_map_rev_last [of "xff_entry x proxies" e ip es] unfolding xff_ip_def by simp
  with assms(1-3) show ?thesis by (simp add: compute_client_ip_def)
qed

text \<open>Networks by exact address, enough to tell a proxy from a client.\<close>

definition host_nets :: external where
  "host_nets = no_external\<lparr>ipnet_contains := (\<lambda>(a, _) ip. a = ip)\<rparr>"

lemmas ip_eval = host_nets_def no_external_def is_trusted_def header_text_def header_get_def trim_def
  trim_matches_def is_ws_def parse_ip_def read_ipv4_def read_octet_def read_number_def read_char_def
  octets_addr_def to_digit_def numeral_3_eq_3

theorem client_ip_origin_witness:
  "compute_client_ip host_nets (V4 10 0 0 1) [(''x-real-ip'', ''7.7.7.7'')] [(V4 10 0 0 1, 32)] = V4 7 7 7 7
   \<and> is_trusted host_nets [(V4 10 0 0 1, 32)] (V4 10 0 0 1)"
proof -
  have ip: "compute_client_ip host_nets (V4 10 0 0 1) [(''x-real-ip'', ''7.7.7.7'')] [(V4 10 0 0 1, 32)] = V4 7 7 7 7"
    by (simp add: ip_eval compute_client_ip_def real_ip_def)
  from client_ip_origin [OF ip] ip show ?thesis by auto
qed

theorem forged_xff_prefix_ignored_witness:
  "compute_client_ip host_nets (V4 10 0 0 1)
     [(''x-forwarded-for'', ''1.1.1.1'' @ '','' @ join_with CHR '','' ['' 7.7.7.7'', '' 10.0.0.1''])] [(V4 10 0 0 1, 32)]
   = V4 7 7 7 7"
  by (rule forged_xff_prefix_ignored [where forged = "''1.1.1.1''" and e = "'' 7.7.7.7''" and es = "['' 10.0.0.1'']"])
     (simp_all add: ip_eval)

end
