(* ===== verification/Conditions.thy ===== *)
theory Conditions
  imports Config
begin

text \<open>
  Condition matching, \<^verbatim>\<open>src/rules.rs\<close>: the evaluation context and the matchers for
  \<^verbatim>\<open>path\<close>, \<^verbatim>\<open>method\<close>, \<^verbatim>\<open>header.*\<close>, \<^verbatim>\<open>client_ip\<close> and \<^verbatim>\<open>body.*\<close>
  conditions, and the evaluation of \<^verbatim>\<open>and\<close>/\<^verbatim>\<open>or\<close> groups. The lemmas relate each
  negative operator to its positive one.
\<close>

record evaluation_context =
  ctx_path :: string
  ctx_method :: string
  ctx_headers :: "(string \<times> string) list"
  ctx_client_ip :: string
  ctx_body_json :: "json option"
  ctx_user_role :: "string option"

section \<open>Matchers\<close>

definition cond_string :: "condition \<Rightarrow> string option" where
  "cond_string c = (case c_value c of Some v \<Rightarrow> yaml_value_to_string v | None \<Rightarrow> None)"

definition match_path_condition :: "external \<Rightarrow> condition \<Rightarrow> string \<Rightarrow> bool" where
  "match_path_condition x c path =
     (let val = cond_string c; op = c_operator c
      in if op = ''equals'' then is_some_and val (\<lambda>v. path = v)
         else if op = ''not_equals'' then is_none_or val (\<lambda>v. path \<noteq> v)
         else if op = ''contains'' then is_some_and val (\<lambda>v. sublist v path)
         else if op = ''not_contains'' then is_none_or val (\<lambda>v. \<not> sublist v path)
         else if op = ''starts_with'' then is_some_and val (\<lambda>v. prefix v path)
         else if op = ''ends_with'' then is_some_and val (\<lambda>v. suffix v path)
         else if op = ''matches'' then
           (case compiled_regex c of None \<Rightarrow> False | Some r \<Rightarrow> regex_is_match x r path)
         else if op = ''not_matches'' then
           (case compiled_regex c of None \<Rightarrow> True | Some r \<Rightarrow> \<not> regex_is_match x r path)
         else if op = ''in'' then
           (case c_value c of
              Some (YSequence vs) \<Rightarrow> list_ex (\<lambda>v. is_some_and (yaml_value_to_string v) (\<lambda>s. s = path)) vs
            | _ \<Rightarrow> False)
         else if op = ''not_in'' then
           (case c_value c of
              Some (YSequence vs) \<Rightarrow> list_all (\<lambda>v. is_none_or (yaml_value_to_string v) (\<lambda>s. s \<noteq> path)) vs
            | _ \<Rightarrow> True)
         else False)"

definition match_method_condition :: "condition \<Rightarrow> string \<Rightarrow> bool" where
  "match_method_condition c meth =
     (let val = cond_string c; op = c_operator c
      in if op = ''equals'' then is_some_and val (\<lambda>v. eq_ignore_ascii_case meth v)
         else if op = ''not_equals'' then is_none_or val (\<lambda>v. \<not> eq_ignore_ascii_case meth v)
         else if op = ''in'' then
           (case c_value c of
              Some (YSequence vs) \<Rightarrow>
                list_ex (\<lambda>v. is_some_and (yaml_value_to_string v) (\<lambda>s. eq_ignore_ascii_case meth s)) vs
            | _ \<Rightarrow> False)
         else if op = ''not_in'' then
           (case c_value c of
              Some (YSequence vs) \<Rightarrow>
                list_all (\<lambda>v. is_none_or (yaml_value_to_string v) (\<lambda>s. \<not> eq_ignore_ascii_case meth s)) vs
            | _ \<Rightarrow> True)
         else False)"

definition find_header :: "(string \<times> string) list \<Rightarrow> string \<Rightarrow> string option" where
  "find_header headers name = map_option snd (find (\<lambda>(k, _). eq_ignore_ascii_case k name) headers)"

definition match_header_condition :: "external \<Rightarrow> condition \<Rightarrow> (string \<times> string) list \<Rightarrow> string \<Rightarrow> bool" where
  "match_header_condition x c headers name =
     (let header_val = find_header headers name; cond_val = cond_string c; op = c_operator c
      in if op = ''equals'' then is_some_and header_val (\<lambda>v. cond_val = Some v)
         else if op = ''not_equals'' then is_none_or header_val (\<lambda>v. cond_val \<noteq> Some v)
         else if op = ''contains'' then
           is_some_and header_val (\<lambda>v. is_some_and cond_val (\<lambda>cv. sublist cv v))
         else if op = ''not_contains'' then
           is_none_or header_val (\<lambda>v. is_none_or cond_val (\<lambda>cv. \<not> sublist cv v))
         else if op = ''starts_with'' then
           is_some_and header_val (\<lambda>v. is_some_and cond_val (\<lambda>cv. prefix cv v))
         else if op = ''ends_with'' then
           is_some_and header_val (\<lambda>v. is_some_and cond_val (\<lambda>cv. suffix cv v))
         else if op = ''matches'' then
           is_some_and header_val
             (\<lambda>v. case compiled_regex c of None \<Rightarrow> False | Some r \<Rightarrow> regex_is_match x r v)
         else if op = ''exists'' then header_val \<noteq> None
         else if op = ''not_exists'' then header_val = None
         else if op = ''in'' then
           (case c_value c of
              Some (YSequence vs) \<Rightarrow>
                is_some_and header_val
                  (\<lambda>hv. list_ex (\<lambda>v. is_some_and (yaml_value_to_string v) (\<lambda>s. s = hv)) vs)
            | _ \<Rightarrow> False)
         else if op = ''not_in'' then
           (case c_value c of
              Some (YSequence vs) \<Rightarrow>
                is_none_or header_val
                  (\<lambda>hv. list_all (\<lambda>v. is_none_or (yaml_value_to_string v) (\<lambda>s. s \<noteq> hv)) vs)
            | _ \<Rightarrow> True)
         else False)"

definition cond_cidrs :: "condition \<Rightarrow> string list" where
  "cond_cidrs c =
     (case c_value c of
        Some (YSequence vs) \<Rightarrow> List.map_filter yaml_value_to_string vs
      | Some v \<Rightarrow> (case yaml_value_to_string v of None \<Rightarrow> [] | Some s \<Rightarrow> [s])
      | None \<Rightarrow> [])"

definition match_ip_condition :: "external \<Rightarrow> condition \<Rightarrow> string \<Rightarrow> bool" where
  "match_ip_condition x c client_ip_str =
     (let client_ip = parse_ip client_ip_str; op = c_operator c
      in if op = ''equals'' then
           is_some_and (cond_string c) (\<lambda>v. is_some_and client_ip (\<lambda>ip. show_ip ip = v))
         else if op = ''not_equals'' then
           is_none_or (cond_string c) (\<lambda>v. is_none_or client_ip (\<lambda>ip. show_ip ip \<noteq> v))
         else if op = ''in'' then
           (let cidrs = cond_cidrs c; ipnets = List.map_filter (ipnet_parse x) cidrs
            in if ipnets = [] then is_some_and client_ip (\<lambda>ip. list_ex (\<lambda>s. s = show_ip ip) cidrs)
               else is_some_and client_ip (\<lambda>ip. list_ex (\<lambda>net. ipnet_contains x net ip) ipnets))
         else if op = ''not_in'' then
           (let cidrs = cond_cidrs c; ipnets = List.map_filter (ipnet_parse x) cidrs
            in if ipnets = [] then is_none_or client_ip (\<lambda>ip. list_all (\<lambda>s. s \<noteq> show_ip ip) cidrs)
               else is_none_or client_ip (\<lambda>ip. \<not> list_ex (\<lambda>net. ipnet_contains x net ip) ipnets))
         else False)"

definition json_text :: "external \<Rightarrow> json \<Rightarrow> string" where
  "json_text x j = (case j of JString s \<Rightarrow> s | other \<Rightarrow> json_to_string x other)"

definition match_body_condition :: "external \<Rightarrow> condition \<Rightarrow> json option \<Rightarrow> string \<Rightarrow> bool" where
  "match_body_condition x c body_json field_path =
     (let json_val = (case body_json of None \<Rightarrow> None | Some b \<Rightarrow> json_get b field_path);
          op = c_operator c; cond_val = c_value c
      in if op = ''exists'' then json_val \<noteq> None
         else if op = ''not_exists'' then json_val = None
         else case json_val of
           None \<Rightarrow> False
         | Some jv \<Rightarrow>
             if op = ''equals'' then is_some_and cond_val (\<lambda>cv. value_equal cv jv)
             else if op = ''not_equals'' then is_none_or cond_val (\<lambda>cv. \<not> value_equal cv jv)
             else if op = ''contains'' then
               (case cond_string c of
                  None \<Rightarrow> False
                | Some cs \<Rightarrow>
                    (case jv of
                       JString s \<Rightarrow> sublist cs s
                     | JArray a \<Rightarrow> list_ex (\<lambda>item. is_some_and (as_str item) (\<lambda>s. s = cs)) a
                     | other \<Rightarrow> sublist cs (json_to_string x other)))
             else if op = ''not_contains'' then
               (case cond_string c of
                  None \<Rightarrow> True
                | Some cs \<Rightarrow>
                    (case jv of
                       JString s \<Rightarrow> \<not> sublist cs s
                     | JArray a \<Rightarrow> list_all (\<lambda>item. is_none_or (as_str item) (\<lambda>s. s \<noteq> cs)) a
                     | other \<Rightarrow> \<not> sublist cs (json_to_string x other)))
             else if op = ''in'' then
               (case cond_val of Some (YSequence vs) \<Rightarrow> list_ex (\<lambda>v. value_equal v jv) vs | _ \<Rightarrow> False)
             else if op = ''not_in'' then
               (case cond_val of Some (YSequence vs) \<Rightarrow> list_all (\<lambda>v. \<not> value_equal v jv) vs | _ \<Rightarrow> True)
             else if op = ''starts_with'' then is_some_and (cond_string c) (\<lambda>cv. prefix cv (json_text x jv))
             else if op = ''matches'' then
               (case compiled_regex c of None \<Rightarrow> False | Some r \<Rightarrow> regex_is_match x r (json_text x jv))
             else False)"

section \<open>Dispatch and groups\<close>

definition evaluate_condition :: "external \<Rightarrow> condition \<Rightarrow> evaluation_context \<Rightarrow> bool" where
  "evaluate_condition x c ctx =
     (let f = c_field c
      in if f = ''method'' then match_method_condition c (ctx_method ctx)
         else if f = ''path'' then match_path_condition x c (ctx_path ctx)
         else if f = ''client_ip'' then match_ip_condition x c (ctx_client_ip ctx)
         else if prefix ''header.'' f then match_header_condition x c (ctx_headers ctx) (drop 7 f)
         else if prefix ''body.'' f then match_body_condition x c (ctx_body_json ctx) (drop 5 f)
         else False)"

fun evaluate_node :: "external \<Rightarrow> condition_node \<Rightarrow> evaluation_context \<Rightarrow> bool" where
  "evaluate_node x (Leaf c) ctx = evaluate_condition x c ctx"
| "evaluate_node x (And ns) ctx = list_all (\<lambda>n. evaluate_node x n ctx) ns"
| "evaluate_node x (Or ns) ctx = list_ex (\<lambda>n. evaluate_node x n ctx) ns"

section \<open>Negative operators\<close>

lemma list_all_neg: "list_all (\<lambda>x. \<not> P x) xs \<longleftrightarrow> \<not> list_ex P xs"
  by (auto simp: list_all_iff list_ex_iff)

lemmas negative_simps = is_none_or_neg list_all_neg

lemma path_operators_dual:
  "match_path_condition x (c\<lparr>c_operator := ''not_equals''\<rparr>) p
     \<longleftrightarrow> \<not> match_path_condition x (c\<lparr>c_operator := ''equals''\<rparr>) p"
  "match_path_condition x (c\<lparr>c_operator := ''not_contains''\<rparr>) p
     \<longleftrightarrow> \<not> match_path_condition x (c\<lparr>c_operator := ''contains''\<rparr>) p"
  "match_path_condition x (c\<lparr>c_operator := ''not_matches''\<rparr>) p
     \<longleftrightarrow> \<not> match_path_condition x (c\<lparr>c_operator := ''matches''\<rparr>) p"
  "match_path_condition x (c\<lparr>c_operator := ''not_in''\<rparr>) p
     \<longleftrightarrow> \<not> match_path_condition x (c\<lparr>c_operator := ''in''\<rparr>) p"
  by (auto simp: match_path_condition_def cond_string_def negative_simps split: option.split yaml.split)

lemma method_operators_dual:
  "match_method_condition (c\<lparr>c_operator := ''not_equals''\<rparr>) m
     \<longleftrightarrow> \<not> match_method_condition (c\<lparr>c_operator := ''equals''\<rparr>) m"
  "match_method_condition (c\<lparr>c_operator := ''not_in''\<rparr>) m
     \<longleftrightarrow> \<not> match_method_condition (c\<lparr>c_operator := ''in''\<rparr>) m"
  by (auto simp: match_method_condition_def cond_string_def negative_simps split: option.split yaml.split)

lemma ip_operators_dual:
  "match_ip_condition x (c\<lparr>c_operator := ''not_equals''\<rparr>) ip
     \<longleftrightarrow> \<not> match_ip_condition x (c\<lparr>c_operator := ''equals''\<rparr>) ip"
  "match_ip_condition x (c\<lparr>c_operator := ''not_in''\<rparr>) ip
     \<longleftrightarrow> \<not> match_ip_condition x (c\<lparr>c_operator := ''in''\<rparr>) ip"
proof -
  show "match_ip_condition x (c\<lparr>c_operator := ''not_equals''\<rparr>) ip
     \<longleftrightarrow> \<not> match_ip_condition x (c\<lparr>c_operator := ''equals''\<rparr>) ip"
    by (simp add: match_ip_condition_def cond_string_def negative_simps)
  show "match_ip_condition x (c\<lparr>c_operator := ''not_in''\<rparr>) ip
     \<longleftrightarrow> \<not> match_ip_condition x (c\<lparr>c_operator := ''in''\<rparr>) ip"
    by (cases "parse_ip ip") (auto simp: match_ip_condition_def cond_cidrs_def Let_def list_all_iff list_ex_iff)
qed

lemma header_operators_dual:
  "match_header_condition x (c\<lparr>c_operator := ''not_equals''\<rparr>) hs n
     \<longleftrightarrow> \<not> match_header_condition x (c\<lparr>c_operator := ''equals''\<rparr>) hs n"
  "match_header_condition x (c\<lparr>c_operator := ''not_contains''\<rparr>) hs n
     \<longleftrightarrow> \<not> match_header_condition x (c\<lparr>c_operator := ''contains''\<rparr>) hs n"
  "match_header_condition x (c\<lparr>c_operator := ''not_exists''\<rparr>) hs n
     \<longleftrightarrow> \<not> match_header_condition x (c\<lparr>c_operator := ''exists''\<rparr>) hs n"
  "match_header_condition x (c\<lparr>c_operator := ''not_in''\<rparr>) hs n
     \<longleftrightarrow> \<not> match_header_condition x (c\<lparr>c_operator := ''in''\<rparr>) hs n"
  by (auto simp: match_header_condition_def cond_string_def negative_simps split: option.split yaml.split)

text \<open>The header matcher has no \<^verbatim>\<open>not_matches\<close>: the operator falls through to \<open>False\<close>.\<close>

lemma header_not_matches_never:
  "\<not> match_header_condition x (c\<lparr>c_operator := ''not_matches''\<rparr>) hs n"
  by (simp add: match_header_condition_def)

text \<open>For a field that is present the body operators are dual; for a missing one both fail.\<close>

lemma body_operators_dual:
  assumes "body = Some b" and "json_get b p = Some v"
  shows "match_body_condition x (c\<lparr>c_operator := ''not_equals''\<rparr>) body p
       \<longleftrightarrow> \<not> match_body_condition x (c\<lparr>c_operator := ''equals''\<rparr>) body p"
    and "match_body_condition x (c\<lparr>c_operator := ''not_contains''\<rparr>) body p
       \<longleftrightarrow> \<not> match_body_condition x (c\<lparr>c_operator := ''contains''\<rparr>) body p"
    and "match_body_condition x (c\<lparr>c_operator := ''not_in''\<rparr>) body p
       \<longleftrightarrow> \<not> match_body_condition x (c\<lparr>c_operator := ''in''\<rparr>) body p"
  using assms
  by (auto simp: match_body_condition_def cond_string_def negative_simps list_all_iff list_ex_iff
      split: option.split yaml.split json.split)

lemma body_missing_field:
  assumes "body = None \<or> (\<exists>b. body = Some b \<and> json_get b p = None)"
    and "c_operator c \<noteq> ''not_exists''"
  shows "\<not> match_body_condition x c body p"
  using assms by (auto simp: match_body_condition_def)

text \<open>
  Where a negated operator is defined: by field and operator, and for most body operators only if
  the field is present.
\<close>

definition body_field :: "evaluation_context \<Rightarrow> string \<Rightarrow> json option" where
  "body_field ctx p = Option.bind (ctx_body_json ctx) (\<lambda>b. json_get b p)"

definition negatable :: "string \<Rightarrow> string \<Rightarrow> evaluation_context \<Rightarrow> bool" where
  "negatable f op ctx =
     (if f = ''method'' then op \<in> {''equals'', ''in''}
      else if f = ''path'' then op \<in> {''equals'', ''contains'', ''matches'', ''in''}
      else if f = ''client_ip'' then op \<in> {''equals'', ''in''}
      else if prefix ''header.'' f then op \<in> {''equals'', ''contains'', ''exists'', ''in''}
      else if prefix ''body.'' f then
        op = ''exists'' \<or> op \<in> {''equals'', ''contains'', ''in''} \<and> body_field ctx (drop 5 f) \<noteq> None
      else False)"

lemma negated_method:
  "match_method_condition (c\<lparr>c_operator := ''not_'' @ op\<rparr>) m
     \<longleftrightarrow> op \<in> {''equals'', ''in''} \<and> \<not> match_method_condition (c\<lparr>c_operator := op\<rparr>) m"
proof (cases "op \<in> {''equals'', ''in''}")
  case True
  then show ?thesis using method_operators_dual [of c m] by auto
qed (simp add: match_method_condition_def)

lemma negated_path:
  "match_path_condition x (c\<lparr>c_operator := ''not_'' @ op\<rparr>) p
     \<longleftrightarrow> op \<in> {''equals'', ''contains'', ''matches'', ''in''} \<and> \<not> match_path_condition x (c\<lparr>c_operator := op\<rparr>) p"
proof (cases "op \<in> {''equals'', ''contains'', ''matches'', ''in''}")
  case True
  then show ?thesis using path_operators_dual [of x c p] by auto
qed (simp add: match_path_condition_def)

lemma negated_ip:
  "match_ip_condition x (c\<lparr>c_operator := ''not_'' @ op\<rparr>) ip
     \<longleftrightarrow> op \<in> {''equals'', ''in''} \<and> \<not> match_ip_condition x (c\<lparr>c_operator := op\<rparr>) ip"
proof (cases "op \<in> {''equals'', ''in''}")
  case True
  then show ?thesis using ip_operators_dual [of x c ip] by auto
qed (simp add: match_ip_condition_def)

lemma negated_header:
  "match_header_condition x (c\<lparr>c_operator := ''not_'' @ op\<rparr>) hs n
     \<longleftrightarrow> op \<in> {''equals'', ''contains'', ''exists'', ''in''} \<and> \<not> match_header_condition x (c\<lparr>c_operator := op\<rparr>) hs n"
proof (cases "op \<in> {''equals'', ''contains'', ''exists'', ''in''}")
  case True
  then show ?thesis using header_operators_dual [of x c hs n] by auto
qed (simp add: match_header_condition_def)

lemma negated_body:
  "match_body_condition x (c\<lparr>c_operator := ''not_'' @ op\<rparr>) body p
     \<longleftrightarrow> (op = ''exists'' \<or> op \<in> {''equals'', ''contains'', ''in''} \<and> Option.bind body (\<lambda>b. json_get b p) \<noteq> None)
        \<and> \<not> match_body_condition x (c\<lparr>c_operator := op\<rparr>) body p"
proof (cases "op = ''exists''")
  case True
  then show ?thesis by (simp add: match_body_condition_def)
next
  case other: False
  show ?thesis
  proof (cases "Option.bind body (\<lambda>b. json_get b p)")
    case None
    then have "body = None \<or> (\<exists>b. body = Some b \<and> json_get b p = None)" by (cases body) auto
    with None other body_missing_field [of body p "c\<lparr>c_operator := ''not_'' @ op\<rparr>" x] show ?thesis by auto
  next
    case (Some v)
    then obtain b where b: "body = Some b" "json_get b p = Some v" by (cases body) auto
    show ?thesis
    proof (cases "op \<in> {''equals'', ''contains'', ''in''}")
      case True
      with b body_operators_dual [OF b, of x c] show ?thesis by auto
    qed (use b other in \<open>simp add: match_body_condition_def\<close>)
  qed
qed

text \<open>
  (C26) What a negated operator means, for every field and operator: where it is defined it holds exactly
  when the plain operator does not, and elsewhere it never holds. It is undefined for
  \<^verbatim>\<open>not_matches\<close> on headers, and on a body field that is missing for all but \<^verbatim>\<open>not_exists\<close>: such a
  condition silently disables its rule.
\<close>

theorem negated_operator_exact:
  "evaluate_condition x (c\<lparr>c_operator := ''not_'' @ op\<rparr>) ctx
     \<longleftrightarrow> negatable (c_field c) op ctx \<and> \<not> evaluate_condition x (c\<lparr>c_operator := op\<rparr>) ctx"
  by (simp add: evaluate_condition_def negatable_def Let_def body_field_def negated_method [simplified] negated_path [simplified]
      negated_ip [simplified] negated_header [simplified] negated_body [simplified])

end
