(* ===== verification/Rule_Engine.thy ===== *)
theory Rule_Engine
  imports Conditions Rate_Limiter
begin

text \<open>
  Rule evaluation, \<^verbatim>\<open>src/rules.rs\<close>: \<^verbatim>\<open>evaluate_request_detailed\<close>, its wrapper
  \<^verbatim>\<open>evaluate_request\<close> and \<^verbatim>\<open>collect_response_filters\<close>. The loop over the rules is a
  recursion that threads the rate limiter; \<open>clk i\<close> is the clock reading of the \<open>i\<close>-th rule's
  check. A result \<^const>\<open>None\<close> is a panic inside the rate limiter. The lemmas relate the loop
  to a first-match specification and state which rules are enforced.
\<close>

datatype rule_result = Allow | Deny u16 string

record rule_decision =
  d_result :: rule_result
  d_rule_name :: "string option"
  d_action :: "string option"
  d_dry_run :: bool

definition decision_allow :: rule_decision where
  "decision_allow = \<lparr>d_result = Allow, d_rule_name = None, d_action = None, d_dry_run = False\<rparr>"

datatype rule_step = Next | Decide rule_decision | Panicked

definition rule_matches :: "external \<Rightarrow> rule \<Rightarrow> evaluation_context \<Rightarrow> bool" where
  "rule_matches x r ctx = (r_conditions r \<noteq> [] \<and> list_all (\<lambda>c. evaluate_node x c ctx) (r_conditions r))"

definition is_dry :: "rule \<Rightarrow> bool" where
  "is_dry r = unwrap_or (r_dry_run r) False"

text \<open>The decision of a blocking rule: enforced, or allowed and flagged in a dry run.\<close>

definition block_decision :: "rule \<Rightarrow> string \<Rightarrow> u16 \<Rightarrow> string \<Rightarrow> rule_decision" where
  "block_decision r act st msg =
     (if is_dry r then
        \<lparr>d_result = Allow, d_rule_name = Some (r_name r), d_action = Some act, d_dry_run = True\<rparr>
      else
        \<lparr>d_result = Deny st msg, d_rule_name = Some (r_name r), d_action = Some act, d_dry_run = False\<rparr>)"

definition required_role :: "rule \<Rightarrow> string" where
  "required_role r = unwrap_or (r_role r) ''admin''"

definition role_satisfied :: "rule \<Rightarrow> evaluation_context \<Rightarrow> bool" where
  "role_satisfied r ctx =
     (let user_role = unwrap_or (ctx_user_role ctx) []
      in user_role = ''admin'' \<or> user_role = required_role r)"

definition rate_key :: "rule \<Rightarrow> evaluation_context \<Rightarrow> string" where
  "rate_key r ctx = r_name r @ '':'' @ ctx_client_ip ctx"

text \<open>The body of the loop, for one rule.\<close>

definition apply_rule ::
    "external \<Rightarrow> instant \<Rightarrow> rule \<Rightarrow> evaluation_context \<Rightarrow> rate_limiter \<Rightarrow> rule_step \<times> rate_limiter" where
  "apply_rule x now r ctx rl =
     (if \<not> rule_matches x r ctx then (Next, rl)
      else if r_action r = ''deny'' then
        (Decide (block_decision r ''deny'' (unwrap_or (r_status r) 403)
                  (unwrap_or (r_message r) ''Forbidden by rule'')), rl)
      else if r_action r = ''allow'' then
        (Decide \<lparr>d_result = Allow, d_rule_name = Some (r_name r), d_action = Some ''allow'',
                 d_dry_run = False\<rparr>, rl)
      else if r_action r = ''require_role'' then
        (if role_satisfied r ctx then (Next, rl)
         else (Decide (block_decision r ''require_role'' (unwrap_or (r_status r) 403)
                 (unwrap_or (r_message r) (''Role '' @ quoted (required_role r) @ '' required''))), rl))
      else if r_action r = ''response_filter'' then (Next, rl)
      else if r_action r = ''rate_limit'' then
        (if is_dry r then (Next, rl)
         else case r_rate_limit r of
             None \<Rightarrow> (Next, rl)
           | Some cfg \<Rightarrow>
               (let (res, rl') =
                      rl_check now (rate_key r ctx) (rl_requests cfg) (rl_period cfg) (rl_penalty cfg) rl
                in case res of
                     None \<Rightarrow> (Panicked, rl')
                   | Some True \<Rightarrow> (Next, rl')
                   | Some False \<Rightarrow>
                       (Decide (block_decision r ''rate_limit'' (unwrap_or (r_status r) 429)
                                 (unwrap_or (r_message r) ''Rate limit exceeded'')), rl')))
      else (Next, rl))"

fun evaluate_request_detailed ::
    "external \<Rightarrow> (nat \<Rightarrow> instant) \<Rightarrow> rule list \<Rightarrow> evaluation_context \<Rightarrow> rate_limiter
       \<Rightarrow> rule_decision option \<times> rate_limiter" where
  "evaluate_request_detailed x clk [] ctx rl = (Some decision_allow, rl)"
| "evaluate_request_detailed x clk (r # rs) ctx rl =
     (case apply_rule x (clk 0) r ctx rl of
        (Next, rl') \<Rightarrow> evaluate_request_detailed x (\<lambda>i. clk (Suc i)) rs ctx rl'
      | (Decide d, rl') \<Rightarrow> (Some d, rl')
      | (Panicked, rl') \<Rightarrow> (None, rl'))"

definition evaluate_request ::
    "external \<Rightarrow> (nat \<Rightarrow> instant) \<Rightarrow> rule list \<Rightarrow> evaluation_context \<Rightarrow> rate_limiter
       \<Rightarrow> rule_result option \<times> rate_limiter" where
  "evaluate_request x clk rules ctx rl =
     (let (d, rl') = evaluate_request_detailed x clk rules ctx rl in (map_option d_result d, rl'))"

fun collect_response_filters ::
    "external \<Rightarrow> rule list \<Rightarrow> evaluation_context \<Rightarrow> response_filter_entry list" where
  "collect_response_filters x [] ctx = []"
| "collect_response_filters x (r # rs) ctx =
     (if rule_matches x r ctx then unwrap_or (r_response_filter r) [] else [])
       @ collect_response_filters x rs ctx"

section \<open>The limiter's invariant\<close>

lemma apply_rule_inv [inv_intros]: "rl_inv rl \<Longrightarrow> rl_inv (snd (apply_rule x now r ctx rl))"
  using rl_check_inv
  by (auto simp: apply_rule_def Let_def split: option.splits prod.splits bool.splits if_splits)
     (metis snd_conv)+

lemma evaluate_inv [inv_intros]:
  "rl_inv rl \<Longrightarrow> rl_inv (snd (evaluate_request_detailed x clk rules ctx rl))"
proof (induction x clk rules ctx rl rule: evaluate_request_detailed.induct)
  case (2 x clk r rs ctx rl)
  have "rl_inv (snd (apply_rule x (clk 0) r ctx rl))" using "2.prems" by (rule apply_rule_inv)
  with "2.IH" show ?case by (auto split: prod.splits rule_step.splits)
qed simp

text \<open>Evaluation touches only the buckets of the rules in the list for the client at hand.\<close>

lemma evaluate_frame:
  "rl_inv rl \<Longrightarrow> k \<notin> (\<lambda>r. rate_key r ctx) ` set rules \<Longrightarrow>
     tbl_get (snd (evaluate_request_detailed x clk rules ctx rl)) k = tbl_get rl k"
proof (induction x clk rules ctx rl rule: evaluate_request_detailed.induct)
  case (2 x clk r rs ctx rl)
  let ?rl = "snd (apply_rule x (clk 0) r ctx rl)"
  have "rl_inv ?rl" using "2.prems"(1) by (rule apply_rule_inv)
  moreover have "tbl_get ?rl k = tbl_get rl k"
    using "2.prems" rl.frame_step [of rl "RlCheck (clk 0) (rate_key r ctx) m per pen" for m per pen]
    by (auto simp: apply_rule_def Let_def case_prod_beta split: option.split bool.split)
  ultimately show ?case using 2 by (auto split: prod.splits rule_step.splits)
qed simp

section \<open>Which rules decide\<close>

text \<open>
  A rule is a \<^emph>\<open>bypass\<close> for a request when it ends the evaluation with an allow: an \<^verbatim>\<open>allow\<close>
  rule that matches, or a blocking rule in dry-run mode.
\<close>

definition bypasses :: "external \<Rightarrow> rule \<Rightarrow> evaluation_context \<Rightarrow> bool" where
  "bypasses x r ctx =
     (rule_matches x r ctx
      \<and> (r_action r = ''allow''
         \<or> is_dry r \<and> (r_action r = ''deny'' \<or> r_action r = ''require_role'' \<and> \<not> role_satisfied r ctx)))"

text \<open>A rule \<^emph>\<open>blocks\<close> a request regardless of the limiter's state.\<close>

definition blocks :: "external \<Rightarrow> rule \<Rightarrow> evaluation_context \<Rightarrow> bool" where
  "blocks x r ctx =
     (rule_matches x r ctx \<and> \<not> is_dry r
      \<and> (r_action r = ''deny'' \<or> r_action r = ''require_role'' \<and> \<not> role_satisfied r ctx))"

lemma apply_rule_allow:
  assumes "apply_rule x now r ctx rl = (Decide d, rl')" and "d_result d = Allow"
  shows "bypasses x r ctx"
  using assms
  by (auto simp: apply_rule_def bypasses_def block_decision_def Let_def
      split: if_splits option.splits prod.splits bool.splits)

lemma apply_rule_blocks:
  "blocks x r ctx \<Longrightarrow> \<exists>st msg. apply_rule x now r ctx rl =
     (Decide \<lparr>d_result = Deny st msg, d_rule_name = Some (r_name r), d_action = Some (r_action r),
              d_dry_run = False\<rparr>, rl)"
  by (auto simp: blocks_def apply_rule_def block_decision_def)

lemma apply_rule_deny_reason:
  assumes "apply_rule x now r ctx rl = (Decide d, rl')" and "d_result d = Deny st msg"
  shows "rule_matches x r ctx \<and> \<not> is_dry r \<and> r_action r \<in> {''deny'', ''require_role'', ''rate_limit''}
       \<and> d_rule_name d = Some (r_name r) \<and> d_action d = Some (r_action r) \<and> \<not> d_dry_run d
       \<and> st = unwrap_or (r_status r) (if r_action r = ''rate_limit'' then 429 else 403)
       \<and> (r_action r = ''require_role'' \<longrightarrow> \<not> role_satisfied r ctx)"
  using assms
  by (auto simp: apply_rule_def block_decision_def Let_def
      split: if_splits option.splits prod.splits bool.splits)

lemma evaluate_allow_cases:
  assumes "evaluate_request_detailed x clk rules ctx rl = (Some d, rl')" and "d_result d = Allow"
  shows "(\<forall>r \<in> set rules. \<not> blocks x r ctx)
       \<or> (\<exists>rs1 r rs2. rules = rs1 @ r # rs2 \<and> bypasses x r ctx \<and> (\<forall>r' \<in> set rs1. \<not> blocks x r' ctx))"
  using assms
proof (induction x clk rules ctx rl rule: evaluate_request_detailed.induct)
  case (2 x clk r rs ctx rl)
  obtain st rl1 where ap: "apply_rule x (clk 0) r ctx rl = (st, rl1)" by fastforce
  have nb: "\<not> blocks x r ctx" if "st = Next"
    using that ap apply_rule_blocks [of x r ctx "clk 0" rl] by auto
  show ?case
  proof (cases st)
    case Next
    with "2.prems" ap have ev: "evaluate_request_detailed x (\<lambda>i. clk (Suc i)) rs ctx rl1 = (Some d, rl')"
      by simp
    from "2.IH" [OF ap [symmetric] Next ev "2.prems"(2)] show ?thesis
    proof
      assume "\<forall>r \<in> set rs. \<not> blocks x r ctx"
      with nb [OF Next] show ?thesis by simp
    next
      assume "\<exists>rs1 r rs2. rs = rs1 @ r # rs2 \<and> bypasses x r ctx \<and> (\<forall>r' \<in> set rs1. \<not> blocks x r' ctx)"
      then obtain rs1 b rs2 where "rs = rs1 @ b # rs2" "bypasses x b ctx" "\<forall>r' \<in> set rs1. \<not> blocks x r' ctx"
        by blast
      then have "r # rs = (r # rs1) @ b # rs2 \<and> bypasses x b ctx \<and> (\<forall>r' \<in> set (r # rs1). \<not> blocks x r' ctx)"
        using nb [OF Next] by simp
      then show ?thesis by blast
    qed
  next
    case (Decide d')
    with "2.prems" ap have "bypasses x r ctx" by (auto intro: apply_rule_allow)
    then have "r # rs = [] @ r # rs \<and> bypasses x r ctx \<and> (\<forall>r' \<in> set []. \<not> blocks x r' ctx)" by simp
    then show ?thesis by blast
  next
    case Panicked
    with "2.prems" ap show ?thesis by simp
  qed
qed simp

text \<open>
  Blocking rules are enforced: if a matching, non-dry-run \<^verbatim>\<open>deny\<close> rule (or a
  \<^verbatim>\<open>require_role\<close> rule the caller does not satisfy) is in the list, the request is allowed
  only if an earlier rule bypasses it: a matching \<^verbatim>\<open>allow\<close>, or a blocking rule in dry-run mode.
\<close>

lemma deny_enforced:
  assumes "blocks x r ctx" and "\<forall>b \<in> set rs1. \<not> bypasses x b ctx"
    and "fst (evaluate_request_detailed x clk (rs1 @ r # rs2) ctx rl) = Some d"
  shows "\<exists>st msg. d_result d = Deny st msg"
proof (rule ccontr)
  assume "\<not> ?thesis"
  then have allow: "d_result d = Allow" by (cases "d_result d") auto
  obtain rl' where ev: "evaluate_request_detailed x clk (rs1 @ r # rs2) ctx rl = (Some d, rl')"
    using assms(3) by (cases "evaluate_request_detailed x clk (rs1 @ r # rs2) ctx rl") auto
  from evaluate_allow_cases [OF ev allow] assms(1) obtain qs1 b qs2
    where eq: "rs1 @ r # rs2 = qs1 @ b # qs2" and b: "bypasses x b ctx"
      and nb: "\<forall>r' \<in> set qs1. \<not> blocks x r' ctx" by auto
  have "\<not> bypasses x r ctx" using assms(1) by (auto simp: blocks_def bypasses_def)
  with b assms(2) eq have "r \<in> set qs1"
    by (auto simp: append_eq_append_conv2 append_eq_Cons_conv Cons_eq_append_conv)
  with nb assms(1) show False by blast
qed


text \<open>Rules and a request for the examples.\<close>

definition path_rule :: "string \<Rightarrow> string \<Rightarrow> string \<Rightarrow> string \<Rightarrow> rule" where
  "path_rule name act op v =
     rule_default\<lparr>r_name := name, r_action := act,
       r_conditions := [Leaf \<lparr>c_field = ''path'', c_operator = op, c_value = Some (YString v),
                              compiled_regex = None\<rparr>]\<rparr>"

definition get_request :: "string \<Rightarrow> evaluation_context" where
  "get_request p =
     \<lparr>ctx_path = p, ctx_method = ''GET'', ctx_headers = [], ctx_client_ip = ''127.0.0.1'',
      ctx_body_json = None, ctx_user_role = None\<rparr>"

lemmas rule_eval = path_rule_def get_request_def rule_default_def rule_matches_def evaluate_condition_def
  match_path_condition_def cond_string_def is_dry_def apply_rule_def block_decision_def

text \<open>
  (C27) Every denial is justified: a deny decision carries the name, action and status of a rule
  in the list that matches the request, is not in dry-run mode and has a blocking action; a
  role denial only hits callers without the role.
\<close>

theorem deny_justified:
  assumes "fst (evaluate_request_detailed x clk rules ctx rl) = Some d" and "d_result d = Deny st msg"
  shows "\<exists>r \<in> set rules. rule_matches x r ctx \<and> \<not> is_dry r
           \<and> r_action r \<in> {''deny'', ''require_role'', ''rate_limit''}
           \<and> d_rule_name d = Some (r_name r) \<and> d_action d = Some (r_action r) \<and> \<not> d_dry_run d
           \<and> st = unwrap_or (r_status r) (if r_action r = ''rate_limit'' then 429 else 403)
           \<and> (r_action r = ''require_role'' \<longrightarrow> \<not> role_satisfied r ctx)"
  using assms
proof (induction x clk rules ctx rl rule: evaluate_request_detailed.induct)
  case (1 x clk ctx rl)
  then show ?case by (auto simp: decision_allow_def)
next
  case (2 x clk r rs ctx rl)
  obtain s rl1 where ap: "apply_rule x (clk 0) r ctx rl = (s, rl1)" by fastforce
  show ?case
  proof (cases s)
    case Next
    with "2.prems" ap have "fst (evaluate_request_detailed x (\<lambda>i. clk (Suc i)) rs ctx rl1) = Some d" by simp
    from "2.IH" [OF ap [symmetric] Next this "2.prems"(2)] show ?thesis by auto
  next
    case (Decide d')
    with "2.prems" ap have "d' = d" by simp
    with apply_rule_deny_reason [OF ap [unfolded Decide]] "2.prems"(2) show ?thesis by auto
  next
    case Panicked
    with "2.prems" ap show ?thesis by simp
  qed
qed

theorem deny_justified_witness:
  "\<exists>d st msg. fst (evaluate_request_detailed no_external (\<lambda>_. 0)
      [path_rule ''no-secrets'' ''deny'' ''starts_with'' ''/secrets''] (get_request ''/secrets'') []) = Some d
   \<and> d_result d = Deny st msg \<and> d_rule_name d = Some ''no-secrets''"
proof -
  let ?r = "path_rule ''no-secrets'' ''deny'' ''starts_with'' ''/secrets''"
  let ?d = "block_decision ?r ''deny'' 403 ''Forbidden by rule''"
  have e: "fst (evaluate_request_detailed no_external (\<lambda>_. 0) [?r] (get_request ''/secrets'') []) = Some ?d"
    by (simp add: rule_eval)
  have d: "d_result ?d = Deny 403 ''Forbidden by rule''" by (simp add: rule_eval)
  from deny_justified [OF e d] e d show ?thesis by (auto simp: path_rule_def)
qed

section \<open>First-match specification\<close>

text \<open>
  What the documentation promises of a list of rules: the first rule that settles a request decides. A
  rule applies when it has conditions and all of them hold. An applying rule passes the request over unless it is an
  \<^verbatim>\<open>allow\<close> or \<^verbatim>\<open>deny\<close> rule, or a \<^verbatim>\<open>require_role\<close> rule that the caller fails; in particular a
  \<^verbatim>\<open>require_role\<close> rule that the caller satisfies leaves the request to the rules behind it.
\<close>

definition applies :: "external \<Rightarrow> evaluation_context \<Rightarrow> rule \<Rightarrow> bool" where
  "applies x ctx r = (r_conditions r \<noteq> [] \<and> (\<forall>n \<in> set (r_conditions r). evaluate_node x n ctx))"

definition lacks_role :: "evaluation_context \<Rightarrow> rule \<Rightarrow> bool" where
  "lacks_role ctx r = (unwrap_or (ctx_user_role ctx) [] \<notin> {''admin'', unwrap_or (r_role r) ''admin''})"

definition passes_over :: "external \<Rightarrow> evaluation_context \<Rightarrow> rule \<Rightarrow> bool" where
  "passes_over x ctx r = (\<not> (applies x ctx r \<and> (r_action r \<in> {''allow'', ''deny''} \<or> r_action r = ''require_role'' \<and> lacks_role ctx r)))"

text \<open>
  How the rule that settles the request is reported: an \<^verbatim>\<open>allow\<close> rule and a blocking rule in dry-run
  mode allow the request, any other blocking rule denies it with its status and message.
\<close>

definition decided_by :: "rule \<Rightarrow> rule_decision \<Rightarrow> bool" where
  "decided_by r d =
     (d_rule_name d = Some (r_name r) \<and> d_action d = Some (r_action r)
      \<and> (d_dry_run d \<longleftrightarrow> r_action r \<noteq> ''allow'' \<and> r_dry_run r = Some True)
      \<and> (if r_action r = ''allow'' \<or> r_dry_run r = Some True then d_result d = Allow
         else \<exists>msg. d_result d = Deny (unwrap_or (r_status r) 403) msg \<and> (r_message r \<noteq> None \<longrightarrow> r_message r = Some msg)))"

definition stateless :: "rule \<Rightarrow> bool" where
  "stateless r = (r_action r = ''rate_limit'' \<longrightarrow> is_dry r \<or> r_rate_limit r = None)"

lemma applies_matches: "rule_matches x r ctx = applies x ctx r"
  by (simp add: rule_matches_def applies_def list_all_iff)

lemma lacks_role_satisfied: "role_satisfied r ctx \<longleftrightarrow> \<not> lacks_role ctx r"
  by (auto simp: role_satisfied_def required_role_def lacks_role_def Let_def)

lemma apply_rule_silent: "stateless r \<Longrightarrow> passes_over x ctx r \<Longrightarrow> apply_rule x now r ctx rl = (Next, rl)"
  by (cases "applies x ctx r"; cases "lacks_role ctx r"; cases "r_rate_limit r"; cases "is_dry r")
     (simp_all add: stateless_def passes_over_def apply_rule_def applies_matches lacks_role_satisfied)

lemma block_decision_reports:
  assumes "r_action r \<noteq> ''allow''" and "msg = unwrap_or (r_message r) dflt"
  shows "decided_by r (block_decision r (r_action r) (unwrap_or (r_status r) 403) msg)"
  using assms by (cases "r_message r"; cases "r_dry_run r"; cases "r_dry_run r = Some True")
     (auto simp: block_decision_def decided_by_def is_dry_def unwrap_or_def)

lemma apply_rule_decides:
  assumes "\<not> passes_over x ctx r"
  shows "\<exists>d. apply_rule x now r ctx rl = (Decide d, rl) \<and> decided_by r d"
proof -
  have m: "rule_matches x r ctx" using assms by (simp add: passes_over_def applies_matches)
  from assms consider "r_action r = ''allow''" | "r_action r = ''deny''" | "r_action r = ''require_role''" "\<not> role_satisfied r ctx"
    by (auto simp: passes_over_def lacks_role_satisfied)
  then show ?thesis
  proof cases
    case 1
    with m show ?thesis by (simp add: apply_rule_def decided_by_def)
  next
    case 2
    with m block_decision_reports [of r, OF _ refl] show ?thesis by (simp add: apply_rule_def)
  next
    case 3
    with m block_decision_reports [of r, OF _ refl] show ?thesis by (simp add: apply_rule_def)
  qed
qed

text \<open>
  (C15) Refinement of the first-match specification: without enforced rate-limit rules, evaluation leaves
  the limiter alone and either every rule passes the request over and it is allowed, or the first rule
  that does not pass it over decides, whatever comes behind it.
\<close>

theorem evaluate_first_match:
  assumes "list_all stateless rules"
  shows "\<exists>d. evaluate_request_detailed x clk rules ctx rl = (Some d, rl)
     \<and> (d = decision_allow \<and> (\<forall>r \<in> set rules. passes_over x ctx r)
        \<or> (\<exists>rs1 r rs2. rules = rs1 @ r # rs2 \<and> (\<forall>r' \<in> set rs1. passes_over x ctx r') \<and> \<not> passes_over x ctx r \<and> decided_by r d))"
  using assms
proof (induction x clk rules ctx rl rule: evaluate_request_detailed.induct)
  case (2 x clk r rs ctx rl)
  show ?case
  proof (cases "passes_over x ctx r")
    case True
    have ap: "apply_rule x (clk 0) r ctx rl = (Next, rl)" using 2 True by (simp add: apply_rule_silent)
    from "2.IH" [OF ap [symmetric]] "2.prems" obtain d where ev: "evaluate_request_detailed x (\<lambda>i. clk (Suc i)) rs ctx rl = (Some d, rl)"
      and d: "d = decision_allow \<and> (\<forall>r \<in> set rs. passes_over x ctx r)
        \<or> (\<exists>rs1 r rs2. rs = rs1 @ r # rs2 \<and> (\<forall>r' \<in> set rs1. passes_over x ctx r') \<and> \<not> passes_over x ctx r \<and> decided_by r d)" by auto
    from d have "d = decision_allow \<and> (\<forall>r' \<in> set (r # rs). passes_over x ctx r')
        \<or> (\<exists>rs1 q rs2. r # rs = rs1 @ q # rs2 \<and> (\<forall>r' \<in> set rs1. passes_over x ctx r') \<and> \<not> passes_over x ctx q \<and> decided_by q d)"
      using True by (metis append_Cons set_ConsD)
    with ap ev show ?thesis by auto
  next
    case False
    then obtain d where "apply_rule x (clk 0) r ctx rl = (Decide d, rl)" and "decided_by r d"
      using apply_rule_decides by blast
    with False show ?thesis by (intro exI [of _ d]) (auto intro!: exI [of _ "[]"])
  qed
qed simp

theorem evaluate_first_match_witness:
  "\<exists>d. evaluate_request_detailed no_external (\<lambda>_. 0)
     [path_rule ''a'' ''require_role'' ''equals'' ''/_ping'', path_rule ''d'' ''deny'' ''starts_with'' ''/'']
     ((get_request ''/_ping'')\<lparr>ctx_user_role := Some ''admin''\<rparr>) [] = (Some d, [])
   \<and> decided_by (path_rule ''d'' ''deny'' ''starts_with'' ''/'') d"
proof -
  let ?rs = "[path_rule ''a'' ''require_role'' ''equals'' ''/_ping'', path_rule ''d'' ''deny'' ''starts_with'' ''/'']"
  let ?ctx = "(get_request ''/_ping'')\<lparr>ctx_user_role := Some ''admin''\<rparr>"
  have a: "passes_over no_external ?ctx (path_rule ''a'' ''require_role'' ''equals'' ''/_ping'')"
    and d: "\<not> passes_over no_external ?ctx (path_rule ''d'' ''deny'' ''starts_with'' ''/'')"
    by (simp_all add: passes_over_def applies_def lacks_role_def rule_eval)
  have "list_all stateless ?rs" by (simp add: stateless_def rule_eval)
  from evaluate_first_match [OF this, of no_external "\<lambda>_. 0" ?ctx "[]"] a d show ?thesis
    by (auto simp: append_eq_Cons_conv Cons_eq_append_conv)
qed

text \<open>
  A dry-run rule switches off what comes after it: a matching \<^verbatim>\<open>deny\<close> rule in dry-run mode
  ends the evaluation with an allow, so enforced deny rules behind it no longer apply.
\<close>

theorem dry_run_shadows_later_rules:
  assumes "rule_matches x r ctx" and "r_action r = ''deny''" and "r_dry_run r = Some True"
  shows "evaluate_request_detailed x clk (r # rs) ctx rl =
     (Some \<lparr>d_result = Allow, d_rule_name = Some (r_name r), d_action = Some ''deny'', d_dry_run = True\<rparr>, rl)"
  using assms by (simp add: apply_rule_def block_decision_def is_dry_def)

theorem dry_run_shadows_later_rules_witness:
  "d_result (the (fst (evaluate_request_detailed no_external (\<lambda>_. 0)
      [(path_rule ''watch'' ''deny'' ''starts_with'' ''/images'')\<lparr>r_dry_run := Some True\<rparr>,
       path_rule ''block'' ''deny'' ''starts_with'' ''/images'']
      (get_request ''/images/create'') []))) = Allow"
  by (subst dry_run_shadows_later_rules) (simp_all add: rule_eval)

section \<open>Evaluation returns\<close>

definition penalty_fits :: "instant \<Rightarrow> rule \<Rightarrow> bool" where
  "penalty_fits latest r =
     (\<forall>cfg. r_rate_limit r = Some cfg \<longrightarrow> latest + from_secs (unat (rl_penalty cfg)) \<le> instant_max)"

lemma rl_check_returns:
  assumes "now + from_secs (unat pen) \<le> instant_max"
  shows "\<exists>b. fst (rl_check now key m per pen rl) = Some b"
  using assms
  by (auto simp: rl_check_def bucket_check_def instant_add_def Let_def split: prod.splits if_splits option.splits)

lemma apply_rule_returns:
  assumes "penalty_fits latest r" and "now \<le> latest"
  shows "fst (apply_rule x now r ctx rl) \<noteq> Panicked"
proof -
  have "\<exists>b. fst (rl_check now key m per (rl_penalty cfg) rl) = Some b"
    if "r_rate_limit r = Some cfg" for cfg key m per
    using assms that by (intro rl_check_returns) (auto simp: penalty_fits_def)
  then show ?thesis
    by (auto simp: apply_rule_def Let_def split: option.splits prod.splits bool.splits) (metis fst_conv option.distinct(1))+
qed

text \<open>
  Evaluation returns a decision, and never panics, whenever the configured penalties fit the
  clock: adding the penalty of any rate-limit rule to a clock reading stays representable.
\<close>

lemma evaluate_returns:
  assumes "\<forall>r \<in> set rules. penalty_fits latest r" and "\<forall>i. clk i \<le> latest"
  shows "\<exists>d. fst (evaluate_request_detailed x clk rules ctx rl) = Some d"
  using assms
proof (induction x clk rules ctx rl rule: evaluate_request_detailed.induct)
  case (2 x clk r rs ctx rl)
  obtain s rl1 where ap: "apply_rule x (clk 0) r ctx rl = (s, rl1)" by fastforce
  have "s \<noteq> Panicked"
    using apply_rule_returns [of latest r "clk 0" x ctx rl] "2.prems" ap by simp
  with "2.IH" [OF ap [symmetric]] "2.prems" ap show ?case by (cases s) auto
qed simp

end
