(* ===== verification/Response_Filter.thy ===== *)
theory Response_Filter
  imports Config
begin

text \<open>
  Response filtering, \<^verbatim>\<open>src/rules.rs\<close> (\<^verbatim>\<open>apply_response_filters\<close>): the filters collected
  from the matching rules rewrite the JSON body of Docker's answer. The properties say what
  a client can and cannot read at a filtered path of the body that is sent to it.
\<close>

definition REDACTED :: string where
  "REDACTED = ''***REDACTED***''"

definition apply_filter :: "response_filter_entry \<Rightarrow> json \<Rightarrow> json" where
  "apply_filter f doc =
     (if rf_action f = ''redact'' then
        (case json_get_mut doc (rf_field f) of
           Some (_, put) \<Rightarrow> put (JString REDACTED)
         | None \<Rightarrow> doc)
      else if rf_action f = ''remove'' then
        (if length (split_on CHR ''.'' (rf_field f)) = 1 then
           (case doc of JObject m \<Rightarrow> JObject (AList.delete (rf_field f) m) | _ \<Rightarrow> doc)
         else snd (json_remove doc (rf_field f)))
      else if rf_action f = ''replace'' then
        (case json_get_mut doc (rf_field f) of
           Some (_, put) \<Rightarrow> put (JString (unwrap_or (rf_replacement f) []))
         | None \<Rightarrow> doc)
      else doc)"

definition filter_document :: "response_filter_entry list \<Rightarrow> json \<Rightarrow> json" where
  "filter_document filters doc = fold apply_filter filters doc"

definition apply_response_filters :: "external \<Rightarrow> response_filter_entry list \<Rightarrow> bytes \<Rightarrow> bytes" where
  "apply_response_filters x filters body =
     (if filters = [] then body
      else case json_from_slice x body of
        Inl _ \<Rightarrow> body
      | Inr doc \<Rightarrow> unwrap_or (json_to_vec x (filter_document filters doc)) body)"

section \<open>What filters keep\<close>

definition filter_path :: "response_filter_entry \<Rightarrow> string list" where
  "filter_path f = split_on CHR ''.'' (rf_field f)"

text \<open>The strings the filters of a list may put at a path.\<close>

definition filter_texts :: "response_filter_entry list \<Rightarrow> string set" where
  "filter_texts fs = insert REDACTED {unwrap_or (rf_replacement f) [] |f. f \<in> set fs \<and> rf_action f = ''replace''}"

definition is_text_of :: "string set \<Rightarrow> json \<Rightarrow> bool" where
  "is_text_of R v = (\<exists>r \<in> R. v = JString r)"

lemma shallow_preds [simp]: "shallow (is_text_of R)" "shallow not_array" "shallow (\<lambda>_. False)"
  by (auto simp: shallow_def is_text_of_def not_array_def)

lemma filter_texts_Cons: "filter_texts fs \<subseteq> filter_texts (f # fs)"
  by (auto simp: filter_texts_def)

lemma sealed_apply_filter:
  assumes P: "shallow P" and p: "sealed P p doc"
    and red: "\<And>v. P v \<Longrightarrow> P (JString REDACTED)"
    and rep: "\<And>v. rf_action f = ''replace'' \<Longrightarrow> P v \<Longrightarrow> P (JString (unwrap_or (rf_replacement f) []))"
  shows "sealed P p (apply_filter f doc)"
proof -
  have put_ok: "sealed P p (put (JString r))"
    if "json_get_mut doc (rf_field f) = Some (v, put)" "\<And>v. P v \<Longrightarrow> P (JString r)" for v put r
    using that unfolding json_get_mut_def by (blast intro: sealed_write_string [OF P p])
  have del: "sealed P p (JObject (AList.delete k m))" if "doc = JObject m" for k m
    using that p by (auto intro: sealed_delete_key P)
  show ?thesis
    using p put_ok [OF _ red] put_ok [OF _ rep] del sealed_json_remove [OF P p]
    by (auto simp: apply_filter_def split: option.splits json.splits)
qed

lemma sealed_filter_document:
  assumes "shallow P" and "sealed P p doc"
    and "\<And>v r. r \<in> filter_texts fs \<Longrightarrow> P v \<Longrightarrow> P (JString r)"
  shows "sealed P p (filter_document fs doc)"
  using assms(2,3) unfolding filter_document_def
proof (induction fs arbitrary: doc)
  case (Cons f fs)
  have "sealed P p (apply_filter f doc)"
    by (rule sealed_apply_filter [OF assms(1) Cons.prems(1)])
       (use Cons.prems(2) in \<open>auto simp: filter_texts_def\<close>)
  with Cons.IH Cons.prems(2) filter_texts_Cons show ?case by (simp add: subset_eq)
qed simp

lemma filter_document_split:
  assumes "f \<in> set fs"
  obtains us vs where "fs = us @ f # vs"
    "filter_document fs doc = filter_document vs (apply_filter f (filter_document us doc))"
proof -
  from assms obtain us vs where "fs = us @ f # vs" by (meson split_list)
  with that show ?thesis by (simp add: filter_document_def)
qed

lemma filter_path_ne [simp]: "filter_path f \<noteq> []"
  by (simp add: filter_path_def)

lemma apply_filter_redacts:
  assumes "rf_action f = ''redact''" and "REDACTED \<in> R"
  shows "sealed (is_text_of R) (filter_path f) (apply_filter f doc)"
proof (cases "json_get_mut_segs (filter_path f) doc")
  case None
  with assms json_get_mut_None_sealed [OF None] show ?thesis
    by (simp add: apply_filter_def json_get_mut_def filter_path_def)
next
  case (Some ref)
  obtain v put where ref: "ref = (v, put)" by (cases ref)
  from json_get_mut_sealed [OF Some [unfolded ref], of "is_text_of R" "JString REDACTED"] Some ref assms
  show ?thesis by (simp add: apply_filter_def json_get_mut_def filter_path_def is_text_of_def)
qed

lemma apply_filter_removes:
  assumes act: "rf_action f = ''remove''" and parent: "sealed not_array (butlast (filter_path f)) doc"
  shows "absent (filter_path f) (apply_filter f doc)"
proof (cases "length (filter_path f) = 1")
  case True
  then have f: "filter_path f = [rf_field f]"
    using join_split_on [of "CHR ''.''" "rf_field f"] by (auto simp: filter_path_def length_Suc_conv)
  have "json_step (rf_field f) (apply_filter f doc) = None"
    using act f parent
    by (cases doc) (auto simp: apply_filter_def filter_path_def json_step_deleted sealed_Nil not_array_def json_step_def delete_conv')
  then show ?thesis by (simp add: f absent_def sealed_Cons)
next
  case False
  moreover have "length (filter_path f) \<noteq> 0" by simp
  ultimately have "2 \<le> length (split_on CHR ''.'' (rf_field f))" unfolding filter_path_def by linarith
  from json_remove_absent [OF this] parent False act show ?thesis
    by (simp add: apply_filter_def filter_path_def)
qed

section \<open>What the client can read\<close>

text \<open>
  (C20) Redaction holds at the client: if the body parses, the filtered document is printed by
  \<^verbatim>\<open>serde_json\<close> and what it prints parses back to the same document, then the body sent on
  parses to a document in which the path of every \<^verbatim>\<open>redact\<close> filter reads as nothing or as one of
  the texts the filters write (the redaction mark, or the text of a \<^verbatim>\<open>replace\<close> filter), whatever
  other filters come before or after it.
\<close>

theorem redacted_path_masked:
  assumes "json_from_slice x body = Inr doc" and "f \<in> set fs" and "rf_action f = ''redact''"
    and "json_to_vec x (filter_document fs doc) = Some out"
    and "json_from_slice x out = Inr (filter_document fs doc)"
  shows "\<exists>sent. json_from_slice x (apply_response_filters x fs body) = Inr sent
       \<and> is_none_or (json_get sent (rf_field f)) (\<lambda>v. \<exists>r \<in> filter_texts fs. v = JString r)"
proof -
  let ?P = "is_text_of (filter_texts fs)"
  obtain us vs where fs: "fs = us @ f # vs"
    and doc: "filter_document fs doc = filter_document vs (apply_filter f (filter_document us doc))"
    by (rule filter_document_split [OF assms(2)])
  have red: "REDACTED \<in> filter_texts fs" by (simp add: filter_texts_def)
  have "sealed ?P (filter_path f) (filter_document fs doc)" unfolding doc
    by (rule sealed_filter_document [OF _ apply_filter_redacts [OF assms(3) red]])
       (auto simp: is_text_of_def fs filter_texts_def)
  moreover have "apply_response_filters x fs body = out"
    using assms by (auto simp: apply_response_filters_def)
  ultimately show ?thesis
    using assms(5) by (simp add: sealed_def filter_path_def json_get_def is_text_of_def [abs_def])
qed

text \<open>
  Removal holds at the client: under the same conditions on \<^verbatim>\<open>serde_json\<close>, the path of every
  \<^verbatim>\<open>remove\<close> filter reads as nothing in the body sent on, provided its parent in Docker's answer is
  not an array.
\<close>

theorem removed_path_absent:
  assumes "json_from_slice x body = Inr doc" and "f \<in> set fs" and "rf_action f = ''remove''"
    and "sealed not_array (butlast (filter_path f)) doc"
    and "json_to_vec x (filter_document fs doc) = Some out"
    and "json_from_slice x out = Inr (filter_document fs doc)"
  shows "\<exists>sent. json_from_slice x (apply_response_filters x fs body) = Inr sent
       \<and> json_get sent (rf_field f) = None"
proof -
  obtain us vs where fs: "fs = us @ f # vs"
    and doc: "filter_document fs doc = filter_document vs (apply_filter f (filter_document us doc))"
    by (rule filter_document_split [OF assms(2)])
  have "sealed not_array (butlast (filter_path f)) (filter_document us doc)"
    by (rule sealed_filter_document [OF _ assms(4)]) (auto simp: not_array_def)
  from apply_filter_removes [OF assms(3) this]
  have "absent (filter_path f) (filter_document fs doc)"
    unfolding doc absent_def by (rule sealed_filter_document [rotated]) auto
  then have "json_get (filter_document fs doc) (rf_field f) = None"
    by (simp add: absent_def sealed_def filter_path_def json_get_def is_none_or_def split: option.splits)
  moreover have "apply_response_filters x fs body = out"
    using assms by (auto simp: apply_response_filters_def)
  ultimately show ?thesis using assms(6) by simp
qed

text \<open>
  An element of an array is not removed: a \<^verbatim>\<open>remove\<close> filter whose parent is an array leaves the
  document as it is.
\<close>

theorem remove_ignores_arrays:
  assumes "rf_action f = ''remove''" and "json_get_segs (butlast (filter_path f)) doc = Some (JArray a)"
  shows "apply_filter f doc = doc"
proof (cases "length (filter_path f) = 1")
  case True
  with assms show ?thesis by (auto simp: apply_filter_def filter_path_def length_Suc_conv)
next
  case False
  let ?p = "butlast (filter_path f)"
  have ne: "?p \<noteq> []" using False by (cases "filter_path f") (auto simp: filter_path_def split: if_splits)
  have split: "split_on CHR ''.'' (join_with CHR ''.'' ?p) = ?p"
    unfolding filter_path_def by (rule split_join_with) (use ne in \<open>auto simp: filter_path_def dest: in_set_butlastD split_on_no_sep\<close>)
  obtain put where "json_get_mut_segs ?p doc = Some (JArray a, put)"
    using json_get_mut_read [of ?p doc] ne assms(2) by auto
  with False assms(1) split show ?thesis
    by (simp add: apply_filter_def json_remove_def json_get_mut_def filter_path_def Let_def)
qed

section \<open>Witnesses\<close>

text \<open>
  A one-entry serialisation table: enough of \<^verbatim>\<open>serde_json\<close> to exercise the properties on one
  body.
\<close>

definition table_json :: "(bytes \<times> json) list \<Rightarrow> external" where
  "table_json t = no_external\<lparr>
     json_from_slice := (\<lambda>b. case map_of t b of None \<Rightarrow> Inl ''expected value'' | Some j \<Rightarrow> Inr j),
     json_to_vec := (\<lambda>j. map_option fst (find (\<lambda>(_, k). k = j) t))\<rparr>"

definition env_doc :: "string \<Rightarrow> json" where
  "env_doc s = JObject [(''Config'', JObject [(''Env'', JString s), (''Image'', JString ''nginx'')])]"

definition filter_on :: "string \<Rightarrow> string \<Rightarrow> response_filter_entry" where
  "filter_on act field = \<lparr>rf_field = field, rf_action = act, rf_replacement = None\<rparr>"

lemmas filter_eval = table_json_def env_doc_def filter_on_def filter_document_def apply_filter_def REDACTED_def
  json_get_mut_def json_get_def json_step_def json_step_put_def json_remove_def no_external_def sealed_def
  filter_path_def filter_texts_def not_array_def

theorem redacted_path_masked_witness:
  "\<exists>sent. json_from_slice (table_json [(''a'', env_doc ''PASSWORD=x''), (''b'', env_doc REDACTED)])
       (apply_response_filters (table_json [(''a'', env_doc ''PASSWORD=x''), (''b'', env_doc REDACTED)])
          [filter_on ''redact'' ''Config.Env''] ''a'') = Inr sent
     \<and> is_none_or (json_get sent ''Config.Env'') (\<lambda>v. \<exists>r \<in> filter_texts [filter_on ''redact'' ''Config.Env'']. v = JString r)"
  using redacted_path_masked
    [of "table_json [(''a'', env_doc ''PASSWORD=x''), (''b'', env_doc REDACTED)]" "''a''" "env_doc ''PASSWORD=x''"
        "filter_on ''redact'' ''Config.Env''" "[filter_on ''redact'' ''Config.Env'']" "''b''"]
  by (simp add: filter_eval)

theorem removed_path_absent_witness:
  "\<exists>sent. json_from_slice (table_json [(''a'', JObject [(''Id'', JNull), (''Env'', JNull)]), (''b'', JObject [(''Id'', JNull)])])
       (apply_response_filters (table_json [(''a'', JObject [(''Id'', JNull), (''Env'', JNull)]), (''b'', JObject [(''Id'', JNull)])])
          [filter_on ''remove'' ''Env''] ''a'') = Inr sent \<and> json_get sent ''Env'' = None"
  using removed_path_absent
    [of "table_json [(''a'', JObject [(''Id'', JNull), (''Env'', JNull)]), (''b'', JObject [(''Id'', JNull)])]" "''a''"
        "JObject [(''Id'', JNull), (''Env'', JNull)]" "filter_on ''remove'' ''Env''" "[filter_on ''remove'' ''Env'']" "''b''"]
  by (simp add: filter_eval)

theorem remove_ignores_arrays_witness:
  "apply_filter (filter_on ''remove'' ''Mounts.0'') (JObject [(''Mounts'', JArray [JString ''/etc''])])
     = JObject [(''Mounts'', JArray [JString ''/etc''])]"
  by (rule remove_ignores_arrays [where a = "[JString ''/etc'']"]) (simp_all add: filter_eval)

end
