(* ===== verification/Proxy.thy ===== *)
theory Proxy
  imports Auth Request_Path Client_Ip Rule_Engine Response_Filter
begin

text \<open>
  The request handler of \<^verbatim>\<open>src/main.rs\<close>: \<^verbatim>\<open>handle\<close> and \<^verbatim>\<open>handle_upgrade\<close> with every guard, early
  return, counter and audit event. What the outside does during one request (the clock, the
  client's body, Docker's answer, time-outs) is the record \<open>effects\<close>; what the proxy does
  to Docker is the list of actions in the result. A response \<^const>\<open>None\<close> is a panic of the task.
  Log lines other than audit events are not modelled.
\<close>

section \<open>Requests, effects and results\<close>

definition MAX_REQ_BODY_BYTES :: nat where
  "MAX_REQ_BODY_BYTES = 10 * 1024 * 1024"

definition MAX_RESP_BODY_BYTES :: nat where
  "MAX_RESP_BODY_BYTES = 64 * 1024 * 1024"

definition HOP_BY_HOP_HEADERS :: "string list" where
  "HOP_BY_HOP_HEADERS =
     [''connection'', ''keep-alive'', ''proxy-authenticate'', ''proxy-authorization'', ''te'', ''trailer'',
      ''transfer-encoding'', ''content-length'']"

definition CLIENT_FORWARD_DROP_HEADERS :: "string list" where
  "CLIENT_FORWARD_DROP_HEADERS =
     [''authorization'', ''host'', ''x-forwarded-for'', ''x-forwarded-host'', ''x-forwarded-proto'',
      ''x-forwarded-port'', ''x-real-ip'', ''forwarded'', ''via'']"

record request =
  rq_method :: string
  rq_path :: string
  rq_query :: "string option"
  rq_headers :: headers
  rq_peer :: ip_addr
  rq_cert :: "cert_identity option"

record upstream_request =
  ur_method :: string
  ur_uri :: string
  ur_headers :: headers
  ur_body :: bytes

text \<open>\<^verbatim>\<open>timeout(.., f).await\<close>: done, an error of \<open>f\<close>, or the deadline passed.\<close>

datatype ('e, 'a) timed = Done 'a | Failed 'e | Elapsed

datatype body_error = LengthLimit | BodyError

record effects =
  fx_auth_clock :: "instant \<times> instant"
  fx_rule_clock :: "nat \<Rightarrow> instant"
  fx_timestamp :: string
  fx_body :: "nat \<Rightarrow> (body_error, bytes) timed"
  fx_connect :: "(string, unit) timed"
  fx_handshake :: bool
  fx_send :: "upstream_request \<Rightarrow> (string, u16 \<times> headers) timed"
  fx_response_body :: "nat \<Rightarrow> (string, bytes) timed"
  fx_elapsed_ms :: nat
  fx_build_ok :: bool

text \<open>What the proxy does towards Docker.\<close>

datatype action = Connect string | SendRequest upstream_request | SpawnTunnel

type_synonym handled = "response option \<times> action list \<times> proxy_state"

definition upd_metrics :: "(metrics \<Rightarrow> metrics) \<Rightarrow> proxy_state \<Rightarrow> proxy_state" where
  "upd_metrics f st = st\<lparr>ps_metrics := f (ps_metrics st)\<rparr>"

definition send_audit :: "audit_event \<Rightarrow> proxy_state \<Rightarrow> proxy_state" where
  "send_audit ev st =
     (if audit_is_enabled (ps_audit st) then st\<lparr>ps_audit := audit_send ev (ps_audit st)\<rparr> else st)"

text \<open>The local variables of \<^verbatim>\<open>handle\<close> once the request is authenticated.\<close>

record locals =
  lc_path :: string
  lc_target :: string
  lc_user_agent :: string
  lc_role :: "string option"
  lc_identity :: "string option"
  lc_client_ip :: string
  lc_header_map :: "(string \<times> string) list"
  lc_upgrade_value :: "string option"
  lc_forward :: headers
  lc_rules :: "rule list"

section \<open>Preparation\<close>

definition user_agent :: "external \<Rightarrow> headers \<Rightarrow> string" where
  "user_agent x hs = unwrap_or (header_text x hs ''user-agent'') ''-''"

text \<open>\<^verbatim>\<open>entry(..).or_insert_with(..)\<close> over the headers: the first decodable value of each name.\<close>

definition build_header_map :: "external \<Rightarrow> headers \<Rightarrow> (string \<times> string) list" where
  "build_header_map x hs =
     fold (\<lambda>(k, v) m. case header_to_str x v of
                         None \<Rightarrow> m
                       | Some s \<Rightarrow> (case map_of m k of None \<Rightarrow> m @ [(k, s)] | Some _ \<Rightarrow> m))
       hs []"

definition forwardable :: "string \<Rightarrow> bool" where
  "forwardable name =
     (name \<notin> set HOP_BY_HOP_HEADERS \<and> name \<notin> set CLIENT_FORWARD_DROP_HEADERS \<and> name \<noteq> ''upgrade'')"

definition forward_headers :: "headers \<Rightarrow> headers" where
  "forward_headers hs = filter (\<lambda>(k, _). forwardable k) hs"

definition trusted_proxies :: "external \<Rightarrow> proxy_config \<Rightarrow> ip_net list" where
  "trusted_proxies x config =
     (case Option.bind (cfg_global config) g_trusted_proxies of
        None \<Rightarrow> []
      | Some v \<Rightarrow> parse_trusted_proxies x v)"

definition make_locals ::
    "external \<Rightarrow> request \<Rightarrow> proxy_config \<Rightarrow> string \<Rightarrow> string option \<Rightarrow> string option \<Rightarrow> locals" where
  "make_locals x rq config path role identity =
     \<lparr>lc_path = path,
      lc_target = canonical_path_and_query path (rq_query rq),
      lc_user_agent = user_agent x (rq_headers rq),
      lc_role = role,
      lc_identity = identity,
      lc_client_ip = show_ip (compute_client_ip x (rq_peer rq) (rq_headers rq) (trusted_proxies x config)),
      lc_header_map = build_header_map x (rq_headers rq),
      lc_upgrade_value = header_text x (rq_headers rq) ''upgrade'',
      lc_forward = forward_headers (rq_headers rq),
      lc_rules = unwrap_or (cfg_rules config) []\<rparr>"

definition eval_context :: "request \<Rightarrow> locals \<Rightarrow> json option \<Rightarrow> evaluation_context" where
  "eval_context rq lc body_json =
     \<lparr>ctx_path = lc_path lc, ctx_method = rq_method rq, ctx_headers = lc_header_map lc,
      ctx_client_ip = lc_client_ip lc, ctx_body_json = body_json, ctx_user_role = lc_role lc\<rparr>"

definition new_event :: "effects \<Rightarrow> request \<Rightarrow> locals \<Rightarrow> string \<Rightarrow> audit_event" where
  "new_event fx rq lc event =
     audit_event_new (fx_timestamp fx) event (rq_peer rq) (rq_method rq) (lc_path lc) (lc_user_agent lc)"

section \<open>Decisions\<close>

text \<open>Run the rules; a panic in the rate limiter leaves its table as it is then.\<close>

definition run_rules ::
    "external \<Rightarrow> effects \<Rightarrow> request \<Rightarrow> locals \<Rightarrow> json option \<Rightarrow> proxy_state \<Rightarrow> rule_decision option \<times> proxy_state" where
  "run_rules x fx rq lc body_json st =
     (let (d, rl) = evaluate_request_detailed x (fx_rule_clock fx) (lc_rules lc) (eval_context rq lc body_json) (ps_rate_limiter st)
      in (d, st\<lparr>ps_rate_limiter := rl\<rparr>))"

definition note_dry_run :: "effects \<Rightarrow> request \<Rightarrow> locals \<Rightarrow> rule_decision \<Rightarrow> proxy_state \<Rightarrow> proxy_state" where
  "note_dry_run fx rq lc d st =
     (case d_rule_name d of
        Some rn \<Rightarrow>
          if d_dry_run d then
            send_audit
              ((new_event fx rq lc ''dry_run'')
                 \<lparr>ae_user_role := lc_role lc, ae_identity := lc_identity lc, ae_rule_name := Some rn,
                  ae_rule_action := d_action d, ae_dry_run := True\<rparr>)
              (upd_metrics (\<lambda>m. record_rule_deny rn True (inc_requests_dry_run m)) st)
          else st
      | None \<Rightarrow> st)"

text \<open>
  The deny branch. Only the plain handler counts rate-limited requests apart; \<open>count_limited\<close>
  says which of the two copies of the branch is meant.
\<close>

definition deny_request ::
    "external \<Rightarrow> effects \<Rightarrow> request \<Rightarrow> locals \<Rightarrow> rule_decision \<Rightarrow> u16 \<Rightarrow> string \<Rightarrow> bool \<Rightarrow> proxy_state \<Rightarrow> handled" where
  "deny_request x fx rq lc d status message count_limited st =
     (let st1 = upd_metrics inc_requests_denied st;
          st2 = (if count_limited \<and> d_action d = Some ''rate_limit'' then upd_metrics inc_rate_limited_total st1 else st1);
          st3 = (case d_rule_name d of Some rn \<Rightarrow> upd_metrics (record_rule_deny rn False) st2 | None \<Rightarrow> st2);
          status_code = unwrap_or (status_from_u16 x status) 403;
          ev = (new_event fx rq lc ''deny'')
                 \<lparr>ae_user_role := lc_role lc, ae_identity := lc_identity lc, ae_rule_name := d_rule_name d,
                  ae_rule_action := d_action d, ae_status := status_code, ae_message := Some message\<rparr>
      in (Some (make_response_string status_code message), [], send_audit ev st3))"

section \<open>Talking to Docker\<close>

definition fail :: "u16 \<Rightarrow> string \<Rightarrow> action list \<Rightarrow> proxy_state \<Rightarrow> handled" where
  "fail status msg acts st = (Some (make_response status msg), acts, st)"

text \<open>
  \<^verbatim>\<open>Request::builder()\<close>: headers come from a received request, so only the target can be
  refused.
\<close>

definition build_upstream ::
    "external \<Rightarrow> request \<Rightarrow> locals \<Rightarrow> headers \<Rightarrow> bytes \<Rightarrow> upstream_request option" where
  "build_upstream x rq lc own body =
     (if uri_valid x (lc_target lc)
      then Some \<lparr>ur_method = rq_method rq, ur_uri = lc_target lc,
                 ur_headers = (''host'', ''docker.proxy'') # own @ lc_forward lc, ur_body = body\<rparr>
      else None)"

definition call_docker ::
    "external \<Rightarrow> effects \<Rightarrow> request \<Rightarrow> locals \<Rightarrow> headers \<Rightarrow> bytes \<Rightarrow>
       (u16 \<times> headers \<Rightarrow> action list \<Rightarrow> proxy_state \<Rightarrow> handled) \<Rightarrow> proxy_state \<Rightarrow> handled" where
  "call_docker x fx rq lc own body k st =
     (let acts = [Connect (ps_socket_path st)]
      in case fx_connect fx of
           Failed _ \<Rightarrow> fail 502 ''docker socket unavailable'' acts (upd_metrics inc_upstream_errors_total st)
         | Elapsed \<Rightarrow> fail 504 ''docker socket connect timeout'' acts (upd_metrics inc_upstream_timeouts_total st)
         | Done _ \<Rightarrow>
             if \<not> fx_handshake fx then
               fail 502 ''docker handshake failed'' acts (upd_metrics inc_upstream_errors_total st)
             else case build_upstream x rq lc own body of
               None \<Rightarrow> fail 502 ''failed to build upstream request'' acts st
             | Some r \<Rightarrow>
                 (let acts' = acts @ [SendRequest r]
                  in case fx_send fx r of
                       Failed _ \<Rightarrow> fail 502 ''docker request failed'' acts' (upd_metrics inc_upstream_errors_total st)
                     | Elapsed \<Rightarrow> fail 504 ''docker upstream timeout'' acts' (upd_metrics inc_upstream_timeouts_total st)
                     | Done res \<Rightarrow> k res acts' st))"

section \<open>The plain request\<close>

definition response_headers :: "headers \<Rightarrow> string \<Rightarrow> headers" where
  "response_headers upstream_headers content_type =
     (let kept = filter (\<lambda>(k, _). k \<notin> set HOP_BY_HOP_HEADERS \<and> k \<noteq> ''content-length'') upstream_headers;
          emitted_content_type = list_ex (\<lambda>(k, _). k = ''content-type'') kept
      in if emitted_content_type then kept else kept @ [(''content-type'', content_type)])"

definition finish_response ::
    "external \<Rightarrow> effects \<Rightarrow> response_filter_entry list \<Rightarrow> u16 \<times> headers \<Rightarrow> action list \<Rightarrow> proxy_state \<Rightarrow> handled" where
  "finish_response x fx filters res acts st =
     (let (status, upstream_headers) = res;
          content_type = unwrap_or (header_text x upstream_headers ''content-type'') ''application/octet-stream''
      in case fx_response_body fx MAX_RESP_BODY_BYTES of
           Failed _ \<Rightarrow> fail 502 ''failed to read docker response'' acts (upd_metrics inc_upstream_errors_total st)
         | Elapsed \<Rightarrow> fail 504 ''docker response timeout'' acts (upd_metrics inc_upstream_timeouts_total st)
         | Done response_bytes \<Rightarrow>
             (let elapsed_ms = of_nat (min (fx_elapsed_ms fx) (2 ^ 64 - 1));
                  final_bytes = (if filters \<noteq> [] \<and> sublist ''application/json'' content_type
                                 then apply_response_filters x filters response_bytes else response_bytes);
                  st1 = upd_metrics (\<lambda>m. inc_requests_allowed (observe_upstream_latency_ms elapsed_ms m)) st
              in if fx_build_ok fx
                 then (Some \<lparr>resp_status = status, resp_headers = response_headers upstream_headers content_type,
                             resp_body = final_bytes\<rparr>, acts, st1)
                 else fail 502 ''failed to build response'' acts st1))"

definition bad_json_message :: "string \<Rightarrow> string" where
  "bad_json_message e = ''Request body must be valid JSON for this endpoint: '' @ e"

text \<open>The body as JSON: nothing, a value, or the refusal of a non-JSON body.\<close>

definition parse_body :: "external \<Rightarrow> string \<Rightarrow> bytes \<Rightarrow> string + json option" where
  "parse_body x path body =
     (if body = [] then Inr None
      else case json_from_slice x body of
        Inr v \<Rightarrow> Inr (Some v)
      | Inl e \<Rightarrow> if requires_json_body x path then Inl (bad_json_message e) else Inr None)"

definition forward_plain ::
    "external \<Rightarrow> effects \<Rightarrow> request \<Rightarrow> locals \<Rightarrow> bytes \<Rightarrow> json option \<Rightarrow> proxy_state \<Rightarrow> handled" where
  "forward_plain x fx rq lc body body_json st =
     (case run_rules x fx rq lc body_json st of
        (None, st1) \<Rightarrow> (None, [], st1)
      | (Some d, st1) \<Rightarrow>
          (let st2 = note_dry_run fx rq lc d st1
           in case d_result d of
                Deny status message \<Rightarrow> deny_request x fx rq lc d status message True st2
              | Allow \<Rightarrow>
                  (let filters = collect_response_filters x (lc_rules lc) (eval_context rq lc body_json)
                   in call_docker x fx rq lc [(''connection'', ''close'')] body (finish_response x fx filters) st2)))"

definition handle_plain :: "external \<Rightarrow> effects \<Rightarrow> request \<Rightarrow> locals \<Rightarrow> proxy_state \<Rightarrow> handled" where
  "handle_plain x fx rq lc st =
     (case fx_body fx MAX_REQ_BODY_BYTES of
        Failed LengthLimit \<Rightarrow> fail 413 ''Request body too large'' [] (upd_metrics inc_body_too_large_total st)
      | Failed BodyError \<Rightarrow> fail 400 ''Request body invalid'' [] (upd_metrics inc_bad_request_total st)
      | Elapsed \<Rightarrow> fail 408 ''Request body read timeout'' [] (upd_metrics inc_request_timeouts_total st)
      | Done body \<Rightarrow>
          (case parse_body x (lc_path lc) body of
             Inl msg \<Rightarrow> (Some (make_response_string 400 msg), [], upd_metrics inc_bad_request_total st)
           | Inr body_json \<Rightarrow> forward_plain x fx rq lc body body_json st))"

section \<open>Upgrades\<close>

definition SWITCHING_PROTOCOLS :: u16 where
  "SWITCHING_PROTOCOLS = 101"

text \<open>Docker refused to switch: its answer is passed on, with an empty body if it cannot be read.\<close>

definition upgrade_refused :: "effects \<Rightarrow> u16 \<Rightarrow> headers \<Rightarrow> response" where
  "upgrade_refused fx status upstream_headers =
     (let bytes = (case fx_response_body fx MAX_RESP_BODY_BYTES of Done b \<Rightarrow> b | _ \<Rightarrow> [])
      in if fx_build_ok fx
         then \<lparr>resp_status = status,
               resp_headers = filter (\<lambda>(k, _). k \<notin> set HOP_BY_HOP_HEADERS \<and> k \<noteq> ''content-length'') upstream_headers,
               resp_body = bytes\<rparr>
         else make_response 502 ''upgrade rejected'')"

definition upgrade_accepted :: "effects \<Rightarrow> u16 \<Rightarrow> headers \<Rightarrow> response" where
  "upgrade_accepted fx status upstream_headers =
     (if fx_build_ok fx
      then \<lparr>resp_status = status,
            resp_headers = filter (\<lambda>(k, _). k \<noteq> ''content-length''
               \<and> \<not> (k \<in> set HOP_BY_HOP_HEADERS \<and> k \<noteq> ''connection'' \<and> k \<noteq> ''upgrade'')) upstream_headers,
            resp_body = []\<rparr>
      else make_response 502 ''upgrade response build failed'')"

definition finish_upgrade :: "effects \<Rightarrow> u16 \<times> headers \<Rightarrow> action list \<Rightarrow> proxy_state \<Rightarrow> handled" where
  "finish_upgrade fx res acts st =
     (let (status, upstream_headers) = res
      in if status \<noteq> SWITCHING_PROTOCOLS
         then (Some (upgrade_refused fx status upstream_headers), acts, st)
         else (Some (upgrade_accepted fx status upstream_headers), acts @ [SpawnTunnel], st))"

definition handle_upgrade :: "external \<Rightarrow> effects \<Rightarrow> request \<Rightarrow> locals \<Rightarrow> proxy_state \<Rightarrow> handled" where
  "handle_upgrade x fx rq lc st =
     call_docker x fx rq lc
       ((''connection'', ''upgrade'') # (case lc_upgrade_value lc of None \<Rightarrow> [] | Some u \<Rightarrow> [(''upgrade'', u)]))
       [] (finish_upgrade fx) st"

definition handle_upgrade_request :: "external \<Rightarrow> effects \<Rightarrow> request \<Rightarrow> locals \<Rightarrow> proxy_state \<Rightarrow> handled" where
  "handle_upgrade_request x fx rq lc st =
     (case run_rules x fx rq lc None (upd_metrics inc_upgrade_total st) of
        (None, st1) \<Rightarrow> (None, [], st1)
      | (Some d, st1) \<Rightarrow>
          (let st2 = note_dry_run fx rq lc d st1
           in case d_result d of
                Deny status message \<Rightarrow> deny_request x fx rq lc d status message False st2
              | Allow \<Rightarrow> handle_upgrade x fx rq lc (upd_metrics inc_requests_allowed st2)))"

section \<open>The handler\<close>

definition is_metrics_request :: "request \<Rightarrow> string \<Rightarrow> proxy_state \<Rightarrow> bool" where
  "is_metrics_request rq path st = (ps_metrics_path st = Some path \<and> rq_method rq = ''GET'')"

definition refuse_unauthenticated ::
    "external \<Rightarrow> effects \<Rightarrow> request \<Rightarrow> string \<Rightarrow> u16 \<Rightarrow> string \<Rightarrow> proxy_state \<Rightarrow> handled" where
  "refuse_unauthenticated x fx rq path status msg st =
     (let ev = (audit_event_new (fx_timestamp fx) ''auth_denied'' (rq_peer rq) (rq_method rq) path (user_agent x (rq_headers rq)))
                 \<lparr>ae_status := status, ae_message := Some msg\<rparr>
      in (Some (make_response status msg), [], send_audit ev (upd_metrics inc_requests_denied st)))"

definition handle :: "external \<Rightarrow> effects \<Rightarrow> request \<Rightarrow> proxy_state \<Rightarrow> handled" where
  "handle x fx rq st0 =
     (let st = upd_metrics inc_requests_total st0
      in case canonicalize_path (rq_path rq) of
           None \<Rightarrow> fail 400 ''Malformed request path'' [] (upd_metrics inc_bad_request_total st)
         | Some path \<Rightarrow>
             if \<not> query_ok (rq_query rq) then
               fail 400 ''Malformed query string'' [] (upd_metrics inc_bad_request_total st)
             else
               (let config = current_config st
                in case authenticate x (fx_auth_clock fx) config (rq_headers rq) (rq_peer rq) (rq_cert rq) st of
                     (None, st1) \<Rightarrow> (None, [], st1)
                   | (Some (Denied status msg), st1) \<Rightarrow> refuse_unauthenticated x fx rq path status msg st1
                   | (Some (Allowed role identity), st1) \<Rightarrow>
                       if is_metrics_request rq path st1 then
                         (Some (make_response_bytes 200 ''text/plain; version=0.0.4; charset=utf-8''
                                  (render_prometheus (ps_metrics st1))), [], st1)
                       else
                         (let lc = make_locals x rq config path role identity
                          in if is_upgrade_request x (rq_headers rq)
                             then handle_upgrade_request x fx rq lc st1
                             else handle_plain x fx rq lc st1)))"

section \<open>What reaches Docker\<close>

lemma fail_acts [simp]: "fail status msg acts st = (r, acts', st') \<longleftrightarrow>
    r = Some (make_response status msg) \<and> acts' = acts \<and> st' = st"
  by (auto simp: fail_def)

lemma auth_failure_frame:
  "ps_rate_limiter (snd (auth_failure now key msg st)) = ps_rate_limiter st"
  "ps_config_holder (snd (auth_failure now key msg st)) = ps_config_holder st"
  "ps_audit (snd (auth_failure now key msg st)) = ps_audit st"
  "ps_metrics_path (snd (auth_failure now key msg st)) = ps_metrics_path st"
  "ps_socket_path (snd (auth_failure now key msg st)) = ps_socket_path st"
  by (auto simp: auth_failure_def Let_def split: prod.splits option.splits)

lemma authenticate_keeps:
  assumes "authenticate x clk config hs peer cert st = (r, st')"
  shows "ps_rate_limiter st' = ps_rate_limiter st" "ps_config_holder st' = ps_config_holder st"
    "ps_metrics_path st' = ps_metrics_path st" "ps_socket_path st' = ps_socket_path st"
proof -
  have "ps_rate_limiter (snd (authenticate x clk config hs peer cert st)) = ps_rate_limiter st
      \<and> ps_config_holder (snd (authenticate x clk config hs peer cert st)) = ps_config_holder st
      \<and> ps_metrics_path (snd (authenticate x clk config hs peer cert st)) = ps_metrics_path st
      \<and> ps_socket_path (snd (authenticate x clk config hs peer cert st)) = ps_socket_path st"
    by (simp add: authenticate_def authenticate_mtls_def authenticate_bearer_def auth_success_def auth_failure_frame Let_def
        split: option.splits sum.splits)
  with assms show "ps_rate_limiter st' = ps_rate_limiter st" "ps_config_holder st' = ps_config_holder st"
    "ps_metrics_path st' = ps_metrics_path st" "ps_socket_path st' = ps_socket_path st" by simp_all
qed

lemma deny_request_acts: "fst (snd (deny_request x fx rq lc d status message b st)) = []"
  by (simp add: deny_request_def Let_def)

text \<open>The two continuations of \<^const>\<open>call_docker\<close> send nothing more.\<close>

lemma finish_response_acts: "fst (snd (finish_response x fx filters res acts st)) = acts"
  by (auto simp: finish_response_def fail_def Let_def split: prod.splits timed.splits)

lemma finish_upgrade_acts: "set (fst (snd (finish_upgrade fx res acts st))) \<subseteq> insert SpawnTunnel (set acts)"
  by (auto simp: finish_upgrade_def Let_def split: prod.splits)

lemma call_docker_acts:
  assumes "\<And>res acts s. set (fst (snd (k res acts s))) \<subseteq> insert SpawnTunnel (set acts)"
    and "SendRequest r \<in> set (fst (snd (call_docker x fx rq lc own body k st)))"
  shows "build_upstream x rq lc own body = Some r"
  using assms(2) assms(1) [of _ "[Connect (ps_socket_path st), SendRequest _]" st]
  by (fastforce simp: call_docker_def fail_def Let_def split: timed.splits option.splits if_splits)

lemma note_dry_run_keeps [simp]:
  "ps_rate_limiter (note_dry_run fx rq lc d st) = ps_rate_limiter st"
  "ps_socket_path (note_dry_run fx rq lc d st) = ps_socket_path st"
  by (auto simp: note_dry_run_def send_audit_def upd_metrics_def split: option.splits)

lemma run_rules_def2:
  "run_rules x fx rq lc body st =
     (fst (evaluate_request_detailed x (fx_rule_clock fx) (lc_rules lc) (eval_context rq lc body) (ps_rate_limiter st)),
      st\<lparr>ps_rate_limiter := snd (evaluate_request_detailed x (fx_rule_clock fx) (lc_rules lc) (eval_context rq lc body) (ps_rate_limiter st))\<rparr>)"
  by (simp add: run_rules_def case_prod_beta Let_def)

lemma inc_by_rule [simp]:
  "by_rule (inc_requests_total m) = by_rule m" "by_rule (inc_requests_allowed m) = by_rule m"
  "by_rule (inc_requests_denied m) = by_rule m" "by_rule (inc_requests_dry_run m) = by_rule m"
  "by_rule (inc_rate_limited_total m) = by_rule m" "by_rule (inc_upstream_errors_total m) = by_rule m"
  "by_rule (inc_upstream_timeouts_total m) = by_rule m" "by_rule (inc_body_too_large_total m) = by_rule m"
  "by_rule (inc_bad_request_total m) = by_rule m" "by_rule (inc_request_timeouts_total m) = by_rule m"
  "by_rule (inc_upgrade_total m) = by_rule m" "by_rule (observe_upstream_latency_ms ms m) = by_rule m"
  by (simp_all add: inc_defs observe_upstream_latency_ms_def)

section \<open>Sample requests\<close>

definition open_state :: "rule list \<Rightarrow> proxy_state" where
  "open_state rules = fresh_state\<lparr>ps_config_holder := \<lparr>cfg_global = None,
     cfg_auth = Some \<lparr>a_type = Some ''none'', a_secret = None, a_tokens = None, a_mtls = None\<rparr>, cfg_rules = Some rules\<rparr>\<rparr>"

definition info_request :: "headers \<Rightarrow> request" where
  "info_request hs = \<lparr>rq_method = ''GET'', rq_path = ''/v1.41/info'', rq_query = None, rq_headers = hs,
     rq_peer = V4 10 0 0 1, rq_cert = None\<rparr>"

definition docker_answers :: "bytes \<Rightarrow> effects" where
  "docker_answers b = \<lparr>fx_auth_clock = (0, 0), fx_rule_clock = (\<lambda>_. 0), fx_timestamp = [], fx_body = (\<lambda>_. Done []),
     fx_connect = Done (), fx_handshake = True, fx_send = (\<lambda>_. Done (200, [(''content-type'', ''application/json'')])),
     fx_response_body = (\<lambda>n. if length b \<le> n then Done b else Failed []), fx_elapsed_ms = 3, fx_build_ok = True\<rparr>"

definition redact_rule :: rule where
  "redact_rule = (path_rule ''hide'' ''response_filter'' ''starts_with'' ''/'')\<lparr>r_response_filter := Some [filter_on ''redact'' ''Env'']\<rparr>"

definition info_sent :: "string \<Rightarrow> headers \<Rightarrow> upstream_request" where
  "info_sent conn extra = \<lparr>ur_method = ''GET'', ur_uri = ''/info'',
     ur_headers = [(''host'', ''docker.proxy''), (''connection'', conn)] @ extra, ur_body = []\<rparr>"

lemma info_path: "canonicalize_path ''/v1.41/info'' = Some ''/info''"
  by (simp add: path_eval)

lemmas handle_eval = handle_def info_path query_ok_def current_config_def upd_metrics_def open_state_def info_request_def
  docker_answers_def authenticate_def al_is_blocked_def fresh_state_def auth_limiter_new_def tbl_get_def auth_type_def
  is_metrics_request_def make_locals_def canonical_path_and_query_def header_get_all_def header_get_def header_text_def
  handle_plain_def parse_body_def forward_plain_def run_rules_def2 note_dry_run_def call_docker_def build_upstream_def
  no_external_def forward_headers_def info_sent_def is_upgrade_request_def header_has_token_def
  handle_upgrade_request_def handle_upgrade_def finish_upgrade_def SWITCHING_PROTOCOLS_def trim_def trim_matches_def is_ws_def
  split_on.simps MAX_RESP_BODY_BYTES_def MAX_REQ_BODY_BYTES_def

definition plain_headers :: headers where
  "plain_headers = [(''authorization'', ''Bearer x''), (''accept'', ''*'')]"

definition upgrade_headers :: headers where
  "upgrade_headers = [(''connection'', ''upgrade''), (''upgrade'', ''tcp'')]"

lemma plain_sample:
  "fst (snd (handle no_external (docker_answers ''a'') (info_request plain_headers) (open_state [])))
     = [Connect ''/var/run/docker.sock'', SendRequest (info_sent ''close'' [(''accept'', ''*'')])]"
  by (simp add: handle_eval plain_headers_def decision_allow_def finish_response_acts forwardable_def
      HOP_BY_HOP_HEADERS_def CLIENT_FORWARD_DROP_HEADERS_def)

text \<open>Docker's answer names a secret; the rules redact it.\<close>

definition env_table :: external where
  "env_table = table_json [(''a'', JObject [(''Env'', JString ''PW=x'')]), (''b'', JObject [(''Env'', JString REDACTED)])]"

end
