(* ===== verification/Proxy_Safety.thy ===== *)
theory Proxy_Safety
  imports Proxy
begin

text \<open>
  What the request handler lets through: when Docker is contacted at all, what it is sent, and
  which filters the answer has passed when the client gets it.
\<close>

section \<open>What reaches Docker\<close>

text \<open>
  The decision on which a request reached Docker, with the data it was made on.
\<close>

definition authorised :: "external \<Rightarrow> effects \<Rightarrow> request \<Rightarrow> proxy_state \<Rightarrow> locals \<Rightarrow> json option \<Rightarrow> bool" where
  "authorised x fx rq st lc body_json =
     (\<exists>path role identity st1.
        canonicalize_path (rq_path rq) = Some path \<and> query_ok (rq_query rq)
        \<and> authenticate x (fx_auth_clock fx) (current_config st) (rq_headers rq) (rq_peer rq) (rq_cert rq)
             (upd_metrics inc_requests_total st) = (Some (Allowed role identity), st1)
        \<and> lc = make_locals x rq (current_config st) path role identity
        \<and> is_some_and (fst (evaluate_request_detailed x (fx_rule_clock fx) (lc_rules lc) (eval_context rq lc body_json) (ps_rate_limiter st)))
             (\<lambda>d. d_result d = Allow))"

lemma handle_cases:
  assumes "fst (snd (handle x fx rq st)) \<noteq> []"
  obtains path role identity st1 where
    "canonicalize_path (rq_path rq) = Some path" "query_ok (rq_query rq)"
    "authenticate x (fx_auth_clock fx) (current_config st) (rq_headers rq) (rq_peer rq) (rq_cert rq)
       (upd_metrics inc_requests_total st) = (Some (Allowed role identity), st1)"
    "ps_rate_limiter st1 = ps_rate_limiter st"
    "handle x fx rq st = (if is_upgrade_request x (rq_headers rq)
       then handle_upgrade_request x fx rq (make_locals x rq (current_config st) path role identity) st1
       else handle_plain x fx rq (make_locals x rq (current_config st) path role identity) st1)"
proof -
  have cfg: "current_config (upd_metrics inc_requests_total st) = current_config st"
    and rl: "ps_rate_limiter (upd_metrics inc_requests_total st) = ps_rate_limiter st"
    by (simp_all add: current_config_def upd_metrics_def)
  from assms obtain path where p: "canonicalize_path (rq_path rq) = Some path" "query_ok (rq_query rq)"
    by (auto simp: handle_def fail_def Let_def split: option.splits if_splits)
  obtain r st1 where a: "authenticate x (fx_auth_clock fx) (current_config st) (rq_headers rq) (rq_peer rq) (rq_cert rq)
       (upd_metrics inc_requests_total st) = (r, st1)" by fastforce
  have h: "handle x fx rq st = (case r of
        None \<Rightarrow> (None, [], st1)
      | Some (Denied status msg) \<Rightarrow> refuse_unauthenticated x fx rq path status msg st1
      | Some (Allowed role identity) \<Rightarrow>
          if is_metrics_request rq path st1 then
            (Some (make_response_bytes 200 ''text/plain; version=0.0.4; charset=utf-8''
                     (render_prometheus (ps_metrics st1))), [], st1)
          else (if is_upgrade_request x (rq_headers rq)
                then handle_upgrade_request x fx rq (make_locals x rq (current_config st) path role identity) st1
                else handle_plain x fx rq (make_locals x rq (current_config st) path role identity) st1))"
    using p a by (simp add: handle_def cfg Let_def split: option.splits auth_outcome.splits)
  from assms obtain role identity where r: "r = Some (Allowed role identity)" and "\<not> is_metrics_request rq path st1"
    unfolding h by (auto simp: refuse_unauthenticated_def Let_def split: option.splits auth_outcome.splits if_splits)
  with h that [OF p a [unfolded r]] authenticate_keeps(1) [OF a] rl show ?thesis by simp
qed

text \<open>A context in which the rules might be evaluated for a request: any role and any body.\<close>

definition seen_as :: "external \<Rightarrow> request \<Rightarrow> proxy_config \<Rightarrow> evaluation_context \<Rightarrow> bool" where
  "seen_as x rq config ctx =
     (\<exists>path role identity body_json. canonicalize_path (rq_path rq) = Some path
        \<and> ctx = eval_context rq (make_locals x rq config path role identity) body_json)"

text \<open>The body the rules see: none for an upgrade, otherwise the parsed request body.\<close>

definition seen_body :: "external \<Rightarrow> effects \<Rightarrow> request \<Rightarrow> string \<Rightarrow> json option \<Rightarrow> bool" where
  "seen_body x fx rq path body_json =
     (if is_upgrade_request x (rq_headers rq) then body_json = None
      else \<exists>body. fx_body fx MAX_REQ_BODY_BYTES = Done body \<and> parse_body x path body = Inr body_json)"

text \<open>
  The context in which the rules see a request: its canonical path, the role that authentication gave
  it and its body. There is none if the request is refused before.
\<close>

definition rules_see :: "external \<Rightarrow> effects \<Rightarrow> request \<Rightarrow> proxy_state \<Rightarrow> evaluation_context \<Rightarrow> bool" where
  "rules_see x fx rq st ctx =
     (\<exists>path role identity st1 body_json. canonicalize_path (rq_path rq) = Some path
        \<and> authenticate x (fx_auth_clock fx) (current_config st) (rq_headers rq) (rq_peer rq) (rq_cert rq)
             (upd_metrics inc_requests_total st) = (Some (Allowed role identity), st1)
        \<and> seen_body x fx rq path body_json
        \<and> ctx = eval_context rq (make_locals x rq (current_config st) path role identity) body_json)"

lemma handle_upgrade_request_acts:
  assumes "fst (snd (handle_upgrade_request x fx rq lc st)) \<noteq> []"
  shows "is_some_and (fst (evaluate_request_detailed x (fx_rule_clock fx) (lc_rules lc) (eval_context rq lc None) (ps_rate_limiter st)))
             (\<lambda>d. d_result d = Allow)"
    and "SendRequest r \<in> set (fst (snd (handle_upgrade_request x fx rq lc st))) \<Longrightarrow>
       build_upstream x rq lc ((''connection'', ''upgrade'') # (case lc_upgrade_value lc of None \<Rightarrow> [] | Some u \<Rightarrow> [(''upgrade'', u)])) []
         = Some r"
proof -
  have [simp]: "ps_rate_limiter (upd_metrics f st) = ps_rate_limiter st" for f by (simp add: upd_metrics_def)
  from assms obtain d st1 where d: "run_rules x fx rq lc None (upd_metrics inc_upgrade_total st) = (Some d, st1)"
    and allow: "d_result d = Allow"
    by (auto simp: handle_upgrade_request_def deny_request_acts Let_def split: prod.splits option.splits rule_result.splits)
  show "is_some_and (fst (evaluate_request_detailed x (fx_rule_clock fx) (lc_rules lc) (eval_context rq lc None) (ps_rate_limiter st)))
             (\<lambda>d. d_result d = Allow)"
    using d allow by (auto simp: run_rules_def2)
  have "handle_upgrade_request x fx rq lc st =
      handle_upgrade x fx rq lc (upd_metrics inc_requests_allowed (note_dry_run fx rq lc d st1))"
    using d allow by (simp add: handle_upgrade_request_def)
  then show "SendRequest r \<in> set (fst (snd (handle_upgrade_request x fx rq lc st))) \<Longrightarrow>
       build_upstream x rq lc ((''connection'', ''upgrade'') # (case lc_upgrade_value lc of None \<Rightarrow> [] | Some u \<Rightarrow> [(''upgrade'', u)])) []
         = Some r"
    using call_docker_acts [of "finish_upgrade fx"] finish_upgrade_acts unfolding handle_upgrade_def by metis
qed

lemma handle_plain_acts:
  assumes "fst (snd (handle_plain x fx rq lc st)) \<noteq> []"
  shows "\<exists>body body_json. fx_body fx MAX_REQ_BODY_BYTES = Done body \<and> parse_body x (lc_path lc) body = Inr body_json
     \<and> is_some_and (fst (evaluate_request_detailed x (fx_rule_clock fx) (lc_rules lc) (eval_context rq lc body_json) (ps_rate_limiter st)))
             (\<lambda>d. d_result d = Allow)
     \<and> (\<forall>r. SendRequest r \<in> set (fst (snd (handle_plain x fx rq lc st))) \<longrightarrow>
            build_upstream x rq lc [(''connection'', ''close'')] body = Some r)"
proof -
  from assms obtain body body_json where b: "fx_body fx MAX_REQ_BODY_BYTES = Done body" "parse_body x (lc_path lc) body = Inr body_json"
    by (auto simp: handle_plain_def fail_def split: timed.splits body_error.splits sum.splits)
  then have h: "handle_plain x fx rq lc st = forward_plain x fx rq lc body body_json st"
    by (simp add: handle_plain_def)
  from assms obtain d st1 where d: "run_rules x fx rq lc body_json st = (Some d, st1)" and allow: "d_result d = Allow"
    unfolding h
    by (auto simp: forward_plain_def deny_request_acts Let_def split: prod.splits option.splits rule_result.splits)
  have "handle_plain x fx rq lc st = call_docker x fx rq lc [(''connection'', ''close'')] body
      (finish_response x fx (collect_response_filters x (lc_rules lc) (eval_context rq lc body_json)))
      (note_dry_run fx rq lc d st1)"
    using d allow by (simp add: h forward_plain_def)
  then have "\<forall>r. SendRequest r \<in> set (fst (snd (handle_plain x fx rq lc st))) \<longrightarrow>
            build_upstream x rq lc [(''connection'', ''close'')] body = Some r"
    using call_docker_acts [of "finish_response x fx _"] by (metis finish_response_acts subset_insertI)
  with b d allow show ?thesis by (auto simp: run_rules_def2)
qed

lemma contact_authorised:
  assumes "handle x fx rq st = (resp, acts, st')" and "acts \<noteq> []"
  shows "\<exists>lc body_json. authorised x fx rq st lc body_json \<and> seen_body x fx rq (lc_path lc) body_json"
proof -
  from assms have "fst (snd (handle x fx rq st)) \<noteq> []" by simp
  then obtain path role identity st1 where h:
    "canonicalize_path (rq_path rq) = Some path" "query_ok (rq_query rq)"
    "authenticate x (fx_auth_clock fx) (current_config st) (rq_headers rq) (rq_peer rq) (rq_cert rq)
       (upd_metrics inc_requests_total st) = (Some (Allowed role identity), st1)"
    and rl: "ps_rate_limiter st1 = ps_rate_limiter st"
    and eq: "handle x fx rq st = (if is_upgrade_request x (rq_headers rq)
       then handle_upgrade_request x fx rq (make_locals x rq (current_config st) path role identity) st1
       else handle_plain x fx rq (make_locals x rq (current_config st) path role identity) st1)"
    by (rule handle_cases)
  let ?lc = "make_locals x rq (current_config st) path role identity"
  have auth: "authorised x fx rq st ?lc b"
    if "is_some_and (fst (evaluate_request_detailed x (fx_rule_clock fx) (lc_rules ?lc) (eval_context rq ?lc b) (ps_rate_limiter st)))
             (\<lambda>d. d_result d = Allow)" for b
    using h that unfolding authorised_def by blast
  show ?thesis
  proof (cases "is_upgrade_request x (rq_headers rq)")
    case True
    then show ?thesis
      using auth [of None] handle_upgrade_request_acts(1) [of x fx rq ?lc st1] assms eq rl
      by (auto simp: seen_body_def)
  next
    case False
    then show ?thesis
      using auth handle_plain_acts [of x fx rq ?lc st1] assms eq rl
      by (fastforce simp: seen_body_def)
  qed
qed

text \<open>
  (C1) The proxy contacts Docker only on behalf of an authorised request: the path and query are well
  formed, authentication allowed the request under the current configuration, and the rules,
  evaluated on the canonical path, the client's address, its headers, its role and the body,
  allowed it. In every other case, errors and panics included, no connection is opened.
\<close>

theorem docker_contact_authorised:
  assumes "handle x fx rq st = (resp, acts, st')" and "acts \<noteq> []"
  shows "\<exists>lc body_json. authorised x fx rq st lc body_json \<and> seen_body x fx rq (lc_path lc) body_json"
  using assms by (rule contact_authorised)

text \<open>
  What Docker must not see of a client's headers: credentials, the host, what forwarding proxies say
  about the client, and the headers that belong to one connection.
\<close>

definition withheld :: "string set" where
  "withheld = {''authorization'', ''proxy-authorization'', ''proxy-authenticate'', ''host'',
     ''x-forwarded-for'', ''x-forwarded-host'', ''x-forwarded-proto'', ''x-forwarded-port'', ''x-real-ip'', ''forwarded'', ''via'',
     ''connection'', ''keep-alive'', ''te'', ''trailer'', ''transfer-encoding'', ''content-length'', ''upgrade''}"

lemma forward_headers_clean: "forward_headers hs = filter (\<lambda>(name, _). name \<notin> withheld) hs"
  by (auto simp: forward_headers_def forwardable_def withheld_def HOP_BY_HOP_HEADERS_def CLIENT_FORWARD_DROP_HEADERS_def
      intro!: filter_cong)

text \<open>The headers that the proxy writes itself, after the host.\<close>

definition connection_headers :: "external \<Rightarrow> request \<Rightarrow> headers" where
  "connection_headers x rq =
     (if is_upgrade_request x (rq_headers rq)
      then (''connection'', ''upgrade'') # (case header_text x (rq_headers rq) ''upgrade'' of None \<Rightarrow> [] | Some u \<Rightarrow> [(''upgrade'', u)])
      else [(''connection'', ''close'')])"

text \<open>
  A request that is sent: the data it was built from is the data that was authorised.
\<close>

lemma sent_request_cases:
  assumes "SendRequest r \<in> set (fst (snd (handle x fx rq st)))"
  obtains path role identity own body body_json lc where
    "canonicalize_path (rq_path rq) = Some path" "lc = make_locals x rq (current_config st) path role identity"
    "authorised x fx rq st lc body_json" "build_upstream x rq lc own body = Some r" "own = connection_headers x rq"
    "if is_upgrade_request x (rq_headers rq) then body = [] \<and> body_json = None
     else fx_body fx MAX_REQ_BODY_BYTES = Done body \<and> parse_body x path body = Inr body_json"
proof -
  from assms have "fst (snd (handle x fx rq st)) \<noteq> []" by auto
  then obtain path role identity st1 where h:
    "canonicalize_path (rq_path rq) = Some path" "query_ok (rq_query rq)"
    "authenticate x (fx_auth_clock fx) (current_config st) (rq_headers rq) (rq_peer rq) (rq_cert rq)
       (upd_metrics inc_requests_total st) = (Some (Allowed role identity), st1)"
    and rl: "ps_rate_limiter st1 = ps_rate_limiter st"
    and eq: "handle x fx rq st = (if is_upgrade_request x (rq_headers rq)
       then handle_upgrade_request x fx rq (make_locals x rq (current_config st) path role identity) st1
       else handle_plain x fx rq (make_locals x rq (current_config st) path role identity) st1)"
    by (rule handle_cases)
  let ?lc = "make_locals x rq (current_config st) path role identity"
  have lc: "lc_path ?lc = path" by (simp add: make_locals_def)
  have auth: "authorised x fx rq st ?lc b"
    if "is_some_and (fst (evaluate_request_detailed x (fx_rule_clock fx) (lc_rules ?lc) (eval_context rq ?lc b) (ps_rate_limiter st)))
             (\<lambda>d. d_result d = Allow)" for b
    using h that unfolding authorised_def by blast
  show ?thesis
  proof (cases "is_upgrade_request x (rq_headers rq)")
    case True
    with assms eq have s: "SendRequest r \<in> set (fst (snd (handle_upgrade_request x fx rq ?lc st1)))" by simp
    then have ne: "fst (snd (handle_upgrade_request x fx rq ?lc st1)) \<noteq> []" by auto
    from True auth [of None] handle_upgrade_request_acts(1) [OF ne] rl
    show ?thesis
      by (intro that [OF h(1) refl _ handle_upgrade_request_acts(2) [OF ne s]]) (simp_all add: connection_headers_def make_locals_def)
  next
    case False
    with assms eq have s: "SendRequest r \<in> set (fst (snd (handle_plain x fx rq ?lc st1)))" by simp
    then have ne: "fst (snd (handle_plain x fx rq ?lc st1)) \<noteq> []" by auto
    from handle_plain_acts [OF ne] s obtain body bj where b: "fx_body fx MAX_REQ_BODY_BYTES = Done body"
      "parse_body x path body = Inr bj" "build_upstream x rq ?lc [(''connection'', ''close'')] body = Some r"
      and al: "is_some_and (fst (evaluate_request_detailed x (fx_rule_clock fx) (lc_rules ?lc) (eval_context rq ?lc bj) (ps_rate_limiter st1)))
             (\<lambda>d. d_result d = Allow)" unfolding lc by blast
    show ?thesis
      by (rule that [OF h(1) refl auth b(3)]) (use False al rl b in \<open>simp_all add: connection_headers_def\<close>)
  qed
qed

text \<open>
  (C3) What Docker is sent: the request target is the canonical path with the client's query, and the
  headers are the proxy's own \<^verbatim>\<open>host\<close> and \<^verbatim>\<open>connection\<close> (and for an upgrade the \<^verbatim>\<open>upgrade\<close> value that
  the client asked for), followed by the client's headers in their order without the credentials,
  forwarding headers and connection headers named in \<^const>\<open>withheld\<close>.
\<close>

theorem forwarded_request_clean:
  assumes "handle x fx rq st = (resp, acts, st')" and "SendRequest r \<in> set acts"
  shows "(\<exists>path. canonicalize_path (rq_path rq) = Some path \<and> ur_uri r = canonical_path_and_query path (rq_query rq))
    \<and> ur_method r = rq_method rq
    \<and> ur_headers r = (''host'', ''docker.proxy'') # connection_headers x rq
          @ filter (\<lambda>(name, _). name \<notin> withheld) (rq_headers rq)"
proof -
  from assms have "SendRequest r \<in> set (fst (snd (handle x fx rq st)))" by simp
  then obtain path role identity own body bj lc where path: "canonicalize_path (rq_path rq) = Some path"
    and lc: "lc = make_locals x rq (current_config st) path role identity"
    and b: "build_upstream x rq lc own body = Some r" and own: "own = connection_headers x rq"
    by (rule sent_request_cases)
  have r: "ur_uri r = canonical_path_and_query path (rq_query rq)" "ur_method r = rq_method rq"
    "ur_headers r = (''host'', ''docker.proxy'') # own @ forward_headers (rq_headers rq)"
    using b by (auto simp: lc build_upstream_def make_locals_def split: if_splits)
  with own have "ur_headers r = (''host'', ''docker.proxy'') # connection_headers x rq
          @ filter (\<lambda>(name, _). name \<notin> withheld) (rq_headers rq)"
    by (simp add: forward_headers_clean)
  with path r(1,2) show ?thesis by blast
qed

text \<open>
  (C4) What was checked is what is sent: the body Docker gets is the one the rules were evaluated
  on, parsed from the same bytes (an upgrade request is checked and sent without a body), and
  it is at most 10 MiB long, if \<^verbatim>\<open>Limited\<close> never yields a body beyond its limit.
\<close>

theorem sent_body_is_checked_body:
  assumes "handle x fx rq st = (resp, acts, st')" and "SendRequest r \<in> set acts"
    and "\<And>n b. fx_body fx n = Done b \<Longrightarrow> length b \<le> n"
  shows "(\<exists>lc body_json. authorised x fx rq st lc body_json
            \<and> (if is_upgrade_request x (rq_headers rq) then ur_body r = [] \<and> body_json = None
               else parse_body x (lc_path lc) (ur_body r) = Inr body_json))
       \<and> length (ur_body r) \<le> 10485760"
proof -
  from assms(1,2) have "SendRequest r \<in> set (fst (snd (handle x fx rq st)))" by simp
  then obtain path role identity own body bj lc where
    lc: "lc = make_locals x rq (current_config st) path role identity" and au: "authorised x fx rq st lc bj"
    and b: "build_upstream x rq lc own body = Some r"
    and body: "if is_upgrade_request x (rq_headers rq) then body = [] \<and> bj = None
     else fx_body fx MAX_REQ_BODY_BYTES = Done body \<and> parse_body x path body = Inr bj"
    by (rule sent_request_cases)
  have r: "ur_body r = body" and p: "lc_path lc = path"
    using b by (auto simp: lc build_upstream_def make_locals_def split: if_splits)
  have "length body \<le> MAX_REQ_BODY_BYTES" using body assms(3) by (auto split: if_splits)
  then have len: "length (ur_body r) \<le> 10485760" by (simp add: r MAX_REQ_BODY_BYTES_def)
  have "if is_upgrade_request x (rq_headers rq) then ur_body r = [] \<and> bj = None
               else parse_body x (lc_path lc) (ur_body r) = Inr bj"
    using body r p by (auto split: if_splits)
  with au len show ?thesis by blast
qed

section \<open>Requests that are refused\<close>

lemma handle_when_denied:
  assumes "\<And>s. ps_env_secret s = ps_env_secret st \<Longrightarrow> \<exists>code msg. code \<in> C \<and>
     authenticate x (fx_auth_clock fx) (current_config st) (rq_headers rq) (rq_peer rq) (rq_cert rq) s = (Some (Denied code msg), s)"
  shows "\<exists>resp st'. handle x fx rq st = (Some resp, [], st') \<and> resp_status resp \<in> insert 400 C"
proof -
  let ?s = "upd_metrics inc_requests_total st"
  have cfg: "current_config ?s = current_config st" by (simp add: current_config_def upd_metrics_def)
  have "ps_env_secret ?s = ps_env_secret st" by (simp add: upd_metrics_def)
  from assms [OF this] obtain code msg where "code \<in> C" and
    "authenticate x (fx_auth_clock fx) (current_config st) (rq_headers rq) (rq_peer rq) (rq_cert rq) ?s = (Some (Denied code msg), ?s)"
    by blast
  then show ?thesis
    by (auto simp: handle_def cfg refuse_unauthenticated_def make_response_def fail_def Let_def split: option.split)
qed

lemma mtls_without_certificate:
  "auth_type config = Some ''mtls'' \<Longrightarrow> \<exists>code msg. code \<in> {401, 429}
     \<and> authenticate x clk config hs peer None st = (Some (Denied code msg), st)"
  by (simp add: authenticate_def authenticate_mtls_def Let_def)

lemma unconfigured_denied:
  "cfg_auth config = None \<Longrightarrow> ps_env_secret st = [] \<Longrightarrow> \<exists>code msg. code \<in> {401, 429}
     \<and> authenticate x clk config hs peer cert st = (Some (Denied code msg), st)"
  by (simp add: authenticate_def auth_type_def authenticate_bearer_def is_auth_strictly_configured_def Let_def)

section \<open>What the client gets\<close>

lemma call_docker_done:
  assumes "SendRequest r \<in> set (fst (snd (call_docker x fx rq lc own body k st)))"
    and "\<And>res acts s. set (fst (snd (k res acts s))) \<subseteq> insert SpawnTunnel (set acts)"
    and "fx_send fx r = Done res"
  shows "call_docker x fx rq lc own body k st = k res [Connect (ps_socket_path st), SendRequest r] st"
proof -
  have b: "build_upstream x rq lc own body = Some r" by (rule call_docker_acts [OF assms(2,1)])
  have "\<exists>u. fx_connect fx = Done u" "fx_handshake fx"
    using assms(1) by (auto simp: call_docker_def fail_def Let_def split: timed.splits if_splits)
  with b assms(3) show ?thesis by (auto simp: call_docker_def)
qed




text \<open>
  (C38) Filters can be avoided: a client that adds \<^verbatim>\<open>Connection: upgrade\<close> and \<^verbatim>\<open>Upgrade\<close> headers gets
  Docker's answer unfiltered whenever Docker answers with anything but 101, whatever response
  filters the rules name.
\<close>

theorem upgrade_skips_filters:
  assumes "handle x fx rq st = (Some resp, acts, st')" and "is_upgrade_request x (rq_headers rq)"
    and "SendRequest r \<in> set acts" and "fx_send fx r = Done (status, hs)" and "fx_response_body fx MAX_RESP_BODY_BYTES = Done b"
    and "fx_build_ok fx" and "status \<noteq> 101"
  shows "resp_body resp = b"
proof -
  from assms(1,3) have "fst (snd (handle x fx rq st)) \<noteq> []" by auto
  then obtain path role identity st1 where
    eq: "handle x fx rq st = (if is_upgrade_request x (rq_headers rq)
       then handle_upgrade_request x fx rq (make_locals x rq (current_config st) path role identity) st1
       else handle_plain x fx rq (make_locals x rq (current_config st) path role identity) st1)"
    by (rule handle_cases)
  let ?lc = "make_locals x rq (current_config st) path role identity"
  have "handle_upgrade_request x fx rq ?lc st1 = (Some resp, acts, st')" using eq assms(1,2) by simp
  then obtain s where "handle_upgrade x fx rq ?lc s = (Some resp, acts, st')"
    using assms(3)
    by (auto simp: handle_upgrade_request_def deny_request_def Let_def split: prod.splits option.splits rule_result.splits)
  moreover from this have "SendRequest r \<in> set (fst (snd (handle_upgrade x fx rq ?lc s)))" using assms(3) by simp
  note call_docker_done [OF this [unfolded handle_upgrade_def] finish_upgrade_acts assms(4)]
  ultimately have "finish_upgrade fx (status, hs) [Connect (ps_socket_path s), SendRequest r] s = (Some resp, acts, st')"
    by (simp add: handle_upgrade_def)
  with assms(5-7) show ?thesis
    by (auto simp: finish_upgrade_def upgrade_refused_def SWITCHING_PROTOCOLS_def)
qed

section \<open>Witnesses\<close>

theorem docker_contact_authorised_witness:
  "\<exists>lc body_json. authorised no_external (docker_answers ''a'') (info_request plain_headers) (open_state []) lc body_json
     \<and> seen_body no_external (docker_answers ''a'') (info_request plain_headers) (lc_path lc) body_json"
  using docker_contact_authorised [of no_external "docker_answers ''a''" "info_request plain_headers" "open_state []"]
    plain_sample by (metis list.discI prod.collapse)

theorem forwarded_request_clean_witness:
  "ur_headers (info_sent ''close'' [(''accept'', ''*'')])
     = (''host'', ''docker.proxy'') # connection_headers no_external (info_request plain_headers)
         @ filter (\<lambda>(name, _). name \<notin> withheld) plain_headers"
proof -
  obtain resp st' where "handle no_external (docker_answers ''a'') (info_request plain_headers) (open_state [])
      = (resp, [Connect ''/var/run/docker.sock'', SendRequest (info_sent ''close'' [(''accept'', ''*'')])], st')"
    using plain_sample by (metis prod.collapse)
  from forwarded_request_clean [OF this, of "info_sent ''close'' [(''accept'', ''*'')]"]
  show ?thesis by (simp add: info_request_def)
qed

theorem sent_body_is_checked_body_witness:
  "length (ur_body (info_sent ''close'' [(''accept'', ''*'')])) \<le> 10485760
   \<and> \<not> is_upgrade_request no_external plain_headers"
proof -
  obtain resp st' where h: "handle no_external (docker_answers ''a'') (info_request plain_headers) (open_state [])
      = (resp, [Connect ''/var/run/docker.sock'', SendRequest (info_sent ''close'' [(''accept'', ''*'')])], st')"
    using plain_sample by (metis prod.collapse)
  have "fx_body (docker_answers ''a'') n = Done b \<Longrightarrow> length b \<le> n" for n b by (simp add: docker_answers_def)
  from sent_body_is_checked_body [OF h _ this, of "info_sent ''close'' [(''accept'', ''*'')]"]
  show ?thesis by (simp add: is_upgrade_request_def header_get_def plain_headers_def)
qed



lemma upgrade_sample:
  "\<exists>resp st'. handle env_table (docker_answers ''a'') (info_request upgrade_headers) (open_state [redact_rule])
     = (Some resp, [Connect ''/var/run/docker.sock'', SendRequest (info_sent ''upgrade'' [(''upgrade'', ''tcp'')])], st')"
  by (simp add: handle_eval upgrade_headers_def env_table_def table_json_def redact_rule_def rule_eval eval_context_def
      decision_allow_def forwardable_def HOP_BY_HOP_HEADERS_def Let_def)

theorem upgrade_skips_filters_witness:
  "\<exists>resp. fst (handle env_table (docker_answers ''a'') (info_request upgrade_headers) (open_state [redact_rule])) = Some resp
     \<and> resp_body resp = ''a''"
proof -
  from upgrade_sample obtain resp st' where h:
    "handle env_table (docker_answers ''a'') (info_request upgrade_headers) (open_state [redact_rule])
       = (Some resp, [Connect ''/var/run/docker.sock'', SendRequest (info_sent ''upgrade'' [(''upgrade'', ''tcp'')])], st')" by blast
  have "is_upgrade_request env_table (rq_headers (info_request upgrade_headers))"
    by (simp add: handle_eval upgrade_headers_def env_table_def table_json_def)
  from upgrade_skips_filters [OF h this, of "info_sent ''upgrade'' [(''upgrade'', ''tcp'')]" 200 "[(''content-type'', ''application/json'')]" "''a''"] h
  show ?thesis by (auto simp: docker_answers_def MAX_RESP_BODY_BYTES_def)
qed

end
