(* ===== verification/Proxy_State.thy ===== *)
theory Proxy_State
  imports Proxy
begin

text \<open>
  What a request does to the shared state: the invariants it keeps, the entries it leaves alone,
  the counters it moves, and that it is always answered.
\<close>

section \<open>Frames of the handler\<close>

text \<open>
  The handler touches the shared state through five operations only: it moves counters, records
  a rule decision, sends an audit event, evaluates the rules and authenticates the peer. A
  relation between states that is reflexive and transitive and holds across each of them holds
  across the whole handler. The locale proves this once; every statement of the kind \<open>a
  request from this peer preserves\<close> is an instance. Evaluating the rules has to respect the
  relation only for the locals that \<open>admits\<close> accepts, such as those of one client address.
\<close>

locale handler_frame =
  fixes R :: "proxy_state \<Rightarrow> proxy_state \<Rightarrow> bool"
    and peer :: ip_addr
    and admits :: "locals \<Rightarrow> bool"
  assumes R_refl: "R st st"
    and R_trans: "R s0 s1 \<Longrightarrow> R s1 s2 \<Longrightarrow> R s0 s2"
    and R_metrics: "(\<And>m. by_rule (f m) = by_rule m) \<Longrightarrow> R st (upd_metrics f st)"
    and R_record: "R st (upd_metrics (record_rule_deny rn dry) st)"
    and R_audit: "R st (send_audit ev st)"
    and R_rules: "admits lc \<Longrightarrow> R st (snd (run_rules x fx rq lc body st))"
    and R_auth: "R st (snd (authenticate x clk config hs peer cert st))"
begin

lemma R_metrics_record:
  assumes "\<And>m. by_rule (f m) = by_rule m"
  shows "R st (upd_metrics (\<lambda>m. record_rule_deny rn b (f m)) st)"
proof -
  have "upd_metrics (\<lambda>m. record_rule_deny rn b (f m)) st = upd_metrics (record_rule_deny rn b) (upd_metrics f st)"
    by (simp add: upd_metrics_def)
  with R_trans [OF R_metrics [OF assms] R_record] show ?thesis by simp
qed

lemma R_note_dry_run: "R st (note_dry_run fx rq lc d st)"
  by (auto simp: note_dry_run_def R_refl intro!: R_trans [OF R_metrics_record R_audit] split: option.splits)

lemma R_deny_request: "R st (snd (snd (deny_request x fx rq lc d status msg b st)))"
proof -
  let ?st1 = "upd_metrics inc_requests_denied st"
  let ?st2 = "if b \<and> d_action d = Some ''rate_limit'' then upd_metrics inc_rate_limited_total ?st1 else ?st1"
  let ?st3 = "case d_rule_name d of Some rn \<Rightarrow> upd_metrics (record_rule_deny rn False) ?st2 | None \<Rightarrow> ?st2"
  have 1: "R st ?st1" by (rule R_metrics) simp
  have "R ?st1 ?st2" by (simp add: R_metrics R_refl)
  with 1 have 2: "R st ?st2" by (rule R_trans)
  have "R ?st2 ?st3" by (cases "d_rule_name d") (simp_all only: option.case R_refl R_record)
  with 2 have "R st ?st3" by (rule R_trans)
  from R_trans [OF this R_audit] show ?thesis by (simp only: deny_request_def Let_def snd_conv)
qed

lemma R_call_docker:
  assumes "\<And>res acts. R st (snd (snd (k res acts st)))"
  shows "R st (snd (snd (call_docker x fx rq lc own body k st)))"
  using assms
  by (auto simp: call_docker_def fail_def Let_def R_metrics R_refl split: timed.split option.split)

lemma R_finish_response: "R st (snd (snd (finish_response x fx filters res acts st)))"
  by (auto simp: finish_response_def fail_def Let_def R_metrics split: timed.split prod.split)

text \<open>The part the plain and the upgrade handler share: run the rules, note a dry run, deny or go on.\<close>

lemma R_after_rules:
  assumes "run_rules x fx rq lc bj st = (r, st1)" and "admits lc"
    and "\<And>d. r = Some d \<Longrightarrow> d_result d = Allow \<Longrightarrow> R (note_dry_run fx rq lc d st1) (snd (snd (go d)))"
  shows "R st (snd (snd (case r of
     None \<Rightarrow> (None, [], st1)
   | Some d \<Rightarrow> (case d_result d of
        Deny status message \<Rightarrow> deny_request x fx rq lc d status message b (note_dry_run fx rq lc d st1)
      | Allow \<Rightarrow> go d))))"
proof -
  have 1: "R st st1" using R_rules [of lc st x fx rq bj] assms(1,2) by simp
  show ?thesis
  proof (cases r)
    case None
    with 1 show ?thesis by simp
  next
    case (Some d)
    have 2: "R st (note_dry_run fx rq lc d st1)" by (rule R_trans [OF 1 R_note_dry_run])
    show ?thesis
    proof (cases "d_result d")
      case Allow
      with R_trans [OF 2 assms(3)] Some show ?thesis by simp
    next
      case (Deny status message)
      with R_trans [OF 2 R_deny_request] Some show ?thesis by simp
    qed
  qed
qed

lemma R_handle_upgrade_request:
  assumes "admits lc"
  shows "R st (snd (snd (handle_upgrade_request x fx rq lc st)))"
proof -
  let ?u = "upd_metrics inc_upgrade_total st"
  obtain r st1 where r: "run_rules x fx rq lc None ?u = (r, st1)" by fastforce
  have go: "R s (snd (snd (handle_upgrade x fx rq lc (upd_metrics inc_requests_allowed s))))" for s
    unfolding handle_upgrade_def
    by (rule R_trans [OF R_metrics R_call_docker]) (simp_all add: finish_upgrade_def case_prod_beta Let_def R_refl)
  have "R ?u (snd (snd (handle_upgrade_request x fx rq lc st)))"
    unfolding handle_upgrade_request_def r Let_def prod.case by (rule R_after_rules [OF r assms go])
  moreover have "R st ?u" by (rule R_metrics) simp
  ultimately show ?thesis using R_trans by blast
qed

lemma R_handle_plain:
  assumes "admits lc"
  shows "R st (snd (snd (handle_plain x fx rq lc st)))"
proof -
  have "R st (snd (snd (forward_plain x fx rq lc body bj st)))" for body bj
  proof -
    obtain r st1 where r: "run_rules x fx rq lc bj st = (r, st1)" by fastforce
    have go: "R s (snd (snd (call_docker x fx rq lc own body (finish_response x fx fs) s)))" for own fs s
      by (intro R_call_docker R_finish_response)
    show ?thesis
      unfolding forward_plain_def r Let_def prod.case by (rule R_after_rules [OF r assms go])
  qed
  then show ?thesis
    by (auto simp: handle_plain_def fail_def R_metrics split: timed.splits body_error.splits sum.splits)
qed

lemma handle_frame:
  assumes "rq_peer rq = peer" and "\<And>path role identity. admits (make_locals x rq (current_config st) path role identity)"
  shows "R st (snd (snd (handle x fx rq st)))"
proof -
  let ?st = "upd_metrics inc_requests_total st"
  have 1: "R st ?st" by (rule R_metrics) simp
  have ok: "admits (make_locals x rq (current_config ?st) path role identity)" for path role identity
    using assms(2) by (simp add: current_config_def upd_metrics_def)
  have bad: "R ?st (upd_metrics inc_bad_request_total ?st)" by (rule R_metrics) simp
  obtain r st1 where a: "authenticate x (fx_auth_clock fx) (current_config ?st) (rq_headers rq) (rq_peer rq) (rq_cert rq) ?st = (r, st1)"
    by fastforce
  have 2: "R ?st st1" using R_auth [of ?st] a assms(1) by (metis snd_conv)
  note to_st = R_trans [OF 2]
  have "R st1 (snd (snd (refuse_unauthenticated x fx rq path status msg st1)))" for path status msg
    using R_trans [OF R_metrics R_audit, of inc_requests_denied st1]
    by (simp add: refuse_unauthenticated_def Let_def)
  then have "R ?st (snd (snd (handle x fx rq st)))"
    using a bad 2
    by (simp add: handle_def fail_def Let_def to_st R_handle_upgrade_request R_handle_plain ok
        split: option.split auth_outcome.split)
  with 1 show ?thesis by (rule R_trans)
qed

end

section \<open>Invariant of the shared state\<close>

definition proxy_inv :: "proxy_state \<Rightarrow> bool" where
  "proxy_inv st =
     (al_inv (ps_auth_limiter st) \<and> rl_inv (ps_rate_limiter st) \<and> tbl_wf (by_rule (ps_metrics st))
      \<and> length (au_queue (ps_audit st)) \<le> AUDIT_CHANNEL_CAPACITY)"

text \<open>The fixed part of the state: the configuration and the start-up parameters.\<close>

definition fixed_part :: "proxy_state \<Rightarrow> proxy_config \<times> string \<times> string \<times> string option" where
  "fixed_part st = (ps_config_holder st, ps_env_secret st, ps_socket_path st, ps_metrics_path st)"

definition keeps :: "proxy_state \<Rightarrow> proxy_state \<Rightarrow> bool" where
  "keeps st st' = (fixed_part st' = fixed_part st \<and> (proxy_inv st \<longrightarrow> proxy_inv st'))"

lemmas keeps_defs = keeps_def fixed_part_def proxy_inv_def

lemma keeps_refl [simp]: "keeps st st"
  by (simp add: keeps_def)

lemma keeps_upd_metrics: "(\<And>m. by_rule (f m) = by_rule m) \<Longrightarrow> keeps st (upd_metrics f st)"
  by (simp add: keeps_defs upd_metrics_def)

lemma keeps_authenticate: "keeps st (snd (authenticate x clk config hs peer cert st))"
proof -
  have "keeps st (snd (auth_failure now key msg st))" for now key msg
    using al_record_failure_inv [of "ps_auth_limiter st" now key AUTH_FAIL_MAX AUTH_FAIL_WINDOW AUTH_FAIL_LOCKOUT]
    by (auto simp: keeps_defs auth_failure_def Let_def split: prod.splits option.splits)
  moreover have "keeps st (auth_success key st)" for key
    by (auto simp: keeps_defs auth_success_def intro: inv_intros)
  ultimately show ?thesis
    by (simp add: authenticate_def authenticate_mtls_def authenticate_bearer_def Let_def split: option.splits sum.splits)
qed

interpretation kept: handler_frame keeps peer "\<lambda>_. True"
proof (unfold_locales, goal_cases)
  case (2 a b c)
  then show ?case by (auto simp: keeps_def)
next
  case (4 st rn b)
  then show ?case using by_rule_wf [of "ps_metrics st" rn b] by (simp add: keeps_defs upd_metrics_def)
next
  case (5 st ev)
  then show ?case by (auto simp: keeps_defs send_audit_def audit_send_def)
next
  case (6 lc st x fx rq body)
  then show ?case using evaluate_inv [of "ps_rate_limiter st"] by (auto simp: keeps_defs run_rules_def2)
qed (simp_all add: keeps_upd_metrics keeps_authenticate)

lemma handle_keeps: "keeps st (snd (snd (handle x fx rq st)))"
  by (rule kept.handle_frame) simp_all

text \<open>
  Handling a request, whatever it is and whatever Docker does, keeps the shared state well
  formed (both limiter tables bounded and without duplicates, the audit queue within its
  capacity) and leaves the configuration and the start-up parameters alone, even if it panics.
\<close>

theorem handle_preserves_state:
  assumes "proxy_inv st"
  shows "proxy_inv (snd (snd (handle x fx rq st))) \<and> fixed_part (snd (snd (handle x fx rq st))) = fixed_part st"
  using handle_keeps [of st x fx rq] assms by (simp add: keeps_def)

section \<open>Isolation of clients\<close>

text \<open>The lockout entries of all addresses but the peer's.\<close>

definition others_untouched :: "ip_addr \<Rightarrow> proxy_state \<Rightarrow> proxy_state \<Rightarrow> bool" where
  "others_untouched peer st st' =
     (al_inv (ps_auth_limiter st) \<longrightarrow>
        al_inv (ps_auth_limiter st')
        \<and> (\<forall>k. k \<noteq> show_ip peer \<longrightarrow> tbl_get (ps_auth_limiter st') k = tbl_get (ps_auth_limiter st) k))"

lemma others_same_limiter: "ps_auth_limiter st' = ps_auth_limiter st \<Longrightarrow> others_untouched peer st st'"
  by (simp add: others_untouched_def)

lemma others_step:
  "al_target op = Some (show_ip peer) \<Longrightarrow> ps_auth_limiter st' = al_step op (ps_auth_limiter st) \<Longrightarrow> others_untouched peer st st'"
  using al.inv_step [of "ps_auth_limiter st" op] al.frame_step [of "ps_auth_limiter st" op "show_ip peer"]
  by (auto simp: others_untouched_def)

lemma others_authenticate: "others_untouched peer st (snd (authenticate x clk config hs peer cert st))"
proof -
  have "others_untouched peer st (snd (auth_failure now (show_ip peer) msg st))" for now msg
    by (rule others_step [of "AlFailure now (show_ip peer) AUTH_FAIL_MAX AUTH_FAIL_WINDOW AUTH_FAIL_LOCKOUT"])
       (auto simp: auth_failure_def Let_def split: prod.splits option.splits)
  moreover have "others_untouched peer st (auth_success (show_ip peer) st)"
    by (rule others_step [of "AlSuccess (show_ip peer)"]) (simp_all add: auth_success_def)
  moreover have "others_untouched peer st st" by (rule others_same_limiter) simp
  ultimately show ?thesis
    by (simp add: authenticate_def authenticate_mtls_def authenticate_bearer_def Let_def split: option.splits sum.splits)
qed

interpretation others: handler_frame "others_untouched peer" peer "\<lambda>_. True"
proof (unfold_locales, goal_cases)
  case (2 s0 s1 s2)
  then show ?case by (auto simp: others_untouched_def)
next
  case (6 lc st x fx rq body)
  show ?case by (rule others_same_limiter) (simp add: run_rules_def2)
qed (auto intro!: others_same_limiter simp: upd_metrics_def send_audit_def others_authenticate)

text \<open>The rate-limit buckets outside the keys that the rules make for one client.\<close>

definition buckets_untouched :: "string set \<Rightarrow> proxy_state \<Rightarrow> proxy_state \<Rightarrow> bool" where
  "buckets_untouched ks st st' =
     (rl_inv (ps_rate_limiter st) \<longrightarrow>
        rl_inv (ps_rate_limiter st')
        \<and> (\<forall>k. k \<notin> ks \<longrightarrow> tbl_get (ps_rate_limiter st') k = tbl_get (ps_rate_limiter st) k))"

definition own_keys :: "string set \<Rightarrow> locals \<Rightarrow> bool" where
  "own_keys ks lc = (\<forall>r \<in> set (lc_rules lc). r_name r @ '':'' @ lc_client_ip lc \<in> ks)"

lemma buckets_same_limiter: "ps_rate_limiter st' = ps_rate_limiter st \<Longrightarrow> buckets_untouched ks st st'"
  by (simp add: buckets_untouched_def)

interpretation buckets: handler_frame "buckets_untouched ks" peer "own_keys ks"
proof (unfold_locales, goal_cases)
  case (2 s0 s1 s2)
  then show ?case by (auto simp: buckets_untouched_def)
next
  case (6 lc st x fx rq body)
  let ?rl = "ps_rate_limiter st" and ?ctx = "eval_context rq lc body"
  have "tbl_get (snd (evaluate_request_detailed x (fx_rule_clock fx) (lc_rules lc) ?ctx ?rl)) k = tbl_get ?rl k"
    if "rl_inv ?rl" "k \<notin> ks" for k
    using that 6 by (intro evaluate_frame) (auto simp: own_keys_def rate_key_def eval_context_def)
  then show ?case by (simp add: buckets_untouched_def run_rules_def2 evaluate_inv)
next
  case (7 st x clk config hs cert)
  show ?case
    by (rule buckets_same_limiter)
       (cases "authenticate x clk config hs peer cert st", simp add: authenticate_keeps)
qed (auto intro!: buckets_same_limiter simp: upd_metrics_def send_audit_def)

lemma client_key_inject:
  assumes "addr_wf a" and "addr_wf b" and "CHR '':'' \<notin> set m" and "CHR '':'' \<notin> set n"
  shows "m @ '':'' @ show_ip a = n @ '':'' @ show_ip b \<longleftrightarrow> m = n \<and> a = b"
proof
  assume eq: "m @ '':'' @ show_ip a = n @ '':'' @ show_ip b"
  from assms(3,4) have split: "takeWhile (\<lambda>c. c \<noteq> CHR '':'') (m @ '':'' @ show_ip a) = m"
    "takeWhile (\<lambda>c. c \<noteq> CHR '':'') (n @ '':'' @ show_ip b) = n"
    by (subst takeWhile_append2; auto)+
  with eq have "m = n" by metis
  with eq assms(1,2) show "m = n \<and> a = b" by (simp add: show_ip_inject)
qed simp

lemma handle_keeps_lockout:
  assumes "proxy_inv st" and "key \<noteq> show_ip (rq_peer rq)"
  shows "tbl_get (ps_auth_limiter (snd (snd (handle x fx rq st)))) key = tbl_get (ps_auth_limiter st) key"
  using others.handle_frame [OF refl TrueI, of rq st x fx] assms by (simp add: others_untouched_def proxy_inv_def)

lemma handle_keeps_bucket:
  assumes "proxy_inv st" and "addr_wf (rq_peer rq)" and "addr_wf a"
    and "\<forall>r \<in> set (unwrap_or (cfg_rules (current_config st)) []). CHR '':'' \<notin> set (r_name r)"
    and "a \<noteq> compute_client_ip x (rq_peer rq) (rq_headers rq) (trusted_proxies x (current_config st))"
    and "CHR '':'' \<notin> set n"
  shows "tbl_get (ps_rate_limiter (snd (snd (handle x fx rq st)))) (n @ '':'' @ show_ip a)
       = tbl_get (ps_rate_limiter st) (n @ '':'' @ show_ip a)"
proof -
  let ?c = "compute_client_ip x (rq_peer rq) (rq_headers rq) (trusted_proxies x (current_config st))"
  let ?ks = "{m @ '':'' @ show_ip ?c | m. CHR '':'' \<notin> set m}"
  note inject = client_key_inject [OF assms(3) compute_client_ip_wf [OF assms(2)] assms(6)]
  have "n @ '':'' @ show_ip a \<notin> ?ks" using inject assms(5) by blast
  moreover have "own_keys ?ks (make_locals x rq (current_config st) path role identity)" for path role identity
    using assms(4) by (auto simp: own_keys_def make_locals_def)
  ultimately show ?thesis
    using buckets.handle_frame [OF refl, of ?ks x rq st fx] assms(1) by (auto simp: buckets_untouched_def proxy_inv_def)
qed

text \<open>
  Clients are isolated from each other: whatever a request carries, it changes the lockout entry
  of no address but its peer's, and the rate-limit buckets of no address but its client's (the
  one the trusted proxies report), for any rule, as long as the rules' names have no colon. The
  entries are found by printed addresses; different addresses print differently.
\<close>

theorem handle_isolates_clients:
  assumes "proxy_inv st" and "addr_wf (rq_peer rq)" and "addr_wf a"
    and "\<forall>r \<in> set (unwrap_or (cfg_rules (current_config st)) []). CHR '':'' \<notin> set (r_name r)"
    and "snd (snd (handle x fx rq st)) = st'"
  shows "(a \<noteq> rq_peer rq \<longrightarrow>
            al_is_blocked t (show_ip a) (ps_auth_limiter st') = al_is_blocked t (show_ip a) (ps_auth_limiter st)
            \<and> tbl_get (ps_auth_limiter st') (show_ip a) = tbl_get (ps_auth_limiter st) (show_ip a))
       \<and> (a \<noteq> compute_client_ip x (rq_peer rq) (rq_headers rq) (trusted_proxies x (current_config st))
            \<and> CHR '':'' \<notin> set n \<longrightarrow>
            tbl_get (ps_rate_limiter st') (n @ '':'' @ show_ip a) = tbl_get (ps_rate_limiter st) (n @ '':'' @ show_ip a))"
proof -
  have "a \<noteq> rq_peer rq \<Longrightarrow> show_ip a \<noteq> show_ip (rq_peer rq)" using assms(2,3) by (simp add: show_ip_inject)
  then show ?thesis
    using handle_keeps_lockout [OF assms(1)] handle_keeps_bucket [OF assms(1-4)] assms(5)
    by (auto simp: al_is_blocked_def)
qed

text \<open>
  The restriction is needed: with a rule named like another one followed by a colon and a group,
  two clients share a bucket.
\<close>

lemma rate_keys_collide:
  "rate_key (rule_default\<lparr>r_name := ''r''\<rparr>) (get_request ''/''\<lparr>ctx_client_ip := show_ip (V6 [1, 2, 0, 0, 0, 0, 0, 3])\<rparr>)
   = rate_key (rule_default\<lparr>r_name := ''r:1''\<rparr>) (get_request ''/''\<lparr>ctx_client_ip := show_ip (V6 [2, 0, 0, 0, 0, 0, 0, 3])\<rparr>)"
  by code_simp

section \<open>The audit trail\<close>

text \<open>Handlers only append to the audit channel; the file belongs to the background task.\<close>

definition audit_extends :: "proxy_state \<Rightarrow> proxy_state \<Rightarrow> bool" where
  "audit_extends st st' =
     (prefix (au_queue (ps_audit st)) (au_queue (ps_audit st')) \<and> au_file (ps_audit st') = au_file (ps_audit st)
      \<and> au_tx (ps_audit st') = au_tx (ps_audit st) \<and> au_receiving (ps_audit st') = au_receiving (ps_audit st))"

lemma audit_extends_same: "ps_audit st' = ps_audit st \<Longrightarrow> audit_extends st st'"
  by (simp add: audit_extends_def)

lemma audit_authenticate [simp]: "ps_audit (snd (authenticate x clk config hs peer cert st)) = ps_audit st"
  by (simp add: authenticate_def authenticate_mtls_def authenticate_bearer_def auth_success_def auth_failure_frame Let_def
      split: option.splits sum.splits)

interpretation audited: handler_frame audit_extends peer "\<lambda>_. True"
proof (unfold_locales, goal_cases)
  case (2 s0 s1 s2)
  then show ?case by (auto simp: audit_extends_def)
next
  case (5 st ev)
  then show ?case by (auto simp: audit_extends_def send_audit_def audit_send_def)
qed (auto intro!: audit_extends_same simp: upd_metrics_def run_rules_def2)

section \<open>Accounting\<close>

text \<open>The counters for all, allowed and denied requests, and one request's contribution.\<close>

definition tally :: "proxy_state \<Rightarrow> u64 \<times> u64 \<times> u64" where
  "tally st = (requests_total (ps_metrics st), requests_allowed (ps_metrics st), requests_denied (ps_metrics st))"

definition settles :: "u64 \<times> u64 \<times> u64 \<Rightarrow> proxy_state \<Rightarrow> bool" where
  "settles n st = (case n of (t, a, d) \<Rightarrow> tally st \<in> {(t, a, d), (t, a + 1, d), (t, a, d + 1)})"

lemma tally_upd [simp]:
  "tally (upd_metrics inc_requests_denied st) = (fst (tally st), fst (snd (tally st)), snd (snd (tally st)) + 1)"
  "tally (upd_metrics inc_requests_allowed st) = (fst (tally st), fst (snd (tally st)) + 1, snd (snd (tally st)))"
  "tally (upd_metrics inc_requests_total st) = (fst (tally st) + 1, snd (tally st))"
  "tally (upd_metrics inc_rate_limited_total st) = tally st" "tally (upd_metrics inc_upstream_errors_total st) = tally st"
  "tally (upd_metrics inc_upstream_timeouts_total st) = tally st" "tally (upd_metrics inc_body_too_large_total st) = tally st"
  "tally (upd_metrics inc_bad_request_total st) = tally st" "tally (upd_metrics inc_request_timeouts_total st) = tally st"
  "tally (upd_metrics inc_upgrade_total st) = tally st" "tally (upd_metrics (record_rule_deny rn b) st) = tally st"
  "tally (upd_metrics (\<lambda>m. record_rule_deny rn b (inc_requests_dry_run m)) st) = tally st"
  "tally (upd_metrics (\<lambda>m. inc_requests_allowed (observe_upstream_latency_ms ms m)) st)
     = (fst (tally st), fst (snd (tally st)) + 1, snd (snd (tally st)))"
  by (simp_all add: tally_def upd_metrics_def inc_defs record_rule_deny_def observe_upstream_latency_ms_def Let_def)

lemma tally_other [simp]:
  "tally (send_audit ev st) = tally st" "tally (note_dry_run fx rq lc d st) = tally st"
  "tally (snd (run_rules x fx rq lc b st)) = tally st" "tally (snd (authenticate x clk config hs peer cert st)) = tally st"
proof -
  show audit: "tally (send_audit ev st) = tally st" for ev st by (simp add: tally_def send_audit_def)
  show "tally (note_dry_run fx rq lc d st) = tally st" by (simp add: note_dry_run_def audit split: option.split)
  show "tally (snd (run_rules x fx rq lc b st)) = tally st" by (simp add: run_rules_def2 tally_def)
  have "tally (snd (auth_failure now key msg st)) = tally st" for now key msg
    by (simp add: auth_failure_def tally_def Let_def split: prod.split option.split)
  then show "tally (snd (authenticate x clk config hs peer cert st)) = tally st"
    by (simp add: authenticate_def authenticate_mtls_def authenticate_bearer_def auth_success_def tally_def Let_def
        split: option.split sum.split)
qed

lemma tally_deny_request:
  "tally (snd (snd (deny_request x fx rq lc d status msg b st))) = (fst (tally st), fst (snd (tally st)), snd (snd (tally st)) + 1)"
  by (simp add: deny_request_def Let_def split: option.split)

lemma settles_call_docker:
  assumes "settles n st" and "\<And>res acts. settles n (snd (snd (k res acts st)))"
  shows "settles n (snd (snd (call_docker x fx rq lc own body k st)))"
  using assms by (simp add: call_docker_def fail_def settles_def Let_def split: timed.split option.split)

lemma settles_tally: "settles (tally st) st" and settles_cong: "tally st' = tally st \<Longrightarrow> settles n st' = settles n st"
  by (simp_all add: settles_def case_prod_beta)

lemma settles_handle_plain: "settles (tally st) (snd (snd (handle_plain x fx rq lc st)))"
proof -
  have fin: "settles (tally s) (snd (snd (finish_response x fx fs res acts s)))" for s fs res acts
    by (simp add: finish_response_def fail_def settles_def case_prod_beta Let_def split: timed.split)
  have "settles (tally st) (snd (snd (forward_plain x fx rq lc body bj st)))" for body bj
  proof -
    obtain r st1 where r: "run_rules x fx rq lc bj st = (r, st1)" by fastforce
    then have t: "tally st1 = tally st" using tally_other(3) [of x fx rq lc bj st] by simp
    have allow: "settles (tally st) (snd (snd (call_docker x fx rq lc own body (finish_response x fx fs) (note_dry_run fx rq lc d st1))))" for own fs d
      using fin [of "note_dry_run fx rq lc d st1" fs] settles_tally [of "note_dry_run fx rq lc d st1"] t
      by (intro settles_call_docker) simp_all
    have deny: "settles (tally st) (snd (snd (deny_request x fx rq lc d s m True (note_dry_run fx rq lc d st1))))" for d s m
      using t by (simp add: settles_def tally_deny_request case_prod_beta)
    show ?thesis
    proof (cases r)
      case None
      then show ?thesis using r t by (simp add: forward_plain_def settles_def case_prod_beta)
    next
      case (Some d)
      then show ?thesis
        using r allow deny by (cases "d_result d") (simp_all add: forward_plain_def)
    qed
  qed
  then show ?thesis
    by (auto simp: handle_plain_def fail_def settles_def case_prod_beta split: timed.split body_error.split sum.split)
qed

lemma settles_handle_upgrade_request: "settles (tally st) (snd (snd (handle_upgrade_request x fx rq lc st)))"
proof -
  let ?u = "upd_metrics inc_upgrade_total st"
  obtain r st1 where r: "run_rules x fx rq lc None ?u = (r, st1)" by fastforce
  then have t: "tally st1 = tally st" using tally_other(3) [of x fx rq lc None ?u] by simp
  have fin: "settles (tally st) (snd (snd (handle_upgrade x fx rq lc (upd_metrics inc_requests_allowed (note_dry_run fx rq lc d st1)))))" for d
    unfolding handle_upgrade_def using t
    by (intro settles_call_docker) (simp_all add: settles_def finish_upgrade_def case_prod_beta Let_def)
  have deny: "settles (tally st) (snd (snd (deny_request x fx rq lc d s m False (note_dry_run fx rq lc d st1))))" for d s m
    using t by (simp add: settles_def tally_deny_request case_prod_beta)
  show ?thesis
  proof (cases r)
    case None
    then show ?thesis using r t by (simp add: handle_upgrade_request_def settles_def case_prod_beta)
  next
    case (Some d)
    then show ?thesis using r fin deny by (cases "d_result d") (simp_all add: handle_upgrade_request_def)
  qed
qed

text \<open>
  (C30) Every request is counted once: the total grows by one, and at most one of the allowed and the
  denied counters grows, by one (modulo $2^{64}$, as the counters wrap), on every path through
  the handler.
\<close>

theorem handle_counts_once:
  assumes "tally st = (t, a, d)"
  shows "tally (snd (snd (handle x fx rq st))) \<in> {(t + 1, a, d), (t + 1, a + 1, d), (t + 1, a, d + 1)}"
proof -
  let ?st = "upd_metrics inc_requests_total st"
  have n: "tally ?st = (t + 1, a, d)" using assms by simp
  obtain r st1 where au: "authenticate x (fx_auth_clock fx) (current_config ?st) (rq_headers rq) (rq_peer rq) (rq_cert rq) ?st = (r, st1)"
    by fastforce
  have t1: "tally st1 = (t + 1, a, d)" using tally_other(4) [of x "fx_auth_clock fx"] au n by (metis snd_conv)
  have "settles (t + 1, a, d) (snd (snd (handle x fx rq st)))"
    using au n t1 settles_handle_plain [of st1 x fx rq] settles_handle_upgrade_request [of st1 x fx rq]
    by (simp add: handle_def fail_def refuse_unauthenticated_def settles_def Let_def split: option.split auth_outcome.split)
  then show ?thesis by (simp add: settles_def)
qed

section \<open>Every refusal is on record\<close>

abbreviation denied_count :: "proxy_state \<Rightarrow> u64" where
  "denied_count st \<equiv> snd (snd (tally st))"

text \<open>The channel takes events and has room for one more.\<close>

definition audit_ready :: "proxy_state \<Rightarrow> bool" where
  "audit_ready st =
     (au_tx (ps_audit st) \<and> au_receiving (ps_audit st) \<and> length (au_queue (ps_audit st)) < AUDIT_CHANNEL_CAPACITY)"

text \<open>One new event, which describes the refusal of this request.\<close>

definition refusal_recorded :: "request \<Rightarrow> string \<Rightarrow> response \<Rightarrow> proxy_state \<Rightarrow> proxy_state \<Rightarrow> bool" where
  "refusal_recorded rq path resp st st' =
     (\<exists>ev. au_queue (ps_audit st') = au_queue (ps_audit st) @ [ev]
        \<and> (ae_event ev = ''deny'' \<or> ae_event ev = ''auth_denied'')
        \<and> ae_peer_ip ev = show_ip (rq_peer rq) \<and> ae_method ev = rq_method rq \<and> ae_path ev = path
        \<and> ae_status ev = resp_status resp \<and> ae_message ev = Some (resp_body resp))"

lemma audit_same [simp]:
  "ps_audit (upd_metrics f st) = ps_audit st" "ps_audit (snd (run_rules x fx rq lc b st)) = ps_audit st"
  by (simp_all add: upd_metrics_def run_rules_def2)

lemma send_audit_ready:
  "audit_ready st \<Longrightarrow> au_queue (ps_audit (send_audit ev st)) = au_queue (ps_audit st) @ [ev]"
  by (simp add: audit_ready_def send_audit_def audit_send_def audit_is_enabled_def)

lemma deny_request_recorded:
  assumes "deny_request x fx rq lc d status msg b st = (Some resp, acts, st')" and "audit_ready st"
  shows "refusal_recorded rq (lc_path lc) resp st st'"
proof -
  let ?st3 = "case d_rule_name d of Some rn \<Rightarrow> upd_metrics (record_rule_deny rn False)
      (if b \<and> d_action d = Some ''rate_limit'' then upd_metrics inc_rate_limited_total (upd_metrics inc_requests_denied st)
       else upd_metrics inc_requests_denied st)
    | None \<Rightarrow> if b \<and> d_action d = Some ''rate_limit'' then upd_metrics inc_rate_limited_total (upd_metrics inc_requests_denied st)
       else upd_metrics inc_requests_denied st"
  have a: "ps_audit ?st3 = ps_audit st" by (simp split: option.split)
  then have "audit_ready ?st3" using assms(2) unfolding audit_ready_def by simp
  from send_audit_ready [OF this] a assms(1) show ?thesis
    by (auto simp: deny_request_def refusal_recorded_def new_event_def audit_event_new_def make_response_string_def Let_def)
qed

lemma evaluate_deny_enforced:
  "fst (evaluate_request_detailed x clk rules ctx rl) = Some d \<Longrightarrow> d_result d = Deny status msg \<Longrightarrow> \<not> d_dry_run d"
proof (induction x clk rules ctx rl rule: evaluate_request_detailed.induct)
  case (2 x clk r rs ctx rl)
  show ?case
  proof (cases "apply_rule x (clk 0) r ctx rl")
    case (Pair step rl')
    with 2 show ?thesis
      by (cases step) (auto simp: apply_rule_def block_decision_def Let_def split: if_splits option.splits prod.splits bool.splits)
  qed
qed (auto simp: decision_allow_def)

lemma denied_call_docker:
  assumes "\<And>res acts. denied_count (snd (snd (k res acts st))) = denied_count st"
  shows "denied_count (snd (snd (call_docker x fx rq lc own body k st))) = denied_count st"
  using assms by (simp add: call_docker_def fail_def Let_def split: timed.split option.split)

lemma denied_finish_response: "denied_count (snd (snd (finish_response x fx fs res acts st))) = denied_count st"
  by (simp add: finish_response_def fail_def case_prod_beta Let_def split: timed.split)

text \<open>The shared middle part of the two handlers: a refusal can only come from the deny branch.\<close>

lemma after_rules_recorded:
  assumes "run_rules x fx rq lc bj st = (r, st1)" and "audit_ready st"
    and "(case r of
     None \<Rightarrow> (None, [], st1)
   | Some d \<Rightarrow> (case d_result d of
        Deny status message \<Rightarrow> deny_request x fx rq lc d status message b (note_dry_run fx rq lc d st1)
      | Allow \<Rightarrow> go d)) = (Some resp, acts, st')"
    and "\<And>d. denied_count (snd (snd (go d))) = denied_count st" and "denied_count st' \<noteq> denied_count st"
  shows "refusal_recorded rq (lc_path lc) resp st st'"
proof -
  from assms(3) obtain d where r: "r = Some d" by (cases r) auto
  obtain status message where d: "d_result d = Deny status message"
    using assms(3,5) assms(4) [of d] r by (cases "d_result d") auto
  have "\<not> d_dry_run d"
    using assms(1) r d by (auto simp: run_rules_def2 dest: evaluate_deny_enforced)
  then have n: "note_dry_run fx rq lc d st1 = st1" by (simp add: note_dry_run_def split: option.split)
  have a: "ps_audit st1 = ps_audit st" using assms(1) audit_same(2) [of x fx rq lc bj st] by simp
  have "deny_request x fx rq lc d status message b st1 = (Some resp, acts, st')" using assms(3) r d n by simp
  from deny_request_recorded [OF this] a assms(2) show ?thesis
    by (simp add: audit_ready_def refusal_recorded_def)
qed

lemma handle_upgrade_request_recorded:
  assumes "handle_upgrade_request x fx rq lc st = (Some resp, acts, st')" and "audit_ready st"
    and "denied_count st' \<noteq> denied_count st"
  shows "refusal_recorded rq (lc_path lc) resp st st'"
proof -
  let ?u = "upd_metrics inc_upgrade_total st"
  obtain r st1 where r: "run_rules x fx rq lc None ?u = (r, st1)" by fastforce
  then have t: "tally st1 = tally st" using tally_other(3) [of x fx rq lc None ?u] by simp
  have go: "denied_count (snd (snd (handle_upgrade x fx rq lc (upd_metrics inc_requests_allowed (note_dry_run fx rq lc d st1)))))
      = denied_count ?u" for d
  proof -
    have "denied_count (snd (snd (handle_upgrade x fx rq lc s))) = denied_count s" for s
      unfolding handle_upgrade_def by (rule denied_call_docker) (simp add: finish_upgrade_def case_prod_beta Let_def)
    then show ?thesis using t by simp
  qed
  have "refusal_recorded rq (lc_path lc) resp ?u st'"
  proof (rule after_rules_recorded [OF r _ _ go])
    show "audit_ready ?u" "denied_count st' \<noteq> denied_count ?u" using assms(2,3) by (simp_all add: audit_ready_def)
  qed (rule assms(1) [unfolded handle_upgrade_request_def r Let_def prod.case])
  then show ?thesis by (simp add: refusal_recorded_def)
qed

lemma handle_plain_recorded:
  assumes "handle_plain x fx rq lc st = (Some resp, acts, st')" and "audit_ready st"
    and "denied_count st' \<noteq> denied_count st"
  shows "refusal_recorded rq (lc_path lc) resp st st'"
proof -
  from assms(1,3) obtain body bj where f: "forward_plain x fx rq lc body bj st = (Some resp, acts, st')"
    by (auto simp: handle_plain_def fail_def split: timed.splits body_error.splits sum.splits)
  obtain r st1 where r: "run_rules x fx rq lc bj st = (r, st1)" by fastforce
  then have t: "tally st1 = tally st" using tally_other(3) [of x fx rq lc bj st] by simp
  have go: "denied_count (snd (snd (call_docker x fx rq lc own body (finish_response x fx fs) (note_dry_run fx rq lc d st1))))
      = denied_count st" for own fs d
    by (subst denied_call_docker) (simp_all add: denied_finish_response t)
  show ?thesis
    by (rule after_rules_recorded [OF r assms(2) f [unfolded forward_plain_def r Let_def prod.case] go assms(3)])
qed

text \<open>A channel that takes no event, because it is full or nobody receives, is left as it is.\<close>

definition mute_audit :: "proxy_state \<Rightarrow> proxy_state \<Rightarrow> bool" where
  "mute_audit st st' = (audit_ready st \<or> ps_audit st' = ps_audit st)"

lemma mute_same: "ps_audit st' = ps_audit st \<Longrightarrow> mute_audit st st'"
  by (simp add: mute_audit_def)

interpretation mute: handler_frame mute_audit peer "\<lambda>_. True"
proof (unfold_locales, goal_cases)
  case (2 s0 s1 s2)
  then show ?case by (auto simp: mute_audit_def audit_ready_def)
next
  case (5 st ev)
  then show ?case by (auto simp: mute_audit_def audit_ready_def send_audit_def audit_send_def)
next
  case (7 st x clk config hs cert)
  show ?case by (rule mute_same) (rule audit_authenticate)
qed (simp_all add: mute_same)

lemma refusal_recorded_ready:
  assumes "handle x fx rq st = (Some resp, acts, st')" and "audit_ready st"
    and "requests_denied (ps_metrics st') \<noteq> requests_denied (ps_metrics st)"
    and "canonicalize_path (rq_path rq) = Some path" and "query_ok (rq_query rq)"
  shows "refusal_recorded rq path resp st st'"
proof -
  let ?st = "upd_metrics inc_requests_total st"
  have d: "denied_count st' \<noteq> denied_count ?st" using assms(3) by (simp add: tally_def upd_metrics_def inc_defs)
  note p = assms(4,5)
  obtain r st1 where au: "authenticate x (fx_auth_clock fx) (current_config ?st) (rq_headers rq) (rq_peer rq) (rq_cert rq) ?st = (r, st1)"
    by fastforce
  have t1: "denied_count st1 = denied_count ?st" and a1: "ps_audit st1 = ps_audit st"
    using tally_other(4) [of x "fx_auth_clock fx"] audit_authenticate [of x "fx_auth_clock fx"] au
    by (metis snd_conv, metis snd_conv audit_same(1))
  have ready: "audit_ready st1" using assms(2) by (simp add: audit_ready_def a1)
  have "refusal_recorded rq path resp st1 st'"
  proof (cases r)
    case None
    with assms(1) p au show ?thesis by (simp add: handle_def)
  next
    case (Some out)
    show ?thesis
    proof (cases out)
      case (Denied status msg)
      have "audit_ready (upd_metrics inc_requests_denied st1)" using ready by (simp add: audit_ready_def)
      from send_audit_ready [OF this] assms(1) p au Some Denied show ?thesis
        by (auto simp: handle_def refuse_unauthenticated_def refusal_recorded_def audit_event_new_def make_response_def Let_def)
    next
      case (Allowed role identity)
      let ?lc = "make_locals x rq (current_config ?st) path role identity"
      have "\<not> is_metrics_request rq path st1"
        using assms(1) p au Some Allowed d t1 by (auto simp: handle_def)
      then have "(if is_upgrade_request x (rq_headers rq) then handle_upgrade_request x fx rq ?lc st1 else handle_plain x fx rq ?lc st1)
          = (Some resp, acts, st')"
        using assms(1) p au Some Allowed by (simp add: handle_def Let_def)
      with handle_upgrade_request_recorded [OF _ ready] handle_plain_recorded [OF _ ready] d t1
      have "refusal_recorded rq (lc_path ?lc) resp st1 st'" by (auto split: if_splits)
      then show ?thesis by (simp add: make_locals_def)
    qed
  qed
  with a1 show ?thesis by (simp add: refusal_recorded_def)
qed

text \<open>
  (C13) Every refusal is on record: when a request is counted as denied, by authentication or by a
  rule, and auditing is enabled, its task is alive and its channel is not full, exactly one event is
  sent for it, with the peer, the method, the canonical path and the status and message that the
  client was given. Otherwise nothing is sent.
\<close>

theorem refusals_audited:
  assumes "handle x fx rq st = (Some resp, acts, st')"
    and "requests_denied (ps_metrics st') \<noteq> requests_denied (ps_metrics st)"
  shows "\<exists>path. canonicalize_path (rq_path rq) = Some path
     \<and> (if audit_ready st then refusal_recorded rq path resp st st' else ps_audit st' = ps_audit st)"
proof -
  have "denied_count st' \<noteq> denied_count (upd_metrics inc_requests_total st)"
    using assms(2) by (simp add: tally_def upd_metrics_def inc_defs)
  with assms(1) obtain path where "canonicalize_path (rq_path rq) = Some path" "query_ok (rq_query rq)"
    by (auto simp: handle_def fail_def Let_def split: option.splits if_splits)
  moreover have "mute_audit st st'" using mute.handle_frame [OF refl TrueI, of st x fx rq] assms(1) by simp
  ultimately show ?thesis using refusal_recorded_ready [OF assms(1) _ assms(2)] by (auto simp: mute_audit_def)
qed

section \<open>The handler returns\<close>

lemma al_record_failure_returns:
  "now + lockout \<le> instant_max \<Longrightarrow> \<exists>b. fst (al_record_failure now key mx window lockout g) = Some b"
  by (auto simp: al_record_failure_def lockout_failure_def instant_add_def Let_def split: prod.splits if_splits option.splits)

lemma authenticate_returns:
  assumes "snd clk + AUTH_FAIL_LOCKOUT \<le> instant_max"
  shows "\<exists>out. fst (authenticate x clk config hs peer cert st) = Some out"
proof -
  have "\<exists>out. fst (auth_failure (snd clk) key msg s) = Some out" for key msg s
    using al_record_failure_returns [OF assms, of key AUTH_FAIL_MAX AUTH_FAIL_WINDOW "ps_auth_limiter s"]
    by (auto simp: auth_failure_def Let_def split: prod.splits option.splits)
  then show ?thesis
    by (auto simp: authenticate_def authenticate_mtls_def authenticate_bearer_def Let_def split: option.splits sum.splits)
qed

lemma call_docker_returns:
  "(\<And>res acts s. fst (k res acts s) \<noteq> None) \<Longrightarrow> fst (call_docker x fx rq lc own body k st) \<noteq> None"
  by (auto simp: call_docker_def fail_def Let_def split: timed.splits option.splits)

lemma run_rules_returns:
  assumes "\<forall>r \<in> set (lc_rules lc). penalty_fits latest r" and "\<forall>i. fx_rule_clock fx i \<le> latest"
  shows "\<exists>d. fst (run_rules x fx rq lc b st) = Some d"
  using evaluate_returns [OF assms] by (simp add: run_rules_def2)

text \<open>
  (C17) Every request gets an answer: if the clock readings, the five-minute lockout and the configured
  rate-limit penalties stay within the range of the clock, the handler never panics, whatever
  the request and whatever Docker does.
\<close>

theorem handle_returns:
  assumes "\<forall>r \<in> set (unwrap_or (cfg_rules (current_config st)) []). penalty_fits latest r"
    and "\<forall>i. fx_rule_clock fx i \<le> latest" and "snd (fx_auth_clock fx) + AUTH_FAIL_LOCKOUT \<le> instant_max"
  shows "\<exists>resp. fst (handle x fx rq st) = Some resp"
proof -
  let ?st = "upd_metrics inc_requests_total st"
  have cfg: "current_config ?st = current_config st" by (simp add: current_config_def upd_metrics_def)
  obtain out st1 where au: "authenticate x (fx_auth_clock fx) (current_config st) (rq_headers rq) (rq_peer rq) (rq_cert rq) ?st = (Some out, st1)"
    using authenticate_returns [OF assms(3)] by (metis prod.collapse)
  have run: "\<exists>d. fst (run_rules x fx rq (make_locals x rq (current_config st) path role ident) b s) = Some d" for path role ident b s
    using assms(1,2) by (intro run_rules_returns [where latest = latest]) (simp_all add: make_locals_def)
  have fin: "fst (finish_response x fx fs res acts s) \<noteq> None" "fst (finish_upgrade fx res acts s) \<noteq> None" for fs res acts s
    by (auto simp: finish_response_def finish_upgrade_def fail_def Let_def case_prod_beta split: timed.splits)
  have docker: "\<exists>y. fst (call_docker x fx rq lc own body (finish_response x fx fs) s) = Some y"
    "\<exists>y. fst (call_docker x fx rq lc own body (finish_upgrade fx) s) = Some y" for lc own body fs s
    using call_docker_returns fin by (metis not_None_eq)+
  have plain: "fst (handle_plain x fx rq (make_locals x rq (current_config st) path role ident) s) \<noteq> None" for path role ident s
  proof (cases "fx_body fx MAX_REQ_BODY_BYTES")
    case (Done body)
    have "fst (forward_plain x fx rq (make_locals x rq (current_config st) path role ident) body bj s) \<noteq> None" for bj
      using run [of path role ident bj s] docker(1)
      by (auto simp: forward_plain_def deny_request_def Let_def split: prod.split option.split rule_result.split)
    with Done show ?thesis by (auto simp: handle_plain_def split: sum.split)
  qed (auto simp: handle_plain_def fail_def split: body_error.split)
  have upg: "fst (handle_upgrade_request x fx rq (make_locals x rq (current_config st) path role ident) s) \<noteq> None" for path role ident s
    using run [of path role ident None "upd_metrics inc_upgrade_total s"] docker(2)
    by (auto simp: handle_upgrade_request_def handle_upgrade_def deny_request_def Let_def
        split: prod.split option.split rule_result.split)
  have "fst (handle x fx rq st) \<noteq> None"
    using au plain upg
    by (auto simp: handle_def cfg fail_def refuse_unauthenticated_def Let_def split: option.split auth_outcome.split)
  then show ?thesis by blast
qed

section \<open>Witnesses\<close>

lemma open_state_inv: "proxy_inv (open_state rules)"
  using al.inv_init rl.inv_init
  by (simp add: proxy_inv_def open_state_def fresh_state_def metrics_new_def audit_disabled_def tbl_defs)

theorem handle_preserves_state_witness:
  "proxy_inv (snd (snd (handle no_external (docker_answers ''a'') (info_request []) (open_state []))))"
  using handle_preserves_state [OF open_state_inv, of no_external "docker_answers ''a''" "info_request []" "[]"] by blast

theorem handle_isolates_clients_witness:
  "let st' = snd (snd (handle no_external (docker_answers ''a'') (info_request []) (open_state [])))
   in al_is_blocked 7 (show_ip (V4 10 9 9 9)) (ps_auth_limiter st')
        = al_is_blocked 7 (show_ip (V4 10 9 9 9)) (ps_auth_limiter (open_state []))
      \<and> tbl_get (ps_rate_limiter st') (''r'' @ '':'' @ show_ip (V4 10 9 9 9))
        = tbl_get (ps_rate_limiter (open_state [])) (''r'' @ '':'' @ show_ip (V4 10 9 9 9))"
proof -
  have "\<forall>r \<in> set (unwrap_or (cfg_rules (current_config (open_state []))) []). CHR '':'' \<notin> set (r_name r)"
    by (simp add: open_state_def current_config_def)
  moreover have "V4 10 9 9 9 \<noteq> rq_peer (info_request [])" by (simp add: info_request_def)
  moreover have "compute_client_ip no_external (rq_peer (info_request [])) (rq_headers (info_request []))
      (trusted_proxies no_external (current_config (open_state []))) = rq_peer (info_request [])"
    by (simp add: compute_client_ip_def is_trusted_def trusted_proxies_def open_state_def current_config_def)
  moreover have "addr_wf (rq_peer (info_request []))" by (simp add: info_request_def)
  ultimately show ?thesis
    using handle_isolates_clients [OF open_state_inv, of "info_request []" "V4 10 9 9 9" "[]" no_external "docker_answers ''a''"
        _ 7 "''r''"] unfolding Let_def by simp
qed

text \<open>A state with auditing on and no authentication configured: every request is refused.\<close>

definition closed_state :: proxy_state where
  "closed_state = fresh_state\<lparr>ps_audit := audit_spawn []\<rparr>"

lemma closed_sample:
  "\<exists>resp st'. handle no_external (docker_answers ''a'') (info_request []) closed_state = (Some resp, [], st')
     \<and> requests_denied (ps_metrics st') = 1"
  by (simp add: handle_eval closed_state_def proxy_config_default_def authenticate_bearer_def is_auth_strictly_configured_def
      refuse_unauthenticated_def send_audit_def metrics_new_def inc_defs Let_def)

theorem refusals_audited_witness:
  "\<exists>resp path st'. snd (snd (handle no_external (docker_answers ''a'') (info_request []) closed_state)) = st'
     \<and> refusal_recorded (info_request []) path resp closed_state st'"
proof -
  from closed_sample obtain resp st' where h:
    "handle no_external (docker_answers ''a'') (info_request []) closed_state = (Some resp, [], st')"
    and d: "requests_denied (ps_metrics st') = 1" by blast
  have "audit_ready closed_state" by (simp add: audit_ready_def closed_state_def audit_spawn_def AUDIT_CHANNEL_CAPACITY_def)
  with refusals_audited [OF h] d h show ?thesis
    by (auto simp: closed_state_def fresh_state_def metrics_new_def)
qed

theorem handle_counts_once_witness:
  "tally (snd (snd (handle no_external (docker_answers ''a'') (info_request []) (open_state []))))
     \<in> {(1, 0, 0), (1, 1, 0), (1, 0, 1)}"
  using handle_counts_once [of "open_state []" 0 0 0 no_external "docker_answers ''a''" "info_request []"]
  by (simp add: tally_def open_state_def fresh_state_def metrics_new_def)

theorem handle_returns_witness:
  "\<exists>resp. fst (handle no_external (docker_answers ''a'') (info_request []) (open_state [redact_rule])) = Some resp"
  by (rule handle_returns [where latest = 0])
     (simp_all add: open_state_def current_config_def penalty_fits_def redact_rule_def path_rule_def rule_default_def
        docker_answers_def AUTH_FAIL_LOCKOUT_def from_secs_def NANOS_PER_SEC_def instant_max_def)

end
