(* ===== verification/Tunnel.thy ===== *)
theory Tunnel
  imports Proxy_Safety Proxy_State "HOL-Library.Stream"
begin

text \<open>
  The task that \<^verbatim>\<open>handle_upgrade\<close> spawns after Docker has switched protocols
  (\<^verbatim>\<open>src/main.rs\<close>): both ends are resolved to byte streams, then two loops copy in the two
  directions until an end closes, fails or stays idle. A loop may run for ever: the turns it
  takes are a stream, and its value is \<^const>\<open>None\<close> if it never ends. The properties show when a tunnel
  ends and that it is transparent.
\<close>

text \<open>
  One turn of a copy loop: the outcome of the read, which has a timeout, and of the \<^verbatim>\<open>write_all\<close> that
  follows it, which has none. It is done, fails after some bytes, or never completes. A direction of
  the tunnel is the turns it would take and whether the other end completes the \<^verbatim>\<open>shutdown\<close> after the
  loop, which has no timeout either; its error is ignored.
\<close>

datatype write_outcome = Written | WriteFailed nat | WriteBlocks

type_synonym turn = "(string, bytes) timed \<times> write_outcome"

type_synonym direction = "turn stream \<times> bool"

text \<open>The bytes that a loop delivers to the other end; \<^const>\<open>None\<close> if it never ends.\<close>

partial_function (option) copy_loop :: "turn stream \<Rightarrow> bytes option" where
  "copy_loop ts =
     (case shd ts of
        (Done chunk, wr) \<Rightarrow>
          if chunk = [] then Some []
          else (case wr of
                  Written \<Rightarrow> Option.bind (copy_loop (stl ts)) (\<lambda>rest. Some (chunk @ rest))
                | WriteFailed k \<Rightarrow> Some (take k chunk)
                | WriteBlocks \<Rightarrow> None)
      | (Failed _, _) \<Rightarrow> Some []
      | (Elapsed, _) \<Rightarrow> Some [])"

text \<open>One of the two futures: the loop and the shutdown.\<close>

definition copy_direction :: "direction \<Rightarrow> bytes option" where
  "copy_direction dir =
     (let (turns, shutdown_completes) = dir
      in Option.bind (copy_loop turns) (\<lambda>delivered. if shutdown_completes then Some delivered else None))"

datatype tunnel_end = Aborted | Relayed bytes bytes

definition resolve_failed :: "(string, unit) timed \<Rightarrow> proxy_state \<Rightarrow> proxy_state" where
  "resolve_failed r st =
     (case r of
        Failed _ \<Rightarrow> upd_metrics inc_upstream_errors_total st
      | Elapsed \<Rightarrow> upd_metrics inc_upstream_timeouts_total st
      | Done _ \<Rightarrow> st)"

text \<open>\<^verbatim>\<open>tokio::join!\<close> returns when both futures have returned.\<close>

definition run_tunnel ::
    "(string, unit) timed \<Rightarrow> (string, unit) timed \<Rightarrow> direction \<Rightarrow> direction \<Rightarrow> proxy_state \<Rightarrow>
       (tunnel_end \<times> proxy_state) option" where
  "run_tunnel client_upgrade docker_upgrade from_client from_docker st =
     (case client_upgrade of
        Done _ \<Rightarrow>
          (case docker_upgrade of
             Done _ \<Rightarrow>
               (case (copy_direction from_client, copy_direction from_docker) of
                  (Some to_docker, Some to_client) \<Rightarrow> Some (Relayed to_docker to_client, st)
                | _ \<Rightarrow> None)
           | _ \<Rightarrow> Some (Aborted, resolve_failed docker_upgrade st))
      | _ \<Rightarrow> Some (Aborted, resolve_failed client_upgrade st))"

section \<open>Turns\<close>

text \<open>
  A turn after which the loop goes on, a turn in which it is stuck, a turn that ends it, the bytes that a
  turn has read, and what a last turn delivers.
\<close>

fun good_turn :: "turn \<Rightarrow> bool" where
  "good_turn (Done chunk, Written) = (chunk \<noteq> [])"
| "good_turn _ = False"

fun stuck_turn :: "turn \<Rightarrow> bool" where
  "stuck_turn (Done chunk, WriteBlocks) = (chunk \<noteq> [])"
| "stuck_turn _ = False"

fun last_turn :: "turn \<Rightarrow> bool" where
  "last_turn (Done chunk, WriteFailed _) = True"
| "last_turn (Done chunk, _) = (chunk = [])"
| "last_turn (Failed _, _) = True"
| "last_turn (Elapsed, _) = True"

fun turn_bytes :: "turn \<Rightarrow> bytes" where
  "turn_bytes (Done chunk, _) = chunk"
| "turn_bytes _ = []"

fun last_bytes :: "turn \<Rightarrow> bytes" where
  "last_bytes (Done chunk, WriteFailed k) = take k chunk"
| "last_bytes _ = []"

definition offered :: "turn list \<Rightarrow> bytes" where
  "offered turns = concat (map turn_bytes turns)"

lemma turn_cases: "last_turn t \<longleftrightarrow> \<not> good_turn t \<and> \<not> stuck_turn t"
  by (cases t rule: last_turn.cases) auto

lemma copy_loop_step:
  "copy_loop ts = (if good_turn (shd ts) then map_option ((@) (turn_bytes (shd ts))) (copy_loop (stl ts))
                   else if stuck_turn (shd ts) then None else Some (last_bytes (shd ts)))"
  by (subst copy_loop.simps)
     (cases "copy_loop (stl ts)"; simp split: prod.split timed.split write_outcome.split)

lemma copy_loop_ends:
  assumes "\<And>i. i < n \<Longrightarrow> good_turn (ts !! i)" and "last_turn (ts !! n)"
  shows "copy_loop ts = Some (offered (stake n ts) @ last_bytes (ts !! n))"
  using assms
proof (induction n arbitrary: ts)
  case 0
  then show ?case by (subst copy_loop_step) (simp add: offered_def turn_cases)
next
  case (Suc n)
  from Suc.prems(1) [of 0] have "good_turn (shd ts)" by simp
  moreover have "copy_loop (stl ts) = Some (offered (stake n (stl ts)) @ last_bytes (stl ts !! n))"
  proof (rule Suc.IH)
    show "good_turn (stl ts !! i)" if "i < n" for i using Suc.prems(1) [of "Suc i"] that by simp
    show "last_turn (stl ts !! n)" using Suc.prems(2) by simp
  qed
  ultimately show ?case by (subst copy_loop_step) (simp add: offered_def)
qed

text \<open>The first turn that does not go on, if it ends the loop.\<close>

definition ends_at :: "nat \<Rightarrow> turn stream \<Rightarrow> bool" where
  "ends_at n ts \<longleftrightarrow> (\<forall>i < n. good_turn (ts !! i)) \<and> last_turn (ts !! n)"

text \<open>The converse, by induction on the computation: a loop that returns has met its last turn.\<close>

lemma copy_loop_returns:
  assumes "copy_loop ts = Some b"
  shows "\<exists>n. ends_at n ts"
proof (rule copy_loop.raw_induct [OF _ assms, of "\<lambda>ts b. \<exists>n. ends_at n ts"], goal_cases)
  case (1 loop ts b)
  show ?case
  proof (cases "good_turn (shd ts)")
    case True
    then obtain chunk where "shd ts = (Done chunk, Written)" "chunk \<noteq> []" by (cases "shd ts" rule: good_turn.cases) auto
    with 1(2) obtain rest where "loop (stl ts) = Some rest" by (auto split: Option.bind_splits)
    then obtain n where "ends_at n (stl ts)" using 1(1) by blast
    then have "ends_at (Suc n) ts" using True by (auto simp: ends_at_def less_Suc_eq_0_disj)
    then show ?thesis ..
  next
    case False
    then have "ends_at 0 ts" using 1(2) by (cases "shd ts" rule: last_turn.cases) (auto simp: ends_at_def split: if_splits)
    then show ?thesis ..
  qed
qed

lemma copy_loop_total: "copy_loop ts \<noteq> None \<longleftrightarrow> (\<exists>n. ends_at n ts)"
proof
  assume "\<exists>n. ends_at n ts"
  then obtain n where "ends_at n ts" ..
  then have "copy_loop ts = Some (offered (stake n ts) @ last_bytes (ts !! n))"
    by (intro copy_loop_ends) (auto simp: ends_at_def)
  then show "copy_loop ts \<noteq> None" by simp
next
  assume "copy_loop ts \<noteq> None"
  then show "\<exists>n. ends_at n ts" using copy_loop_returns by blast
qed

lemma copy_direction_total: "copy_direction dir \<noteq> None \<longleftrightarrow> snd dir \<and> (\<exists>n. ends_at n (fst dir))"
  using copy_loop_total [of "fst dir"] by (auto simp: copy_direction_def case_prod_beta split: Option.bind_splits)

text \<open>
  (C35) When a tunnel ends: the task returns exactly if an end cannot be resolved, or if each of the two
  directions, after turns that deliver all they read, has one that reads the end of the stream, fails, stays
  idle for the timeout, or fails to write, and the shutdown that follows completes. Closing one
  direction alone does not end it, and neither does an end that no longer takes what is written to it.
\<close>

theorem tunnel_ends:
  "run_tunnel c d us vs st \<noteq> None \<longleftrightarrow>
     c \<noteq> Done () \<or> d \<noteq> Done ()
     \<or> (\<exists>m. ends_at m (fst us)) \<and> snd us \<and> (\<exists>n. ends_at n (fst vs)) \<and> snd vs"
  using copy_direction_total [of us] copy_direction_total [of vs]
  by (auto simp: run_tunnel_def split: timed.split option.split)

text \<open>An end that stops reading keeps the tunnel open for ever: no timeout covers the writes.\<close>

lemma stuck_tunnel:
  assumes "\<And>i. i < n \<Longrightarrow> good_turn (fst us !! i)" and "stuck_turn (fst us !! n)"
  shows "run_tunnel (Done ()) (Done ()) us vs st = None"
proof -
  have "\<not> ends_at m (fst us)" for m
  proof (cases m n rule: linorder_cases)
    case greater
    then show ?thesis using assms(2) by (auto simp: ends_at_def elim!: stuck_turn.elims dest!: spec [of _ n])
  qed (use assms in \<open>auto simp: ends_at_def turn_cases\<close>)
  with copy_direction_total [of us] show ?thesis by (auto simp: run_tunnel_def split: option.split)
qed

lemma last_bytes_prefix: "prefix (last_bytes t) (turn_bytes t)"
  by (cases t rule: last_bytes.cases) (simp_all add: take_is_prefix)

lemma copy_loop_between:
  assumes "copy_loop ts = Some b"
  obtains n where "prefix (offered (stake n ts)) b" and "prefix b (offered (stake (Suc n) ts))" and "ends_at n ts"
proof -
  obtain n where n: "ends_at n ts" using copy_loop_returns [OF assms] ..
  then have "b = offered (stake n ts) @ last_bytes (ts !! n)"
    using copy_loop_ends [of n ts] assms by (auto simp: ends_at_def)
  moreover have "offered (stake (Suc n) ts) = offered (stake n ts) @ turn_bytes (ts !! n)"
    by (simp add: offered_def stake_Suc del: stake.simps)
  ultimately show ?thesis
    by (intro that [OF _ _ n]) (simp_all add: last_bytes_prefix del: stake.simps)
qed

text \<open>
  (C39) A tunnel is transparent in both directions: each end receives, unchanged and in order, everything
  that was read and written before the first turn that ended the loop, and of what that turn read at
  most a prefix. The shared state is left alone.
\<close>

theorem tunnel_transparent:
  assumes "run_tunnel c d us vs st = Some (Relayed to_docker to_client, st')"
  shows "\<exists>m n. prefix (offered (stake m (fst us))) to_docker \<and> prefix to_docker (offered (stake (Suc m) (fst us)))
       \<and> prefix (offered (stake n (fst vs))) to_client \<and> prefix to_client (offered (stake (Suc n) (fst vs)))
       \<and> ends_at m (fst us) \<and> ends_at n (fst vs) \<and> st' = st"
proof -
  from assms have "copy_loop (fst us) = Some to_docker" "copy_loop (fst vs) = Some to_client" "st' = st"
    by (auto simp: run_tunnel_def copy_direction_def case_prod_beta split: timed.splits option.splits Option.bind_splits if_splits)
  then show ?thesis by (elim copy_loop_between) blast
qed

definition shell_session :: direction where
  "shell_session = ((Done ''ls'', Written) ## sconst (Done [], Written), True)"

definition silent :: direction where
  "silent = (sconst (Elapsed, Written), True)"

lemma session_ends: "ends_at 1 (fst shell_session)" "ends_at 0 (fst silent)"
  by (simp_all add: ends_at_def shell_session_def silent_def)

lemma session_delivers: "copy_direction shell_session = Some ''ls''" "copy_direction silent = Some []"
  using copy_loop_ends [of 1 "fst shell_session"] copy_loop_ends [of 0 "fst silent"] session_ends
  by (simp_all add: ends_at_def copy_direction_def shell_session_def silent_def offered_def)

theorem tunnel_transparent_witness:
  "\<exists>m n. prefix (offered (stake m (fst shell_session))) ''ls'' \<and> prefix ''ls'' (offered (stake (Suc m) (fst shell_session)))
     \<and> prefix (offered (stake n (fst silent))) [] \<and> prefix [] (offered (stake (Suc n) (fst silent)))
     \<and> ends_at m (fst shell_session) \<and> ends_at n (fst silent) \<and> fresh_state = fresh_state"
  by (rule tunnel_transparent [of "Done ()" "Done ()" _ _ fresh_state]) (simp add: run_tunnel_def session_delivers)

theorem tunnel_ends_witness: "run_tunnel (Done ()) (Done ()) shell_session silent fresh_state \<noteq> None"
  unfolding tunnel_ends using session_ends by (auto simp: shell_session_def silent_def)

end
