(* ===== verification/Startup.thy ===== *)
theory Startup
  imports Tunnel
begin

text \<open>
  The start of the process, \<^verbatim>\<open>src/main.rs\<close>: the command line, the Docker socket, the
  configuration, the listener's parameters, the tracing set-up, \<^verbatim>\<open>--check-config\<close> and the initial
  shared state.
\<close>

section \<open>Command line and paths\<close>

datatype cli = Run bool "string option" | Help | Usage string

fun parse_args :: "bool \<Rightarrow> string option \<Rightarrow> string list \<Rightarrow> cli" where
  "parse_args check_config explicit_config [] = Run check_config explicit_config"
| "parse_args check_config explicit_config (a # rest) =
     (if a = ''--check-config'' then parse_args True explicit_config rest
      else if a = ''--config'' then
        (case rest of
           [] \<Rightarrow> Usage ''--config requires a path argument''
         | p # rest' \<Rightarrow> parse_args check_config (Some p) rest')
      else if a = ''--help'' \<or> a = ''-h'' then Help
      else Usage (''unknown argument: '' @ a))"

definition first_existing :: "world \<Rightarrow> string list \<Rightarrow> string option" where
  "first_existing w candidates = find (path_exists w) candidates"

text \<open>The variant for platforms other than macOS.\<close>

definition resolve_socket_path :: "world \<Rightarrow> string option \<Rightarrow> string option" where
  "resolve_socket_path w config_socket =
     (let fallback =
        (let candidates = [''/var/run/docker.sock'', ''/run/docker.sock'']
         in case env_var w ''DOCKER_SOCKET'' of
              Some path \<Rightarrow> if path_exists w path then Some path else first_existing w candidates
            | None \<Rightarrow> first_existing w candidates)
      in case config_socket of
           Some sock \<Rightarrow> if path_exists w sock then Some sock else fallback
         | None \<Rightarrow> fallback)"

definition load_config_from_default_path ::
    "external \<Rightarrow> world \<Rightarrow> (string \<Rightarrow> string + proxy_config) \<Rightarrow> string + (proxy_config \<times> string option)" where
  "load_config_from_default_path x w from_str =
     (case default_config_path w of
        Some p \<Rightarrow> try_bind (load_from_path x w from_str p) (\<lambda>cfg. Inr (cfg, Some p))
      | None \<Rightarrow> try_bind (load x w from_str) (\<lambda>cfg. Inr (cfg, None)))"

definition global_opt :: "proxy_config \<Rightarrow> (global_config \<Rightarrow> 'a option) \<Rightarrow> 'a option" where
  "global_opt config f = Option.bind (cfg_global config) f"

definition listen_port :: "world \<Rightarrow> proxy_config \<Rightarrow> u16" where
  "listen_port w config =
     unwrap_or (or_else (global_opt config g_port) (Option.bind (env_var w ''DOCKER_PROXY_PORT'') parse_u16)) 2376"

definition bind_host :: "proxy_config \<Rightarrow> string" where
  "bind_host config = unwrap_or (global_opt config g_bind) ''127.0.0.1''"

definition create_listener ::
    "tls_lib \<Rightarrow> world \<Rightarrow> (string \<Rightarrow> string + unit) \<Rightarrow> proxy_config \<Rightarrow> string + (string \<times> server_config option)" where
  "create_listener l w bind config =
     try_bind (try_option (build_server_config l) (global_opt config g_tls)) (\<lambda>tls_acceptor.
     (let addr_str = bind_host config @ '':'' @ show_nat (unat (listen_port w config))
      in try_bind (bind addr_str) (\<lambda>_. Inr (addr_str, tls_acceptor))))"

definition metrics_path_of :: "proxy_config \<Rightarrow> string option" where
  "metrics_path_of config =
     (case global_opt config g_metrics of
        None \<Rightarrow> None
      | Some m \<Rightarrow> if unwrap_or (mc_enabled m) False then Some (unwrap_or (mc_path m) ''/metrics'') else None)"

definition audit_of :: "(string \<Rightarrow> bytes) \<Rightarrow> proxy_config \<Rightarrow> audit_sink" where
  "audit_of content config =
     (case global_opt config g_audit_log of
        Some p \<Rightarrow> if p \<noteq> [] then audit_spawn (content p) else audit_disabled
      | None \<Rightarrow> audit_disabled)"

section \<open>Effective rules\<close>

definition rule_text :: "nat \<Rightarrow> rule \<Rightarrow> string" where
  "rule_text i r =
     ''  '' @ show_nat (i + 1) @ ''. '' @ r_name r @ '' [priority='' @ show_nat (rule_priority r) @
     '', action='' @ r_action r @ (if unwrap_or (r_dry_run r) False then '', dry_run'' else []) @ '']'' @ nl"

definition global_text :: "global_config \<Rightarrow> string" where
  "global_text g =
     ''port: '' @ show_nat (unat (unwrap_or (g_port g) 2376)) @ nl @
     (case g_socket g of None \<Rightarrow> [] | Some s \<Rightarrow> ''socket: '' @ s @ nl) @
     (case g_log_format g of None \<Rightarrow> [] | Some f \<Rightarrow> ''log_format: '' @ f @ nl) @
     (case g_tls g of
        None \<Rightarrow> []
      | Some t \<Rightarrow> ''tls: cert='' @ tls_cert t @ '', key='' @ tls_key t @ '', client_ca='' @
                  unwrap_or (tls_client_ca t) ''(none)'' @ nl) @
     (case g_metrics g of
        None \<Rightarrow> []
      | Some m \<Rightarrow> ''metrics: enabled='' @ show_bool (unwrap_or (mc_enabled m) False) @ '', path='' @
                  unwrap_or (mc_path m) ''/metrics'' @ nl)"

definition auth_text :: "auth_config \<Rightarrow> string" where
  "auth_text a =
     ''auth.type: '' @ unwrap_or (a_type a) ''(unset)'' @ nl @
     (case a_tokens a of None \<Rightarrow> [] | Some ts \<Rightarrow> ''auth.tokens: '' @ show_nat (length ts) @ '' configured'' @ nl)"

definition render_effective_rules :: "proxy_config \<Rightarrow> string" where
  "render_effective_rules config =
     ''# Effective configuration'' @ nl @ nl @
     (case cfg_global config of None \<Rightarrow> [] | Some g \<Rightarrow> global_text g) @
     (case cfg_auth config of None \<Rightarrow> [] | Some a \<Rightarrow> auth_text a) @
     nl @ ''rules (after priority sort):'' @ nl @
     (case cfg_rules config of
        Some rules \<Rightarrow> concat (map2 rule_text [0..<length rules] rules)
      | None \<Rightarrow> ''  (no rules configured)'' @ nl)"

section \<open>Tracing\<close>

text \<open>
  Parsing a filter directive is \<^verbatim>\<open>tracing_subscriber\<close>'s; a directive that does not parse stops the
  start-up. The level goes into the directive as the configuration has it.
\<close>

datatype log_output = JsonLog | TextLog

definition init_tracing ::
    "(string \<Rightarrow> string + unit) \<Rightarrow> string \<Rightarrow> string option \<Rightarrow> string + log_output" where
  "init_tracing parse_directive log_format log_level =
     try_bind (parse_directive ''docker_proxy=info'') (\<lambda>_.
     try_bind (try_option (\<lambda>level. parse_directive (''docker_proxy='' @ level)) log_level) (\<lambda>_.
     Inr (if eq_ignore_ascii_case log_format ''json'' then JsonLog else TextLog)))"

section \<open>Main\<close>

datatype start =
    Exit nat
  | PrintHelp
  | PrintConfig string
  | Serve proxy_state "string option"

definition initial_state :: "world \<Rightarrow> (string \<Rightarrow> bytes) \<Rightarrow> string \<Rightarrow> proxy_config \<Rightarrow> proxy_state" where
  "initial_state w content socket_path config =
     \<lparr>ps_socket_path = socket_path,
      ps_env_secret = unwrap_or (env_var w ''DOCKER_PROXY_SECRET'') [],
      ps_config_holder = config,
      ps_rate_limiter = rate_limiter_new,
      ps_auth_limiter = auth_limiter_new,
      ps_metrics = metrics_new,
      ps_audit = audit_of content config,
      ps_metrics_path = metrics_path_of config\<rparr>"

text \<open>\<open>--config\<close> sets the environment variable for the rest of the process.\<close>

definition with_config_path :: "string option \<Rightarrow> world \<Rightarrow> world" where
  "with_config_path p w =
     (case p of None \<Rightarrow> w | Some path \<Rightarrow> w\<lparr>env_var := (env_var w)(''DOCKER_PROXY_CONFIG'' := Some path)\<rparr>)"

definition main_start ::
    "external \<Rightarrow> world \<Rightarrow> (string \<Rightarrow> string + proxy_config) \<Rightarrow> (string \<Rightarrow> string + unit) \<Rightarrow>
       (string \<Rightarrow> bytes) \<Rightarrow> string list \<Rightarrow> start" where
  "main_start x w0 from_str parse_directive content args =
     (case parse_args False None args of
        Usage _ \<Rightarrow> Exit 2
      | Help \<Rightarrow> PrintHelp
      | Run check_config explicit_config \<Rightarrow>
          (let w = with_config_path explicit_config w0
           in case load_config_from_default_path x w from_str of
                Inl _ \<Rightarrow> Exit 2
              | Inr (config, loaded_from) \<Rightarrow>
                  if check_config then PrintConfig (render_effective_rules config)
                  else case init_tracing parse_directive (unwrap_or (global_opt config g_log_format) ''text'')
                              (global_opt config g_log_level) of
                    Inl _ \<Rightarrow> Exit 1
                  | Inr _ \<Rightarrow>
                      (case resolve_socket_path w (global_opt config g_socket) of
                         None \<Rightarrow> Exit 1
                       | Some socket_path \<Rightarrow> Serve (initial_state w content socket_path config) loaded_from)))"

section \<open>Start-up decisions\<close>

text \<open>
  The socket is the first existing one of: the configured path, \<^verbatim>\<open>DOCKER_SOCKET\<close>,
  \<^verbatim>\<open>/var/run/docker.sock\<close>, \<^verbatim>\<open>/run/docker.sock\<close>; there is none only if none of them exists.
\<close>

theorem resolve_socket_path_first:
  "resolve_socket_path w config_socket =
     find (path_exists w)
       ((case config_socket of None \<Rightarrow> [] | Some s \<Rightarrow> [s])
        @ (case env_var w ''DOCKER_SOCKET'' of None \<Rightarrow> [] | Some s \<Rightarrow> [s])
        @ [''/var/run/docker.sock'', ''/run/docker.sock''])"
  by (simp add: resolve_socket_path_def first_existing_def Let_def split: option.split)

text \<open>The configuration with every secret and token text replaced.\<close>

definition scrub :: "(string \<Rightarrow> string) \<Rightarrow> proxy_config \<Rightarrow> proxy_config" where
  "scrub f config =
     config\<lparr>cfg_auth := map_option (\<lambda>a. a\<lparr>
        a_secret := map_option (\<lambda>s. SecretToken (f (expose_secret s))) (a_secret a),
        a_tokens := map_option (map (\<lambda>t. t\<lparr>te_token := SecretToken (f (expose_secret (te_token t)))\<rparr>)) (a_tokens a)\<rparr>)
      (cfg_auth config)\<rparr>"

text \<open>
  \<^verbatim>\<open>--check-config\<close> reveals no credentials: what it prints does not depend on the text of any
  secret or token.
\<close>

theorem check_config_hides_secrets: "render_effective_rules (scrub f config) = render_effective_rules config"
  by (simp add: render_effective_rules_def scrub_def auth_text_def split: option.split)

lemma load_default_ok:
  "load_config_from_default_path x w from_str = Inr (cfg, p) \<Longrightarrow> config_ok x cfg"
  using load_from_path_finish load_finish finish_config_ok
  by (fastforce simp: load_config_from_default_path_def try_bind_Inr split: option.splits)

text \<open>
  Start-up serves only a valid configuration, under a socket that exists, with empty tables.
\<close>

lemma main_start_Serve:
  assumes "main_start x w from_str pd content args = Serve st loaded_from"
  obtains w' socket_path config where "st = initial_state w' content socket_path config" "config_ok x config"
    "load_config_from_default_path x w' from_str = Inr (config, loaded_from)" "path_exists w' socket_path"
proof -
  from assms obtain chk ex where p: "parse_args False None args = Run chk ex" by (auto simp: main_start_def split: cli.splits)
  let ?w = "with_config_path ex w"
  from assms p obtain config where l: "load_config_from_default_path x ?w from_str = Inr (config, loaded_from)"
    by (auto simp: main_start_def Let_def split: sum.splits prod.splits if_splits option.splits)
  with assms p obtain sp where sp: "resolve_socket_path ?w (global_opt config g_socket) = Some sp"
    and st: "st = initial_state ?w content sp config"
    by (auto simp: main_start_def Let_def split: sum.splits if_splits option.splits)
  have "path_exists ?w sp"
    using sp by (auto simp: resolve_socket_path_def first_existing_def find_Some_iff Let_def split: option.splits if_splits)
  with that [OF st load_default_ok [OF l] l] show ?thesis by blast
qed

lemma listener_without_ca:
  assumes "create_listener l w bind config = Inr (addr, Some sc)"
    and "\<And>tls. global_opt config g_tls = Some tls \<Longrightarrow> tls_client_ca tls = None"
  shows "sc_client_auth sc = NoClientAuth"
proof (cases "global_opt config g_tls")
  case None
  with assms(1) show ?thesis by (simp add: create_listener_def try_bind_Inr Let_def)
next
  case (Some tls)
  with assms(1) have "build_server_config l tls = Inr sc"
    by (auto simp: create_listener_def try_bind_Inr Let_def split: sum.splits)
  moreover have "client_auth_mode l tls = Inr NoClientAuth" using assms(2) [OF Some] by (simp add: client_auth_mode_def)
  ultimately show ?thesis by (auto simp: build_server_config_def try_bind_Inr)
qed

end
