(* ===== verification/Server.thy ===== *)
theory Server
  imports Startup Transition_System
begin

text \<open>
  The running process, \<^verbatim>\<open>src/main.rs\<close>: the listener and its connection limit, the accept loop, the
  serving of plain and TLS connections, the sweeper, the audit task and the reload on \<^verbatim>\<open>SIGHUP\<close>, as
  a step relation. A request is one step here; the theory \<open>Interleaving\<close> takes it apart.
\<close>

definition MAX_CONCURRENT_CONNS :: nat where
  "MAX_CONCURRENT_CONNS = 1024"

section \<open>Serving a connection\<close>

text \<open>
  The identity of the peer: the first certificate of the TLS session, if there is one and it
  parses. \<open>certs\<close> is what \<^verbatim>\<open>peer_certificates\<close> returns after the handshake.
\<close>

definition peer_identity :: "tls_lib \<Rightarrow> bytes list option \<Rightarrow> cert_identity option" where
  "peer_identity l certs =
     Option.bind (Option.bind certs (\<lambda>cs. case cs of [] \<Rightarrow> None | leaf # _ \<Rightarrow> Some leaf)) (extract_identity l)"

definition serve_plain :: "external \<Rightarrow> effects \<Rightarrow> request \<Rightarrow> proxy_state \<Rightarrow> handled" where
  "serve_plain x fx rq st = handle x fx (rq\<lparr>rq_cert := None\<rparr>) st"

text \<open>A handshake that fails or takes too long ends the connection before any request.\<close>

definition serve_tls ::
    "external \<Rightarrow> tls_lib \<Rightarrow> (string, bytes list option) timed \<Rightarrow> effects \<Rightarrow> request \<Rightarrow> proxy_state \<Rightarrow> handled option" where
  "serve_tls x l handshake fx rq st =
     (case handshake of
        Done certs \<Rightarrow> Some (handle x fx (rq\<lparr>rq_cert := peer_identity l certs\<rparr>) st)
      | Failed _ \<Rightarrow> None
      | Elapsed \<Rightarrow> None)"

definition serve_conn ::
    "external \<Rightarrow> tls_lib \<Rightarrow> server_config option \<Rightarrow> (string, bytes list option) timed \<Rightarrow>
       effects \<Rightarrow> request \<Rightarrow> proxy_state \<Rightarrow> handled option" where
  "serve_conn x l tls_acceptor handshake fx rq st =
     (case tls_acceptor of
        Some _ \<Rightarrow> serve_tls x l handshake fx rq st
      | None \<Rightarrow> Some (serve_plain x fx rq st))"

section \<open>The running server\<close>

text \<open>
  Each listener has its own semaphore. A connection holds a permit of the listener it came in
  through while it is served: \<open>sv_live\<close> lists, for every permit taken, the number of the listener and the
  listener's TLS acceptor. The future that serves a connection completes when an upgrade has been
  handed over, and the permit is returned then; \<open>sv_tunnels\<close> counts the relay tasks that run, each of which
  keeps the connection of an upgraded client open without a permit. Listeners are numbered from 1; \<open>sv_gen\<close> is the
  number of the last one. \<open>sv_pending\<close> is the stored \<^verbatim>\<open>notify_one\<close>.
\<close>

record server =
  sv_proxy :: proxy_state
  sv_gen :: nat
  sv_acceptor :: "server_config option"
  sv_listening :: bool
  sv_pending :: bool
  sv_live :: "(nat \<times> server_config option) list"
  sv_tunnels :: nat
  sv_path :: "string option"

definition permits_used :: "server \<Rightarrow> nat" where
  "permits_used s = count_list (map fst (sv_live s)) (sv_gen s)"

definition accept_conn :: "server \<Rightarrow> server" where
  "accept_conn s =
     (if permits_used s < MAX_CONCURRENT_CONNS
      then s\<lparr>sv_live := (sv_gen s, sv_acceptor s) # sv_live s\<rparr> else s)"

text \<open>What a request leaves: the shared state, and a relay task if it became a tunnel.\<close>

definition served :: "action list \<Rightarrow> proxy_state \<Rightarrow> server \<Rightarrow> server" where
  "served acts st s = s\<lparr>sv_proxy := st, sv_tunnels := sv_tunnels s + count_list acts SpawnTunnel\<rparr>"

definition tunnel_ended :: "proxy_state \<Rightarrow> server \<Rightarrow> server" where
  "tunnel_ended st s = s\<lparr>sv_proxy := st, sv_tunnels := sv_tunnels s - 1\<rparr>"

text \<open>The future that serves a connection completes, or fails, and drops its permit.\<close>

definition release :: "nat \<times> server_config option \<Rightarrow> server \<Rightarrow> server" where
  "release conn s = s\<lparr>sv_live := remove1 conn (sv_live s)\<rparr>"

definition sweep :: "instant \<Rightarrow> instant \<Rightarrow> server \<Rightarrow> server" where
  "sweep t1 t2 s =
     s\<lparr>sv_proxy := (sv_proxy s)\<lparr>ps_rate_limiter := rl_cleanup t1 (ps_rate_limiter (sv_proxy s)),
                               ps_auth_limiter := al_cleanup t2 (ps_auth_limiter (sv_proxy s))\<rparr>\<rparr>"

definition sighup :: "external \<Rightarrow> world \<Rightarrow> (string \<Rightarrow> string + proxy_config) \<Rightarrow> server \<Rightarrow> server" where
  "sighup x w from_str s =
     (case sv_path s of
        None \<Rightarrow> s
      | Some path \<Rightarrow>
          (case load_from_path x w from_str path of
             Inr cfg \<Rightarrow> s\<lparr>sv_proxy := swap_config cfg (sv_proxy s), sv_pending := True\<rparr>
           | Inl _ \<Rightarrow> s))"

definition close_listener :: "server \<Rightarrow> server" where
  "close_listener s = s\<lparr>sv_listening := False, sv_pending := False\<rparr>"

text \<open>
  The head of the outer loop: a new listener, or an error, which ends the process if there has
  been no listener yet (\<^const>\<open>None\<close>) and is retried otherwise.
\<close>

definition rebind :: "tls_lib \<Rightarrow> world \<Rightarrow> (string \<Rightarrow> string + unit) \<Rightarrow> server \<Rightarrow> server option" where
  "rebind l w bind s =
     (case create_listener l w bind (current_config (sv_proxy s)) of
        Inr (_, tls_acceptor) \<Rightarrow> Some (s\<lparr>sv_listening := True, sv_gen := Suc (sv_gen s), sv_acceptor := tls_acceptor\<rparr>)
      | Inl _ \<Rightarrow> if sv_gen s = 0 then None else Some s)"

text \<open>The audit task writes one event, or has found the file impossible to open and ends.\<close>

definition audit_task :: "(audit_event \<Rightarrow> string option) \<Rightarrow> nat option \<Rightarrow> proxy_state \<Rightarrow> proxy_state" where
  "audit_task to_json io st = st\<lparr>ps_audit := audit_recv to_json io (ps_audit st)\<rparr>"

definition audit_task_ends :: "proxy_state \<Rightarrow> proxy_state" where
  "audit_task_ends st = st\<lparr>ps_audit := audit_open_failed (ps_audit st)\<rparr>"

inductive server_step :: "external \<Rightarrow> (string \<Rightarrow> string + proxy_config) \<Rightarrow> server \<Rightarrow> server \<Rightarrow> bool" for x from_str where
  step_accept: "sv_listening s \<Longrightarrow> server_step x from_str s (accept_conn s)"
| step_request: "(g, acc) \<in> set (sv_live s) \<Longrightarrow> serve_conn x l acc handshake fx rq (sv_proxy s) = Some (resp, acts, st) \<Longrightarrow>
    server_step x from_str s (served acts st s)"
| step_tunnel: "0 < sv_tunnels s \<Longrightarrow> run_tunnel c d us vs (sv_proxy s) = Some (e, st) \<Longrightarrow> server_step x from_str s (tunnel_ended st s)"
| step_audit: "server_step x from_str s (s\<lparr>sv_proxy := audit_task to_json io (sv_proxy s)\<rparr>)"
| step_audit_ends: "server_step x from_str s (s\<lparr>sv_proxy := audit_task_ends (sv_proxy s)\<rparr>)"
| step_close: "server_step x from_str s (release conn s)"
| step_sweep: "server_step x from_str s (sweep t1 t2 s)"
| step_sighup: "server_step x from_str s (sighup x w from_str s)"
| step_restart: "sv_listening s \<Longrightarrow> sv_pending s \<Longrightarrow> server_step x from_str s (close_listener s)"
| step_rebind: "\<not> sv_listening s \<Longrightarrow> rebind l w bind s = Some s' \<Longrightarrow> server_step x from_str s s'"

inductive_cases server_stepE: "server_step x from_str s s'"

definition serving :: "proxy_state \<Rightarrow> string option \<Rightarrow> server" where
  "serving st loaded_from =
     \<lparr>sv_proxy = st, sv_gen = 0, sv_acceptor = None, sv_listening = False, sv_pending = False, sv_live = [],
      sv_tunnels = 0, sv_path = loaded_from\<rparr>"

text \<open>The states a process can reach from a start with some arguments and environment.\<close>

definition server_start :: "external \<Rightarrow> (string \<Rightarrow> string + proxy_config) \<Rightarrow> server \<Rightarrow> bool" where
  "server_start x from_str s =
     (\<exists>w parse_directive content args st loaded_from.
        main_start x w from_str parse_directive content args = Serve st loaded_from \<and> s = serving st loaded_from)"

definition reachable :: "external \<Rightarrow> (string \<Rightarrow> string + proxy_config) \<Rightarrow> server \<Rightarrow> bool" where
  "reachable x from_str s = (\<exists>s0. server_start x from_str s0 \<and> (server_step x from_str)\<^sup>*\<^sup>* s0 s)"

lemma reach_start:
  "main_start x w from_str pd content args = Serve st loaded_from \<Longrightarrow> reachable x from_str (serving st loaded_from)"
  unfolding reachable_def server_start_def by blast

lemma reach_step: "reachable x from_str s \<Longrightarrow> server_step x from_str s s' \<Longrightarrow> reachable x from_str s'"
  by (auto simp: reachable_def intro: rtranclp.rtrancl_into_rtrancl)

section \<open>Invariants of the running server\<close>

definition server_inv :: "external \<Rightarrow> server \<Rightarrow> bool" where
  "server_inv x s =
     (proxy_inv (sv_proxy s) \<and> config_ok x (current_config (sv_proxy s))
      \<and> (\<forall>g. count_list (map fst (sv_live s)) g \<le> MAX_CONCURRENT_CONNS)
      \<and> (\<forall>g \<in> set (map fst (sv_live s)). 0 < g \<and> g \<le> sv_gen s) \<and> (sv_listening s \<longrightarrow> 0 < sv_gen s))"

lemma fixed_config: "fixed_part st' = fixed_part st \<Longrightarrow> current_config st' = current_config st"
  by (simp add: fixed_part_def current_config_def)

lemma tunnel_keeps: "run_tunnel c d us vs st = Some (e, st') \<Longrightarrow> keeps st st'"
  by (auto simp: run_tunnel_def resolve_failed_def keeps_upd_metrics split: timed.splits option.splits)

lemma audit_task_keeps: "keeps st (audit_task to_json io st)" "keeps st (audit_task_ends st)"
  by (auto simp: keeps_defs audit_task_def audit_task_ends_def audit_recv_def audit_open_failed_def AUDIT_CHANNEL_CAPACITY_def
      split: list.splits)

text \<open>A connection is served by the handler, under the identity of its TLS session.\<close>

lemma serve_conn_handle:
  "serve_conn x l acc handshake fx rq st = Some h \<Longrightarrow>
     \<exists>cert. h = handle x fx (rq\<lparr>rq_cert := cert\<rparr>) st \<and> (acc = None \<longrightarrow> cert = None)
       \<and> (acc \<noteq> None \<longrightarrow> (\<exists>certs. handshake = Done certs \<and> cert = peer_identity l certs))"
  by (auto simp: serve_conn_def serve_plain_def serve_tls_def split: option.splits timed.splits)

lemma serve_conn_keeps:
  assumes "serve_conn x l acc handshake fx rq st = Some (resp, acts, st')"
  shows "keeps st st'"
  using serve_conn_handle [OF assms] handle_keeps by (metis snd_conv)

lemma keeps_server_inv:
  "server_inv x s \<Longrightarrow> keeps (sv_proxy s) st \<Longrightarrow> server_inv x (s\<lparr>sv_proxy := st\<rparr>)"
  by (auto simp: server_inv_def keeps_def dest: fixed_config)

lemma server_inv_tunnels: "server_inv x (s\<lparr>sv_tunnels := n\<rparr>) = server_inv x s"
  by (simp add: server_inv_def)

lemma served_server_inv:
  assumes "server_inv x s" and "keeps (sv_proxy s) st"
  shows "server_inv x (served acts st s)" and "server_inv x (tunnel_ended st s)"
proof -
  have "served acts st s = (s\<lparr>sv_proxy := st\<rparr>)\<lparr>sv_tunnels := sv_tunnels s + count_list acts SpawnTunnel\<rparr>"
    "tunnel_ended st s = (s\<lparr>sv_proxy := st\<rparr>)\<lparr>sv_tunnels := sv_tunnels s - 1\<rparr>"
    by (simp_all add: served_def tunnel_ended_def)
  with keeps_server_inv [OF assms] show "server_inv x (served acts st s)" "server_inv x (tunnel_ended st s)"
    by (simp_all only: server_inv_tunnels)
qed

lemma count_list_remove1: "count_list (map fst (remove1 c xs)) k \<le> count_list (map fst xs) k"
  by (induction xs) auto

lemma server_inv_step:
  assumes "server_step x from_str s s'" and "server_inv x s"
  shows "server_inv x s'"
  using assms
proof (cases rule: server_step.cases)
  case step_accept
  with assms(2) show ?thesis
    by (auto simp: server_inv_def accept_conn_def permits_used_def)
next
  case (step_close conn)
  have "count_list (map fst (remove1 conn (sv_live s))) k \<le> MAX_CONCURRENT_CONNS" for k
    using count_list_remove1 [of conn "sv_live s" k] assms(2) by (auto simp: server_inv_def intro: le_trans)
  with assms(2) step_close show ?thesis
    by (auto simp: server_inv_def release_def dest: set_remove1_subset [THEN subsetD])
next
  case (step_sweep t1 t2)
  with assms(2) show ?thesis
    by (auto simp: server_inv_def sweep_def proxy_inv_def current_config_def intro: inv_intros)
next
  case (step_sighup w)
  with assms(2) show ?thesis
    using load_from_path_finish finish_config_ok
    by (fastforce simp: server_inv_def sighup_def swap_config_def current_config_def proxy_inv_def split: option.splits sum.splits)
next
  case (step_rebind l w bind)
  with assms(2) show ?thesis by (fastforce simp: server_inv_def rebind_def split: sum.splits prod.splits if_splits)
next
  case step_request
  with assms(2) show ?thesis by (auto intro: served_server_inv serve_conn_keeps)
next
  case step_tunnel
  with assms(2) show ?thesis by (auto intro: served_server_inv tunnel_keeps)
next
  case step_audit
  with assms(2) show ?thesis by (simp add: keeps_server_inv audit_task_keeps)
next
  case step_audit_ends
  with assms(2) show ?thesis by (simp add: keeps_server_inv audit_task_keeps)
qed (simp add: server_inv_def close_listener_def)

interpretation running: transition_system "server_start x from_str" "server_step x from_str" "server_inv x"
proof (unfold_locales, goal_cases)
  case (1 s)
  then obtain w pd content args st loaded_from where
    "main_start x w from_str pd content args = Serve st loaded_from" and s: "s = serving st loaded_from"
    by (auto simp: server_start_def)
  from this(1) obtain w' sp cfg where "st = initial_state w' content sp cfg" and "config_ok x cfg"
    by (rule main_start_Serve)
  then show ?case
    using al.inv_init rl.inv_init
    by (simp add: s server_inv_def serving_def initial_state_def proxy_inv_def current_config_def metrics_new_def tbl_defs
        audit_of_def audit_spawn_def audit_disabled_def split: option.split)
qed (rule server_inv_step)

lemma reachable_inv: "reachable x from_str s \<Longrightarrow> server_inv x s"
  by (auto simp: reachable_def intro: running.reached_inv)

text \<open>
  (C14) In every state the server can reach, through any mixture of connections, requests, sweeps,
  reloads and rebinds, the active configuration is a valid one (see \<^const>\<open>config_ok\<close>) and the shared
  state is well formed.
\<close>

theorem active_config_valid:
  assumes "reachable x from_str s"
  shows "config_ok x (current_config (sv_proxy s)) \<and> proxy_inv (sv_proxy s)"
  using reachable_inv [OF assms] by (simp add: server_inv_def)

text \<open>
  (C37) The connection limit holds per listener and for the connections that are served: at most 1024 permits of
  the current listener are taken, and at most 1024 for each listener there has been. Upgraded
  connections have returned theirs and are not counted.
\<close>

theorem connection_limit:
  assumes "reachable x from_str s"
  shows "permits_used s \<le> 1024 \<and> length (sv_live s) \<le> 1024 * sv_gen s"
proof -
  note inv = reachable_inv [OF assms]
  let ?gs = "map fst (sv_live s)"
  have "set ?gs \<subseteq> {1..sv_gen s}" using inv by (fastforce simp: server_inv_def)
  then have "length ?gs = sum (count_list ?gs) {1..sv_gen s}"
    by (intro sum_count_set [symmetric]) auto
  also have "\<dots> \<le> sum (\<lambda>_. 1024) {1..sv_gen s}"
    using inv by (intro sum_mono) (simp add: server_inv_def MAX_CONCURRENT_CONNS_def)
  finally show ?thesis using inv by (simp add: server_inv_def permits_used_def MAX_CONCURRENT_CONNS_def)
qed

text \<open>
  The configuration changes only by a reload that loads: whenever a step changes it, the new
  configuration is what loading the start-up file gave; a reload that fails, and every other
  step, keeps the old one.
\<close>

theorem config_changes_by_reload:
  assumes "server_step x from_str s s'" and "current_config (sv_proxy s') \<noteq> current_config (sv_proxy s)"
  shows "\<exists>w path. sv_path s = Some path \<and> load_from_path x w from_str path = Inr (current_config (sv_proxy s'))"
  using assms
proof (cases rule: server_step.cases)
  case step_request
  with assms(2) show ?thesis by (auto simp: keeps_def served_def dest!: serve_conn_keeps fixed_config)
next
  case step_tunnel
  with assms(2) show ?thesis by (auto simp: keeps_def tunnel_ended_def current_config_def dest!: tunnel_keeps fixed_config)
next
  case (step_sighup w)
  with assms(2) show ?thesis
    by (auto simp: sighup_def swap_config_def current_config_def split: option.splits sum.splits)
qed (auto simp: accept_conn_def release_def sweep_def close_listener_def rebind_def audit_task_def audit_task_ends_def current_config_def split: if_splits sum.splits prod.splits)

section \<open>More connections than the limit\<close>

lemma accept_many:
  assumes "reachable x from_str s" and "sv_listening s" and "permits_used s + n \<le> MAX_CONCURRENT_CONNS"
  shows "reachable x from_str (s\<lparr>sv_live := replicate n (sv_gen s, sv_acceptor s) @ sv_live s\<rparr>)"
  using assms(3)
proof (induction n)
  case 0
  with assms(1) show ?case by simp
next
  case (Suc n)
  let ?s = "s\<lparr>sv_live := replicate n (sv_gen s, sv_acceptor s) @ sv_live s\<rparr>"
  have "permits_used ?s = permits_used s + n" by (induction n) (auto simp: permits_used_def)
  then have "accept_conn ?s = s\<lparr>sv_live := replicate (Suc n) (sv_gen s, sv_acceptor s) @ sv_live s\<rparr>"
    using Suc.prems by (simp add: accept_conn_def)
  moreover have "reachable x from_str ?s" using Suc by simp
  ultimately show ?case using reach_step [OF _ step_accept [of ?s x from_str]] assms(2) by simp
qed

lemma rebind_reaches:
  assumes "reachable x from_str s" and "\<not> sv_listening s" and "create_listener l w bind (current_config (sv_proxy s)) = Inr (addr, acc)"
  shows "reachable x from_str (s\<lparr>sv_listening := True, sv_gen := Suc (sv_gen s), sv_acceptor := acc\<rparr>)"
proof -
  have "rebind l w bind s = Some (s\<lparr>sv_listening := True, sv_gen := Suc (sv_gen s), sv_acceptor := acc\<rparr>)"
    using assms(3) by (simp add: rebind_def)
  from reach_step [OF assms(1) step_rebind [OF assms(2) this]] show ?thesis .
qed

text \<open>A world with a socket and a configuration file, which holds one deny rule.\<close>

definition docker_world :: world where
  "docker_world = \<lparr>env_var = map_of [(''DOCKER_PROXY_CONFIG'', ''c.yaml'')], path_exists = (\<lambda>_. True), read_to_string = (\<lambda>_. Inr [])\<rparr>"

definition sample_config :: proxy_config where
  "sample_config = proxy_config_default\<lparr>cfg_rules := Some [path_rule ''no-secrets'' ''deny'' ''starts_with'' ''/secrets'']\<rparr>"

definition sample_yaml :: "string \<Rightarrow> string + proxy_config" where
  "sample_yaml s = Inr sample_config"

definition booted :: server where
  "booted = serving (initial_state docker_world (\<lambda>_. []) ''/var/run/docker.sock'' sample_config) (Some ''c.yaml'')"

lemma sample_yaml_loads: "load_from_path no_external docker_world sample_yaml p = Inr sample_config"
  by (simp add: config_eval rule_load_eval docker_world_def sample_yaml_def sample_config_def path_rule_def no_external_def)

lemma boots:
  assumes "cfg_global cfg = None" and "\<And>p. load_from_path no_external docker_world from_str p = Inr cfg"
  shows "server_start no_external from_str
           (serving (initial_state docker_world (\<lambda>_. []) ''/var/run/docker.sock'' cfg) (Some ''c.yaml''))"
proof -
  have "default_config_path docker_world = Some ''c.yaml''" by (simp add: default_config_path_def docker_world_def)
  moreover have "resolve_socket_path docker_world (global_opt cfg g_socket) = Some ''/var/run/docker.sock''"
    by (simp add: resolve_socket_path_def docker_world_def global_opt_def assms(1) first_existing_def)
  ultimately have "main_start no_external docker_world from_str (\<lambda>_. Inr ()) (\<lambda>_. []) [] =
      Serve (initial_state docker_world (\<lambda>_. []) ''/var/run/docker.sock'' cfg) (Some ''c.yaml'')"
    by (simp add: main_start_def with_config_path_def load_config_from_default_path_def assms init_tracing_def
        try_option_simps global_opt_def Let_def)
  then show ?thesis unfolding server_start_def by blast
qed

lemma booted_reachable: "reachable no_external sample_yaml booted"
  using boots [of sample_config sample_yaml] sample_yaml_loads unfolding booted_def reachable_def
  by (auto simp: sample_config_def proxy_config_default_def)

text \<open>
  A reload opens the limit anew: since each listener has a semaphore of its own and a reload does
  not close the connections of the old one, the server can reach a state that serves 2048
  connections.
\<close>

lemma first_listener:
  obtains addr where "create_listener stub_tls docker_world (\<lambda>_. Inr ()) (current_config (sv_proxy booted)) = Inr (addr, None)"
    "reachable no_external sample_yaml (booted\<lparr>sv_listening := True, sv_gen := 1, sv_live := replicate 1024 (1, None)\<rparr>)"
proof -
  have "\<exists>addr. create_listener stub_tls docker_world (\<lambda>_. Inr ()) (current_config (sv_proxy booted)) = Inr (addr, None)"
    by (simp add: create_listener_def global_opt_def sample_config_def proxy_config_default_def booted_def serving_def
        initial_state_def current_config_def)
  then obtain addr where listener:
    "create_listener stub_tls docker_world (\<lambda>_. Inr ()) (current_config (sv_proxy booted)) = Inr (addr, None)" by blast
  let ?s = "booted\<lparr>sv_listening := True, sv_gen := 1\<rparr>"
  have "reachable no_external sample_yaml ?s"
    using rebind_reaches [OF booted_reachable _ listener] by (simp add: booted_def serving_def)
  from accept_many [OF this, of 1024] show ?thesis
    by (intro that [OF listener]) (simp add: permits_used_def booted_def serving_def MAX_CONCURRENT_CONNS_def)
qed

theorem reload_exceeds_limit: "\<exists>x from_str s. reachable x from_str s \<and> length (sv_live s) = 2048"
proof -
  let ?x = no_external
  let ?s2 = "booted\<lparr>sv_listening := True, sv_gen := 1, sv_live := replicate 1024 (1, None)\<rparr>"
  let ?s3 = "?s2\<lparr>sv_pending := True\<rparr>"
  let ?s4 = "?s2\<lparr>sv_listening := False\<rparr>"
  let ?s5 = "?s2\<lparr>sv_gen := 2\<rparr>"
  obtain addr where listener:
    "create_listener stub_tls docker_world (\<lambda>_. Inr ()) (current_config (sv_proxy booted)) = Inr (addr, None)"
    and r2: "reachable ?x sample_yaml ?s2" by (rule first_listener)
  have "sighup ?x docker_world sample_yaml ?s2 = ?s3"
    by (simp add: sighup_def booted_def serving_def sample_yaml_loads swap_config_def initial_state_def)
  then have r3: "reachable ?x sample_yaml ?s3" using reach_step [OF r2 step_sighup] by metis
  have "close_listener ?s3 = ?s4" by (simp add: close_listener_def booted_def serving_def)
  then have r4: "reachable ?x sample_yaml ?s4" using reach_step [OF r3 step_restart] by simp
  have r5: "reachable ?x sample_yaml ?s5"
    using rebind_reaches [OF r4, of stub_tls docker_world "\<lambda>_. Inr ()" addr None] listener
    by (simp add: numeral_2_eq_2 booted_def serving_def)
  have "permits_used ?s5 = 0" by (simp add: permits_used_def count_list_0_iff)
  with accept_many [OF r5, of 1024]
  have "reachable ?x sample_yaml (?s5\<lparr>sv_live := replicate 1024 (2, sv_acceptor ?s5) @ replicate 1024 (1, None)\<rparr>)"
    by (simp add: MAX_CONCURRENT_CONNS_def)
  then show ?thesis by (intro exI [of _ ?x] exI [of _ sample_yaml]) (auto intro: exI)
qed

theorem active_config_valid_witness:
  "config_ok no_external (current_config (sv_proxy booted)) \<and> config_rules (current_config (sv_proxy booted)) \<noteq> []"
  using active_config_valid [OF booted_reachable]
  by (simp add: booted_def serving_def initial_state_def current_config_def sample_config_def config_rules_def)

theorem connection_limit_witness:
  "let s = booted\<lparr>sv_listening := True, sv_gen := 1, sv_live := replicate 1024 (1, None)\<rparr>
   in permits_used s = 1024 \<and> permits_used s \<le> 1024 \<and> length (sv_live s) \<le> 1024 * sv_gen s"
proof -
  let ?s = "booted\<lparr>sv_listening := True, sv_gen := 1, sv_live := replicate 1024 (1, None)\<rparr>"
  have "reachable no_external sample_yaml ?s" by (rule first_listener)
  moreover have "count_list (replicate n a) a = n" for n and a :: nat by (induction n) auto
  ultimately show ?thesis using connection_limit [of no_external sample_yaml ?s] by (simp add: permits_used_def Let_def)
qed

definition other_yaml :: "string \<Rightarrow> string + proxy_config" where
  "other_yaml s = Inr proxy_config_default"

theorem config_changes_by_reload_witness:
  "\<exists>w path. sv_path booted = Some path \<and> load_from_path no_external w other_yaml path = Inr proxy_config_default"
proof -
  let ?s = "sighup no_external docker_world other_yaml booted"
  have c: "current_config (sv_proxy ?s) = proxy_config_default"
    by (simp add: sighup_def booted_def serving_def other_yaml_def docker_world_def config_eval swap_config_def current_config_def)
  have "current_config (sv_proxy ?s) \<noteq> current_config (sv_proxy booted)"
    unfolding c by (simp add: booted_def serving_def initial_state_def current_config_def sample_config_def proxy_config_default_def)
  from config_changes_by_reload [OF step_sighup this] show ?thesis unfolding c .
qed

end
