(* ===== verification/Saved_Config.thy ===== *)
theory Saved_Config
  imports Config
begin

text \<open>
  Configuration files written by the program itself: what saving a configuration and loading it
  again does. Saving and parsing YAML are \<^verbatim>\<open>serde_yaml\<close>'s; the loader around them is
  \<^verbatim>\<open>src/config.rs\<close>.
\<close>

section \<open>What a configuration file holds\<close>

text \<open>
  The strings that environment expansion visits, and the patterns that are compiled. A compiled
  pattern is not saved (\<^verbatim>\<open>#[serde(skip)]\<close>): \<open>forget\<close> takes it off again.
\<close>

definition opt_list :: "'a option \<Rightarrow> 'a list" where
  "opt_list v = (case v of None \<Rightarrow> [] | Some y \<Rightarrow> [y])"

lemma opt_list_simps [simp]: "opt_list None = []" "opt_list (Some y) = [y]"
  by (simp_all add: opt_list_def)

fun yaml_texts :: "yaml \<Rightarrow> string list" where
  "yaml_texts (YString s) = [s]"
| "yaml_texts (YSequence vs) = concat (map yaml_texts vs)"
| "yaml_texts _ = []"

fun node_texts :: "condition_node \<Rightarrow> string list" where
  "node_texts (Leaf c) = (case c_value c of None \<Rightarrow> [] | Some v \<Rightarrow> yaml_texts v)"
| "node_texts (And ns) = concat (map node_texts ns)"
| "node_texts (Or ns) = concat (map node_texts ns)"

definition rule_texts :: "rule \<Rightarrow> string list" where
  "rule_texts r = opt_list (r_message r) @ concat (map node_texts (r_conditions r)) @ unwrap_or (r_methods r) []"

definition auth_texts :: "auth_config \<Rightarrow> string list" where
  "auth_texts a = map expose_secret (opt_list (a_secret a) @ map te_token (unwrap_or (a_tokens a) []))"

fun node_patterns :: "condition_node \<Rightarrow> string list" where
  "node_patterns (Leaf c) =
     (if c_operator c = ''matches'' \<or> c_operator c = ''not_matches''
      then opt_list (Option.bind (c_value c) cfg_yaml_value_to_string) else [])"
| "node_patterns (And ns) = concat (map node_patterns ns)"
| "node_patterns (Or ns) = concat (map node_patterns ns)"

definition config_patterns :: "proxy_config \<Rightarrow> string list" where
  "config_patterns cfg = concat (map (\<lambda>r. concat (map node_patterns (r_conditions r))) (config_rules cfg))"

definition config_texts :: "proxy_config \<Rightarrow> string list" where
  "config_texts cfg =
     (case cfg_auth cfg of None \<Rightarrow> [] | Some a \<Rightarrow> auth_texts a) @ concat (map rule_texts (config_rules cfg))"

fun forget_node :: "condition_node \<Rightarrow> condition_node" where
  "forget_node (Leaf c) = Leaf (c\<lparr>compiled_regex := None\<rparr>)"
| "forget_node (And ns) = And (map forget_node ns)"
| "forget_node (Or ns) = Or (map forget_node ns)"

definition forget_rule :: "rule \<Rightarrow> rule" where
  "forget_rule r = r\<lparr>r_conditions := map forget_node (r_conditions r)\<rparr>"

definition forget_regexes :: "proxy_config \<Rightarrow> proxy_config" where
  "forget_regexes cfg = cfg\<lparr>cfg_rules := map_option (map forget_rule) (cfg_rules cfg)\<rparr>"

text \<open>Without a variable reference, expansion changes nothing.\<close>

definition unreferenced :: "external \<Rightarrow> string list \<Rightarrow> bool" where
  "unreferenced x ss = (\<forall>s \<in> set ss. regex_segments x env_pattern s = [Plain s])"

lemma unreferenced_simps [simp]:
  "unreferenced x []" "unreferenced x (ss @ ts) \<longleftrightarrow> unreferenced x ss \<and> unreferenced x ts"
  "unreferenced x (s # ss) \<longleftrightarrow> regex_segments x env_pattern s = [Plain s] \<and> unreferenced x ss"
  "unreferenced x (concat sss) \<longleftrightarrow> (\<forall>ss \<in> set sss. unreferenced x ss)"
  by (auto simp: unreferenced_def)

lemma try_map_id: "(\<And>y. y \<in> set ys \<Longrightarrow> f y = Inr y) \<Longrightarrow> try_map f ys = Inr ys"
  by (induction ys) auto

lemma expand_env_id: "regex_segments x env_pattern s = [Plain s] \<Longrightarrow> expand_env x w s b = Inr s"
  by (simp add: expand_env_def)

lemma expand_value_id: "unreferenced x (yaml_texts v) \<Longrightarrow> expand_value_env x w b v = Inr v"
  by (induction v rule: yaml_texts.induct) (simp_all add: expand_env_id try_map_id)

lemma expand_node_id: "unreferenced x (node_texts n) \<Longrightarrow> expand_node_env x w b n = Inr n"
  by (induction n rule: node_texts.induct) (auto simp: try_map_id expand_value_id split: option.splits)

lemma expand_token_id: "unreferenced x [expose_secret t] \<Longrightarrow> expand_token x w t = Inr t"
  by (simp add: expand_token_def expand_env_id)

lemma resolve_rule_id: "unreferenced x (rule_texts r) \<Longrightarrow> resolve_rule_env x w r = Inr r"
proof -
  assume u: "unreferenced x (rule_texts r)"
  then have "try_option (\<lambda>m. expand_env x w m False) (r_message r) = Inr (r_message r)"
    by (cases "r_message r") (simp_all add: rule_texts_def expand_env_id)
  moreover have "try_map (expand_node_env x w False) (r_conditions r) = Inr (r_conditions r)"
    using u by (intro try_map_id expand_node_id) (simp add: rule_texts_def)
  moreover have "try_option (try_map (\<lambda>m. expand_env x w m False)) (r_methods r) = Inr (r_methods r)"
    using u by (cases "r_methods r") (simp_all add: rule_texts_def unreferenced_def try_map_id expand_env_id)
  ultimately show ?thesis by (simp add: resolve_rule_env_def)
qed

lemma resolve_auth_id: "unreferenced x (auth_texts a) \<Longrightarrow> resolve_auth_env x w a = Inr a"
proof -
  assume u: "unreferenced x (auth_texts a)"
  then have "try_option (expand_token x w) (a_secret a) = Inr (a_secret a)"
    by (cases "a_secret a") (simp_all add: auth_texts_def expand_token_id)
  moreover have "try_option (try_map (\<lambda>t. try_bind (expand_token x w (te_token t)) (\<lambda>s. Inr (t\<lparr>te_token := s\<rparr>)))) (a_tokens a)
      = Inr (a_tokens a)"
    using u by (cases "a_tokens a") (auto simp: auth_texts_def unreferenced_def expand_token_id try_map_id)
  ultimately show ?thesis by (simp add: resolve_auth_env_def)
qed

lemma resolve_env_id: "unreferenced x (config_texts cfg) \<Longrightarrow> resolve_env_vars x w cfg = Inr cfg"
proof -
  assume u: "unreferenced x (config_texts cfg)"
  then have "try_option (resolve_auth_env x w) (cfg_auth cfg) = Inr (cfg_auth cfg)"
    by (cases "cfg_auth cfg") (simp_all add: config_texts_def resolve_auth_id)
  moreover have "try_option (try_map (resolve_rule_env x w)) (cfg_rules cfg) = Inr (cfg_rules cfg)"
    using u by (cases "cfg_rules cfg") (auto simp: config_texts_def config_rules_def resolve_rule_id try_map_id)
  ultimately show ?thesis by (simp add: resolve_env_vars_def)
qed

text \<open>Compiling adds the patterns and nothing else.\<close>

lemma try_map_undone:
  assumes "\<And>y. y \<in> set ys \<Longrightarrow> \<exists>z. f y = Inr z \<and> g z = y"
  shows "\<exists>zs. try_map f ys = Inr zs \<and> map g zs = ys"
  using assms by (induction ys) (simp, fastforce)

lemma map_same: "map f ys = ys \<Longrightarrow> y \<in> set ys \<Longrightarrow> f y = y"
  by (induction ys) auto

lemma compile_node_undone:
  "forget_node n = n \<Longrightarrow> \<forall>s \<in> set (node_patterns n). \<exists>re. regex_new x s = Inr re \<Longrightarrow>
     \<exists>m. compile_regexes_in_node x n = Inr m \<and> forget_node m = n"
proof (induction n rule: node_patterns.induct)
  case (1 c)
  then show ?case
    by (cases c) (auto simp: compile_regex_in_condition_def split: option.splits sum.splits)
next
  case (2 ns)
  have "\<exists>ms. try_map (\<lambda>n. compile_regexes_in_node x n) ns = Inr ms \<and> map forget_node ms = ns"
    using 2 by (intro try_map_undone) (auto dest: map_same)
  then show ?case by auto
next
  case (3 ns)
  have "\<exists>ms. try_map (\<lambda>n. compile_regexes_in_node x n) ns = Inr ms \<and> map forget_node ms = ns"
    using 3 by (intro try_map_undone) (auto dest: map_same)
  then show ?case by auto
qed

lemma compile_rule_undone:
  assumes "forget_rule r = r" and "\<forall>n \<in> set (r_conditions r). \<forall>s \<in> set (node_patterns n). \<exists>re. regex_new x s = Inr re"
  shows "\<exists>s. compile_rule_regexes x r = Inr s \<and> forget_rule s = r"
proof -
  have same: "map forget_node (r_conditions r) = r_conditions r"
    using arg_cong [OF assms(1), of r_conditions] by (simp add: forget_rule_def)
  have "\<exists>ms. try_map (compile_regexes_in_node x) (r_conditions r) = Inr ms \<and> map forget_node ms = r_conditions r"
    using assms(2) map_same [OF same] by (intro try_map_undone compile_node_undone) auto
  then show ?thesis by (auto simp: compile_rule_regexes_def forget_rule_def)
qed

lemma compile_regexes_undone:
  assumes "forget_regexes cfg = cfg" and "\<forall>s \<in> set (config_patterns cfg). \<exists>re. regex_new x s = Inr re"
  shows "\<exists>c. compile_regexes x cfg = Inr c \<and> forget_regexes c = cfg"
proof (cases "cfg_rules cfg")
  case None
  then show ?thesis by (simp add: compile_regexes_def forget_regexes_def)
next
  case (Some rs)
  then have same: "map forget_rule rs = rs"
    using arg_cong [OF assms(1), of cfg_rules] by (simp add: forget_regexes_def)
  have "\<exists>ss. try_map (compile_rule_regexes x) rs = Inr ss \<and> map forget_rule ss = rs"
    using assms(2) Some map_same [OF same]
    by (intro try_map_undone compile_rule_undone) (auto simp: config_patterns_def config_rules_def)
  with Some show ?thesis by (cases cfg) (auto simp: compile_regexes_def forget_regexes_def)
qed

lemma validate_forget: "validate (forget_regexes cfg) = validate cfg"
proof -
  have "try_map validate_rule (map forget_rule rs) = try_map validate_rule rs" for rs
    by (induction rs) (simp_all add: validate_rule_def forget_rule_def)
  then have "try_option (try_map validate_rule) (cfg_rules (forget_regexes cfg)) = try_option (try_map validate_rule) (cfg_rules cfg)"
    by (cases "cfg_rules cfg") (simp_all add: forget_regexes_def)
  moreover have "validate_auth (forget_regexes cfg) = validate_auth cfg" "validate_metrics (forget_regexes cfg) = validate_metrics cfg"
    by (simp_all add: validate_auth_def validate_metrics_def forget_regexes_def)
  ultimately show ?thesis by (simp add: validate_def)
qed

lemma priority_forget: "map rule_priority (config_rules (forget_regexes cfg)) = map rule_priority (config_rules cfg)"
  by (cases "cfg_rules cfg") (simp_all add: forget_regexes_def config_rules_def forget_rule_def rule_priority_def)

section \<open>Loading it again\<close>

text \<open>
  A saved configuration without variable references, with patterns that compile, that validates
  and whose rules are in order loads, when no variable overrides it, as itself with the patterns
  compiled.
\<close>

definition no_overrides :: "world \<Rightarrow> bool" where
  "no_overrides w = (\<forall>v \<in> {''DOCKER_PROXY_PORT'', ''DOCKER_SOCKET'', ''DOCKER_PROXY_SECRET''}. env_var w v = None)"

lemma apply_env_overrides_none: "no_overrides w \<Longrightarrow> apply_env_overrides w cfg = cfg"
  by (simp add: no_overrides_def apply_env_overrides_def override_port_def override_socket_def override_secret_def)

lemma saved_config_loads:
  assumes "read_to_string w path = Inr text" and "from_str text = Inr cfg" and "no_overrides w"
    and "unreferenced x (config_texts cfg)" and "\<forall>s \<in> set (config_patterns cfg). \<exists>re. regex_new x s = Inr re"
    and "forget_regexes cfg = cfg" and "validate cfg = Inr ()"
    and "sorted (map (\<lambda>r. - int (rule_priority r)) (config_rules cfg))"
  shows "\<exists>c. load_from_path x w from_str path = Inr c \<and> forget_regexes c = cfg"
proof -
  obtain c where c: "compile_regexes x cfg = Inr c" "forget_regexes c = cfg"
    using compile_regexes_undone [OF assms(6,5)] by blast
  have v: "validate c = Inr ()" using assms(7) validate_forget [of c] c(2) by simp
  have "map rule_priority (config_rules c) = map rule_priority (config_rules cfg)"
    using priority_forget [of c] c(2) by simp
  then have "map (\<lambda>p. - int p) (map rule_priority (config_rules c)) = map (\<lambda>p. - int p) (map rule_priority (config_rules cfg))"
    by simp
  with assms(8) have "sorted (map (\<lambda>r. - int (rule_priority r)) (config_rules c))" by (simp add: comp_def)
  then have "sort_rules_by_priority c = c"
    by (cases c; cases "cfg_rules c") (simp_all add: sort_rules_by_priority_def config_rules_def sort_key_id_if_sorted)
  then have "load_from_path x w from_str path = Inr c"
    using assms(1,2) c v
    by (simp add: load_from_path_def finish_config_def resolve_env_id [OF assms(4)] apply_env_overrides_none [OF assms(3)])
  with c(2) show ?thesis by blast
qed

end
