(* ===== verification/Setup_Wizard.thy ===== *)
theory Setup_Wizard
  imports Server Saved_Config
begin

text \<open>
  The interactive configuration builder, \<^verbatim>\<open>src/setup.rs\<close>. The dialogue library is outside the
  model: what the user answered is data, in the order of the prompts. A loop that asks for
  items until the user declines is a non-empty list, its first item apart. The lemmas follow
  the configuration through the proxy: that it loads, and which rules do what they say.
\<close>

section \<open>Answers\<close>

record token_answer =
  ta_token :: string
  ta_role_idx :: nat

datatype auth_answer = ChooseNone | ChooseBearer string | ChooseTokens string token_answer "token_answer list"

record condition_answer =
  ca_field_idx :: nat
  ca_name :: string
  ca_operator_idx :: nat
  ca_value :: string

record filter_answer =
  fa_path :: string
  fa_action_idx :: nat
  fa_replacement :: string

record custom_answer =
  cu_name :: string
  cu_action_idx :: nat
  cu_message :: string
  cu_condition :: condition_answer
  cu_more_conditions :: "condition_answer list"
  cu_role_idx :: nat
  cu_filter :: filter_answer
  cu_more_filters :: "filter_answer list"
  cu_requests :: u64
  cu_period :: u64
  cu_penalty :: u64
  cu_status :: u16

record setup_answers =
  sa_port :: u16
  sa_socket_path :: string
  sa_auth :: auth_answer
  sa_chosen :: "(nat \<times> custom_answer) list"

section \<open>Authentication and global section\<close>

definition wizard_roles :: "string list" where
  "wizard_roles = [''admin'', ''readonly'', ''user'']"

definition token_entry_of :: "token_answer \<Rightarrow> token_entry" where
  "token_entry_of t = \<lparr>te_token = SecretToken (ta_token t), te_role = Some (wizard_roles ! ta_role_idx t)\<rparr>"

fun wizard_auth :: "auth_answer \<Rightarrow> auth_config option" where
  "wizard_auth ChooseNone = None"
| "wizard_auth (ChooseBearer secret) =
     Some \<lparr>a_type = Some ''bearer'', a_secret = Some (SecretToken secret), a_tokens = None, a_mtls = None\<rparr>"
| "wizard_auth (ChooseTokens secret t ts) =
     (let secret_opt = (if secret = [] then None else Some (SecretToken secret));
          entries = map token_entry_of (t # ts)
      in Some \<lparr>a_type = Some ''bearer'', a_secret = secret_opt,
               a_tokens = (if entries = [] then None else Some entries), a_mtls = None\<rparr>)"

definition wizard_global :: "u16 \<Rightarrow> string \<Rightarrow> global_config" where
  "wizard_global port socket_path =
     global_config_default\<lparr>g_port := Some port, g_socket := (if socket_path = [] then None else Some socket_path)\<rparr>"

section \<open>Templates\<close>

definition leaf :: "string \<Rightarrow> string \<Rightarrow> yaml option \<Rightarrow> condition_node" where
  "leaf field operator v = Leaf \<lparr>c_field = field, c_operator = operator, c_value = v, compiled_regex = None\<rparr>"

definition build_simple_deny :: "string \<Rightarrow> string \<Rightarrow> string \<Rightarrow> string \<Rightarrow> string \<Rightarrow> string \<Rightarrow> rule" where
  "build_simple_deny name description field operator v message =
     rule_default\<lparr>r_name := name, r_description := Some description, r_action := ''deny'',
       r_conditions := [leaf field operator (Some (YString v))], r_message := Some message, r_status := Some 403\<rparr>"

definition build_readonly :: "string \<Rightarrow> string \<Rightarrow> rule" where
  "build_readonly name pre =
     (let resource = trim_start_matches CHR ''/'' pre
      in rule_default\<lparr>r_name := name, r_description := Some (''Only GET is allowed on '' @ resource), r_action := ''deny'',
           r_conditions := [leaf ''path'' ''starts_with'' (Some (YString pre)), leaf ''method'' ''not_equals'' (Some (YString ''GET''))],
           r_message := Some (resource @ '' mutations are forbidden''), r_status := Some 403\<rparr>)"

definition template_block_exec :: "rule list" where
  "template_block_exec =
     [rule_default\<lparr>r_name := ''block-exec-operations'', r_description := Some ''Prevent creating or starting exec sessions'',
        r_action := ''deny'',
        r_conditions := [Or [leaf ''path'' ''matches'' (Some (YString ''^/containers/[^/]+/exec$'')),
                             leaf ''path'' ''matches'' (Some (YString ''^/exec/[^/]+/start$''))]],
        r_message := Some ''Exec operations are not permitted'', r_status := Some 403\<rparr>,
      build_simple_deny ''block-docker-build'' ''Prevent image builds via the API'' ''path'' ''starts_with'' ''/build''
        ''Image building is not permitted via this proxy'']"

definition template_block_secrets :: "rule list" where
  "template_block_secrets =
     [build_simple_deny ''block-secrets'' ''Block access to secrets'' ''path'' ''starts_with'' ''/secrets'' ''Secrets are not accessible'',
      build_simple_deny ''block-configs'' ''Block access to configs'' ''path'' ''starts_with'' ''/configs'' ''Configs are not accessible'']"

definition create_path :: condition_node where
  "create_path = leaf ''path'' ''equals'' (Some (YString ''/containers/create''))"

definition template_block_privileged :: rule where
  "template_block_privileged =
     rule_default\<lparr>r_name := ''block-privileged-containers'', r_description := Some ''Prevent creating containers with --privileged'',
       r_action := ''deny'',
       r_conditions := [create_path, leaf ''body.HostConfig.Privileged'' ''equals'' (Some (YBool True))],
       r_message := Some ''Privileged containers are not allowed'', r_status := Some 403\<rparr>"

text \<open>The pattern \<^verbatim>\<open>"Type"\s*:\s*"bind"\<close>.\<close>

definition bind_pattern :: string where
  "bind_pattern = dquote @ ''Type'' @ dquote @ [CHR 0x5C] @ ''s*:'' @ [CHR 0x5C] @ ''s*'' @ dquote @ ''bind'' @ dquote"

definition template_block_binds :: rule where
  "template_block_binds =
     rule_default\<lparr>r_name := ''block-bind-mounts'', r_description := Some ''Prevent containers from bind mounting'',
       r_action := ''deny'',
       r_conditions := [create_path, Or [leaf ''body.HostConfig.Binds'' ''exists'' None,
                                         leaf ''body.HostConfig.Mounts'' ''matches'' (Some (YString bind_pattern))]],
       r_message := Some ''Bind mounts are not allowed'', r_status := Some 403\<rparr>"

definition template_block_host_network :: rule where
  "template_block_host_network =
     rule_default\<lparr>r_name := ''block-host-network'', r_description := Some ''Prevent containers from using host networking'',
       r_action := ''deny'',
       r_conditions := [create_path, leaf ''body.HostConfig.NetworkMode'' ''equals'' (Some (YString ''host''))],
       r_message := Some ''Host network mode is not allowed'', r_status := Some 403\<rparr>"

definition admin_only :: "string \<Rightarrow> string \<Rightarrow> condition_node \<Rightarrow> string \<Rightarrow> rule" where
  "admin_only name description c message =
     rule_default\<lparr>r_name := name, r_description := Some description, r_action := ''require_role'', r_conditions := [c],
       r_role := Some ''admin'', r_message := Some message, r_status := Some 403\<rparr>"

definition template_admin_lifecycle :: rule where
  "template_admin_lifecycle =
     admin_only ''admin-only-container-lifecycle'' ''Only admins can start/stop/restart/kill containers''
       (leaf ''path'' ''matches''
          (Some (YString ''^/containers/[^/]+/(start|stop|restart|kill|pause|unpause|rename|update)$'')))
       ''Admin role required for container lifecycle operations''"

definition template_admin_create :: rule where
  "template_admin_create =
     admin_only ''admin-only-create'' ''Only admins can create containers'' create_path ''Admin role required to create containers''"

definition template_admin_delete :: rule where
  "template_admin_delete =
     admin_only ''admin-only-delete'' ''Only admins can delete resources''
       (leaf ''method'' ''equals'' (Some (YString ''DELETE''))) ''Admin role required for delete operations''"

definition template_internal_network :: rule where
  "template_internal_network =
     rule_default\<lparr>r_name := ''internal-network-only'', r_description := Some ''Restrict access to private network ranges and localhost'',
       r_action := ''deny'',
       r_conditions := [leaf ''client_ip'' ''not_in'' (Some (YSequence
          [YString ''10.0.0.0/8'', YString ''172.16.0.0/12'', YString ''192.168.0.0/16'', YString ''127.0.0.0/8'']))],
       r_message := Some ''Access restricted to internal network'', r_status := Some 403\<rparr>"

definition template_redact_environment :: rule where
  "template_redact_environment =
     rule_default\<lparr>r_name := ''redact-container-environment'',
       r_description := Some ''Redact environment variables and commands from container inspect'',
       r_action := ''response_filter'',
       r_conditions := [leaf ''path'' ''matches'' (Some (YString ''^/containers/[^/]+/json$''))],
       r_response_filter := Some
         [\<lparr>rf_field = ''Config.Env'', rf_action = ''redact'', rf_replacement = None\<rparr>,
          \<lparr>rf_field = ''Config.Cmd'', rf_action = ''redact'', rf_replacement = None\<rparr>]\<rparr>"

definition template_rate_limit :: rule where
  "template_rate_limit =
     rule_default\<lparr>r_name := ''rate-limit-all'',
       r_description := Some ''Limit requests to 50 per 30 seconds, 30s penalty on exceed'',
       r_action := ''rate_limit'',
       r_conditions := [leaf ''path'' ''matches'' (Some (YString ''^/''))],
       r_rate_limit := Some \<lparr>rl_requests = 50, rl_period = 30, rl_penalty = 30\<rparr>,
       r_message := Some ''Rate limit exceeded. You are blocked for 30 seconds.'', r_status := Some 429\<rparr>"

section \<open>Custom rules\<close>

definition custom_action :: "nat \<Rightarrow> string option" where
  "custom_action i =
     (if i = 0 then Some ''deny'' else if i = 1 then Some ''allow'' else if i = 2 then Some ''require_role''
      else if i = 3 then Some ''response_filter'' else if i = 4 then Some ''rate_limit'' else None)"

definition custom_fields :: "string list" where
  "custom_fields = [''path'', ''method'', ''client_ip'', ''header.<name>'', ''body.<path>'']"

definition custom_operators :: "string list" where
  "custom_operators =
     [''equals'', ''not_equals'', ''contains'', ''not_contains'', ''starts_with'', ''ends_with'', ''matches'',
      ''not_matches'', ''in'', ''not_in'', ''exists'', ''not_exists'']"

definition custom_condition :: "condition_answer \<Rightarrow> condition_node" where
  "custom_condition a =
     (let field = (if ca_field_idx a = 3 then ''header.'' @ ca_name a
                   else if ca_field_idx a = 4 then ''body.'' @ ca_name a
                   else custom_fields ! ca_field_idx a);
          operator = custom_operators ! ca_operator_idx a;
          needs_value = (operator \<noteq> ''exists'' \<and> operator \<noteq> ''not_exists'');
          v = (if needs_value then (if ca_value a = [] then None else Some (YString (ca_value a))) else None)
      in leaf field operator v)"

definition custom_filter :: "filter_answer \<Rightarrow> response_filter_entry" where
  "custom_filter a =
     (let fa = (if fa_action_idx a = 0 then ''redact'' else if fa_action_idx a = 1 then ''remove''
                else if fa_action_idx a = 2 then ''replace'' else ''redact'')
      in \<lparr>rf_field = fa_path a, rf_action = fa,
          rf_replacement = (if fa = ''replace'' then Some (fa_replacement a) else None)\<rparr>)"

definition build_custom_rule :: "custom_answer \<Rightarrow> rule option" where
  "build_custom_rule a =
     (case custom_action (cu_action_idx a) of
        None \<Rightarrow> None
      | Some act \<Rightarrow>
          (let base = rule_default\<lparr>r_name := cu_name a, r_action := act,
                 r_conditions := map custom_condition (cu_condition a # cu_more_conditions a),
                 r_message := Some (cu_message a), r_status := Some (if act = ''rate_limit'' then 429 else 403)\<rparr>
           in Some (if act = ''require_role'' then base\<lparr>r_role := Some (wizard_roles ! cu_role_idx a)\<rparr>
                    else if act = ''response_filter'' then
                      base\<lparr>r_response_filter := Some (map custom_filter (cu_filter a # cu_more_filters a))\<rparr>
                    else if act = ''rate_limit'' then
                      base\<lparr>r_rate_limit := Some \<lparr>rl_requests = cu_requests a, rl_period = cu_period a, rl_penalty = cu_penalty a\<rparr>,
                           r_status := Some 429\<rparr>
                    else base\<lparr>r_status := Some (cu_status a)\<rparr>)))"

section \<open>The configuration written\<close>

definition template_rules :: "nat \<times> custom_answer \<Rightarrow> rule list" where
  "template_rules choice =
     (let (idx, custom) = choice
      in if idx = 0 then template_block_exec
         else if idx = 1 then [build_readonly ''readonly-volumes'' ''/volumes'']
         else if idx = 2 then [build_readonly ''readonly-networks'' ''/networks'']
         else if idx = 3 then [build_readonly ''readonly-images'' ''/images'']
         else if idx = 4 then template_block_secrets
         else if idx = 5 then [template_block_privileged]
         else if idx = 6 then [template_block_binds]
         else if idx = 7 then [template_block_host_network]
         else if idx = 8 then [template_admin_lifecycle]
         else if idx = 9 then [template_admin_create]
         else if idx = 10 then [template_admin_delete]
         else if idx = 11 then [template_internal_network]
         else if idx = 12 then [template_redact_environment]
         else if idx = 13 then [template_rate_limit]
         else if idx = 14 then (case build_custom_rule custom of Some r \<Rightarrow> [r] | None \<Rightarrow> [])
         else [])"

definition setup_config :: "setup_answers \<Rightarrow> proxy_config" where
  "setup_config a =
     (let rules = concat (map template_rules (sa_chosen a))
      in \<lparr>cfg_global = Some (wizard_global (sa_port a) (sa_socket_path a)), cfg_auth = wizard_auth (sa_auth a),
          cfg_rules = (if rules = [] then None else Some rules)\<rparr>)"

section \<open>Properties\<close>

lemmas template_defs = template_block_exec_def build_simple_deny_def build_readonly_def template_block_secrets_def
  template_block_privileged_def template_block_binds_def template_block_host_network_def admin_only_def
  template_admin_lifecycle_def template_admin_create_def template_admin_delete_def template_internal_network_def
  template_redact_environment_def template_rate_limit_def rule_default_def

lemma template_lists_ok: "list_all rule_ok template_block_exec" "list_all rule_ok template_block_secrets"
  by (simp_all add: rule_ok_def template_block_exec_def template_block_secrets_def build_simple_deny_def rule_default_def)

lemma template_single_ok:
  "rule_ok template_block_privileged" "rule_ok template_block_binds" "rule_ok template_block_host_network"
  "rule_ok template_admin_lifecycle" "rule_ok template_admin_create" "rule_ok template_admin_delete"
  "rule_ok template_internal_network" "rule_ok template_redact_environment" "rule_ok template_rate_limit"
  "name \<noteq> [] \<Longrightarrow> rule_ok (build_readonly name pre)"
  by (simp_all add: rule_ok_def template_defs Let_def)

lemma custom_rule_ok: "build_custom_rule a = Some r \<Longrightarrow> cu_name a \<noteq> [] \<Longrightarrow> rule_ok r"
  by (auto simp: build_custom_rule_def custom_action_def rule_ok_def rule_default_def Let_def split: if_splits)

lemma template_rules_ok: "cu_name custom \<noteq> [] \<Longrightarrow> list_all rule_ok (template_rules (idx, custom))"
  using custom_rule_ok [of custom]
  by (simp add: template_rules_def template_lists_ok template_single_ok split: option.split)

text \<open>
  What the wizard writes passes the proxy's validation: every template and every custom rule with
  a name is complete for its action.
\<close>

lemma wizard_config_valid:
  assumes "\<forall>(idx, custom) \<in> set (sa_chosen a). cu_name custom \<noteq> []"
  shows "validate (setup_config a) = Inr ()"
proof -
  let ?rules = "concat (map template_rules (sa_chosen a))"
  have "validate_rule r = Inr ()" if "r \<in> set ?rules" for r
  proof -
    from that obtain idx custom where "(idx, custom) \<in> set (sa_chosen a)" "r \<in> set (template_rules (idx, custom))" by auto
    with assms template_rules_ok [of custom idx] validate_rule_ok show ?thesis by (fastforce simp: list_all_iff)
  qed
  then have rules: "\<exists>us. try_map validate_rule ?rules = Inr us" by (intro try_map_total) auto
  have auth: "validate_auth (setup_config a) = Inr ()"
    by (cases "sa_auth a") (simp_all add: validate_auth_def setup_config_def Let_def)
  have "validate_metrics (setup_config a) = Inr ()"
    by (simp add: validate_metrics_def setup_config_def wizard_global_def global_config_default_def Let_def)
  with rules auth show ?thesis
    by (auto simp: validate_def setup_config_def Let_def)
qed

text \<open>The strings of the answers that end up in places where the loader expands variables.\<close>

fun auth_answer_texts :: "auth_answer \<Rightarrow> string list" where
  "auth_answer_texts ChooseNone = []"
| "auth_answer_texts (ChooseBearer secret) = [secret]"
| "auth_answer_texts (ChooseTokens secret t ts) = secret # map ta_token (t # ts)"

definition custom_texts :: "custom_answer \<Rightarrow> string list" where
  "custom_texts a = cu_message a # map ca_value (cu_condition a # cu_more_conditions a)"

definition answer_texts :: "setup_answers \<Rightarrow> string list" where
  "answer_texts a =
     auth_answer_texts (sa_auth a) @ concat (map (\<lambda>(idx, custom). if idx = 14 then custom_texts custom else []) (sa_chosen a))"

definition plain_text :: "string \<Rightarrow> bool" where
  "plain_text s \<longleftrightarrow> \<not> sublist ''${'' s"

lemma template_lists_plain:
  "list_all (\<lambda>r. list_all plain_text (rule_texts r)) template_block_exec"
  "list_all (\<lambda>r. list_all plain_text (rule_texts r)) template_block_secrets"
  by code_simp+

lemma template_single_plain:
  "list_all plain_text (rule_texts template_block_privileged)" "list_all plain_text (rule_texts template_block_binds)"
  "list_all plain_text (rule_texts template_block_host_network)" "list_all plain_text (rule_texts template_admin_lifecycle)"
  "list_all plain_text (rule_texts template_admin_create)" "list_all plain_text (rule_texts template_admin_delete)"
  "list_all plain_text (rule_texts template_internal_network)" "list_all plain_text (rule_texts template_redact_environment)"
  "list_all plain_text (rule_texts template_rate_limit)"
  "list_all plain_text (rule_texts (build_readonly ''readonly-volumes'' ''/volumes''))"
  "list_all plain_text (rule_texts (build_readonly ''readonly-networks'' ''/networks''))"
  "list_all plain_text (rule_texts (build_readonly ''readonly-images'' ''/images''))"
  by code_simp+

lemma custom_condition_texts: "set (node_texts (custom_condition a)) \<subseteq> {ca_value a}"
  by (auto simp: custom_condition_def leaf_def Let_def split: if_splits)

lemma custom_rule_texts:
  assumes "build_custom_rule a = Some r"
  shows "set (rule_texts r) \<subseteq> set (custom_texts a)"
proof -
  have "rule_texts r = cu_message a # concat (map node_texts (map custom_condition (cu_condition a # cu_more_conditions a)))"
    using assms by (auto simp: build_custom_rule_def custom_action_def rule_texts_def rule_default_def Let_def split: if_splits)
  then show ?thesis using custom_condition_texts by (fastforce simp: custom_texts_def)
qed

lemma template_rules_plain:
  assumes "idx = 14 \<longrightarrow> list_all plain_text (custom_texts custom)" and "r \<in> set (template_rules (idx, custom))"
  shows "list_all plain_text (rule_texts r)"
proof (cases "idx = 14")
  case True
  with assms(2) have "build_custom_rule custom = Some r" by (auto simp: template_rules_def split: option.splits)
  with assms(1) True custom_rule_texts show ?thesis by (fastforce simp: list_all_iff)
next
  case False
  then have "list_all (\<lambda>r. list_all plain_text (rule_texts r)) (template_rules (idx, custom))"
    by (simp add: template_rules_def template_lists_plain template_single_plain)
  with assms(2) show ?thesis by (simp add: list_all_iff)
qed

lemma setup_config_plain:
  assumes "list_all plain_text (answer_texts a)"
  shows "list_all plain_text (config_texts (setup_config a))"
proof -
  have auth: "list_all plain_text (case wizard_auth (sa_auth a) of None \<Rightarrow> [] | Some au \<Rightarrow> auth_texts au)"
    using assms by (cases "sa_auth a") (auto simp: answer_texts_def auth_texts_def token_entry_of_def Let_def list_all_iff)
  have "list_all plain_text (rule_texts r)" if r: "r \<in> set (concat (map template_rules (sa_chosen a)))" for r
  proof -
    from r obtain idx custom where c: "(idx, custom) \<in> set (sa_chosen a)" "r \<in> set (template_rules (idx, custom))" by auto
    with assms have "idx = 14 \<longrightarrow> list_all plain_text (custom_texts custom)"
      by (fastforce simp: answer_texts_def list_all_iff)
    from template_rules_plain [OF this c(2)] show ?thesis .
  qed
  with auth show ?thesis
    by (auto simp: config_texts_def setup_config_def config_rules_def Let_def list_all_iff)
qed

text \<open>The wizard's rules have no priority and no compiled pattern.\<close>

definition fresh_rule :: "rule \<Rightarrow> bool" where
  "fresh_rule r = (r_priority r = None \<and> map forget_node (r_conditions r) = r_conditions r)"

lemma custom_rule_fresh: "build_custom_rule a = Some r \<Longrightarrow> fresh_rule r"
  by (auto simp: build_custom_rule_def custom_action_def fresh_rule_def rule_default_def custom_condition_def leaf_def Let_def
      split: if_splits)

lemma template_rules_fresh: "list_all fresh_rule (template_rules choice)"
  using custom_rule_fresh
  by (simp add: template_rules_def fresh_rule_def template_defs create_path_def leaf_def Let_def case_prod_beta split: option.split)

lemma setup_config_fresh:
  "forget_regexes (setup_config a) = setup_config a"
  "sorted (map (\<lambda>r. - int (rule_priority r)) (config_rules (setup_config a)))"
proof -
  let ?rs = "concat (map template_rules (sa_chosen a))"
  have f: "fresh_rule r" if "r \<in> set ?rs" for r
    using that template_rules_fresh by (fastforce simp: list_all_iff)
  then have "map forget_rule ?rs = ?rs" by (intro map_idI) (auto simp: fresh_rule_def forget_rule_def)
  then show "forget_regexes (setup_config a) = setup_config a" by (simp add: forget_regexes_def setup_config_def Let_def)
  have "map (\<lambda>r. - int (rule_priority r)) ?rs = map (\<lambda>r. 0) ?rs"
    using f by (intro map_cong) (auto simp: fresh_rule_def rule_priority_def)
  then show "sorted (map (\<lambda>r. - int (rule_priority r)) (config_rules (setup_config a)))"
    by (simp add: setup_config_def config_rules_def Let_def map_replicate_const sorted_replicate)
qed

text \<open>
  (C40) What the wizard writes can be loaded, under these conditions: the answers name no environment
  variable, the custom rules have names, all patterns compile, no variable of the environment overrides
  the file, and YAML gives back what was saved. Then the proxy loads the configuration that was
  saved, with the patterns compiled in addition. The wizard checks no pattern: a custom rule with an
  invalid one is saved and the file is then refused.
\<close>

theorem wizard_config_loads:
  assumes "\<forall>(idx, custom) \<in> set (sa_chosen a). cu_name custom \<noteq> []"
    and "list_all plain_text (answer_texts a)"
    and "\<And>s. plain_text s \<Longrightarrow> regex_segments x env_pattern s = [Plain s]"
    and "\<forall>s \<in> set (config_patterns (setup_config a)). \<exists>re. regex_new x s = Inr re"
    and "read_to_string w path = Inr text" and "from_str text = Inr (setup_config a)" and "no_overrides w"
  shows "\<exists>cfg. load_from_path x w from_str path = Inr cfg \<and> forget_regexes cfg = setup_config a"
proof -
  have "unreferenced x (config_texts (setup_config a))"
    using setup_config_plain [OF assms(2)] assms(3) by (auto simp: unreferenced_def list_all_iff)
  then show ?thesis
    using saved_config_loads [where cfg = "setup_config a" and from_str = from_str, OF assms(5,6,7)] assms(4) setup_config_fresh [of a]
      wizard_config_valid [OF assms(1)] by blast
qed

text \<open>
  The wizard saves a condition's value as a string, which some operators never accept: \<^verbatim>\<open>in\<close> wants
  a list for every field but the client address, and \<^verbatim>\<open>equals\<close> on a body field compares a string
  with strings only.
\<close>

definition inert_condition :: "condition_answer \<Rightarrow> evaluation_context \<Rightarrow> bool" where
  "inert_condition a ctx =
     (custom_operators ! ca_operator_idx a = ''in'' \<and> ca_field_idx a \<in> {0, 1, 3, 4}
      \<or> custom_operators ! ca_operator_idx a = ''equals'' \<and> ca_field_idx a = 4 \<and> ca_value a \<noteq> []
        \<and> (case Option.bind (ctx_body_json ctx) (\<lambda>b. json_get b (ca_name a)) of None \<Rightarrow> True | Some j \<Rightarrow> as_str j = None))"

lemma in_wants_list:
  assumes "c_operator c = ''in''" and "\<And>vs. c_value c \<noteq> Some (YSequence vs)"
  shows "\<not> match_path_condition x c p" "\<not> match_method_condition c m" "\<not> match_header_condition x c hs h"
    "\<not> match_body_condition x c b f"
proof -
  have never: "(case c_value c of Some (YSequence vs) \<Rightarrow> P vs | _ \<Rightarrow> False) \<longleftrightarrow> False" for P
    using assms(2) by (simp split: option.split yaml.split)
  show "\<not> match_path_condition x c p" "\<not> match_method_condition c m" "\<not> match_header_condition x c hs h"
    by (simp_all add: match_path_condition_def match_method_condition_def match_header_condition_def assms(1) never)
  show "\<not> match_body_condition x c b f"
    by (auto simp: match_body_condition_def assms(1) never split: option.split)
qed

lemma body_equals_string:
  assumes "c_operator c = ''equals''" and "c_value c = Some (YString s)"
    and "case Option.bind b (\<lambda>j. json_get j f) of None \<Rightarrow> True | Some j \<Rightarrow> as_str j = None"
  shows "\<not> match_body_condition x c b f"
  using assms by (cases b) (simp_all add: match_body_condition_def split: option.splits)

text \<open>The leaf a custom condition is, and how it is dispatched.\<close>

definition custom_leaf :: "condition_answer \<Rightarrow> condition" where
  "custom_leaf a = (case custom_condition a of Leaf c \<Rightarrow> c)"

lemma custom_leaf_simps:
  "custom_condition a = Leaf (custom_leaf a)" "c_operator (custom_leaf a) = custom_operators ! ca_operator_idx a"
  "c_value (custom_leaf a) \<noteq> Some (YSequence vs)"
  by (simp_all add: custom_leaf_def custom_condition_def leaf_def Let_def)

lemma custom_leaf_value:
  "custom_operators ! ca_operator_idx a = ''equals'' \<Longrightarrow> ca_value a \<noteq> [] \<Longrightarrow> c_value (custom_leaf a) = Some (YString (ca_value a))"
  by (simp add: custom_leaf_def custom_condition_def leaf_def Let_def)

lemma custom_leaf_field:
  "ca_field_idx a = 0 \<Longrightarrow> c_field (custom_leaf a) = ''path''" "ca_field_idx a = 1 \<Longrightarrow> c_field (custom_leaf a) = ''method''"
  "ca_field_idx a = 3 \<Longrightarrow> c_field (custom_leaf a) = ''header.'' @ ca_name a"
  "ca_field_idx a = 4 \<Longrightarrow> c_field (custom_leaf a) = ''body.'' @ ca_name a"
  by (simp_all add: custom_leaf_def custom_condition_def leaf_def custom_fields_def Let_def)

lemma inert_never_holds:
  assumes "inert_condition a ctx"
  shows "\<not> evaluate_node x (custom_condition a) ctx"
proof -
  consider "c_operator (custom_leaf a) = ''in''" "ca_field_idx a \<in> {0, 1, 3, 4}"
    | "\<not> match_body_condition x (custom_leaf a) (ctx_body_json ctx) (ca_name a)" "ca_field_idx a = 4"
    using assms body_equals_string [of "custom_leaf a" "ca_value a"]
    by (auto simp: inert_condition_def custom_leaf_simps custom_leaf_value)
  then show ?thesis
  proof cases
    case 1
    note never = in_wants_list [OF this(1) custom_leaf_simps(3)]
    from 1(2) never show ?thesis
      by (auto simp: custom_leaf_simps(1) evaluate_condition_def custom_leaf_field Let_def)
  next
    case 2
    then show ?thesis by (simp add: custom_leaf_simps(1) evaluate_condition_def custom_leaf_field Let_def)
  qed
qed

text \<open>
  (C31) Such a rule is never applied: a custom rule of any action that the wizard builds with one of
  these conditions, for instance to deny requests whose \<^verbatim>\<open>body.HostConfig.Privileged\<close> (the field
  the wizard proposes) equals \<^verbatim>\<open>true\<close>, is passed over for every request whose field is not a JSON
  string, and the rules behind it decide.
\<close>

theorem wizard_rule_inert:
  assumes "build_custom_rule cu = Some r" and "a \<in> set (cu_condition cu # cu_more_conditions cu)"
    and "inert_condition a ctx"
  shows "evaluate_request_detailed x clk (r # rs) ctx rl = evaluate_request_detailed x (\<lambda>i. clk (Suc i)) rs ctx rl"
proof -
  have "r_conditions r = map custom_condition (cu_condition cu # cu_more_conditions cu)"
    using assms(1) by (auto simp: build_custom_rule_def rule_default_def Let_def split: option.splits)
  then have "\<not> rule_matches x r ctx"
    using assms(2) inert_never_holds [OF assms(3)] by (auto simp: rule_matches_def list_all_iff)
  then show ?thesis by (simp add: apply_rule_def)
qed

text \<open>
  Choosing \<^verbatim>\<open>none -- no authentication\<close> locks everybody out: the configuration written has no
  \<^verbatim>\<open>auth\<close> section, and without a secret in the environment the proxy refuses every request.
\<close>

theorem wizard_none_denies_all:
  assumes "sa_auth a = ChooseNone" and "ps_env_secret st = []"
  shows "\<exists>code msg. authenticate x clk (setup_config a) hs peer cert st = (Some (Denied code msg), st) \<and> code \<in> {401, 429}"
  using assms
  by (auto simp: setup_config_def Let_def authenticate_def authenticate_bearer_def auth_type_def is_auth_strictly_configured_def)

text \<open>
  A read-only template denies exactly what it says: it matches a request if and only if the path
  starts with the prefix and the method is not \<^verbatim>\<open>GET\<close>.
\<close>

theorem readonly_template_exact:
  "rule_matches x (build_readonly name pre) ctx \<longleftrightarrow>
     prefix pre (ctx_path ctx) \<and> \<not> eq_ignore_ascii_case (ctx_method ctx) ''GET''"
  by (simp add: rule_matches_def build_readonly_def rule_default_def leaf_def evaluate_condition_def Let_def
      match_path_condition_def match_method_condition_def cond_string_def)

text \<open>
  The privileged-container template blocks what it is for: a request to create a container whose
  body sets \<^verbatim>\<open>HostConfig.Privileged\<close> to true is denied with 403 when the template's rule comes
  first.
\<close>

theorem privileged_template_denies:
  assumes "ctx_path ctx = ''/containers/create''" and "ctx_body_json ctx = Some body"
    and "json_get body ''HostConfig.Privileged'' = Some (JBool True)"
  shows "evaluate_request x clk (template_block_privileged # rules) ctx rl
       = (Some (Deny 403 ''Privileged containers are not allowed''), rl)"
proof -
  have "rule_matches x template_block_privileged ctx"
    using assms
    by (simp add: rule_matches_def template_block_privileged_def create_path_def leaf_def rule_default_def evaluate_condition_def
        Let_def match_path_condition_def match_body_condition_def cond_string_def)
  then show ?thesis
    by (simp add: evaluate_request_def apply_rule_def block_decision_def is_dry_def template_block_privileged_def rule_default_def Let_def)
qed

section \<open>Witnesses\<close>

definition no_custom :: custom_answer where
  "no_custom =
     \<lparr>cu_name = ''c'', cu_action_idx = 0, cu_message = [],
      cu_condition = \<lparr>ca_field_idx = 0, ca_name = [], ca_operator_idx = 0, ca_value = []\<rparr>, cu_more_conditions = [],
      cu_role_idx = 0, cu_filter = \<lparr>fa_path = [], fa_action_idx = 0, fa_replacement = []\<rparr>, cu_more_filters = [],
      cu_requests = 50, cu_period = 30, cu_penalty = 30, cu_status = 403\<rparr>"

definition sample_answers :: setup_answers where
  "sample_answers = \<lparr>sa_port = 2376, sa_socket_path = [], sa_auth = ChooseNone,
     sa_chosen = map (\<lambda>i. (i, no_custom)) [0..<15]\<rparr>"

theorem wizard_config_loads_witness:
  "\<exists>cfg. load_from_path any_regex (file_world ''c'' []) (\<lambda>_. Inr (setup_config sample_answers)) ''c'' = Inr cfg
     \<and> forget_regexes cfg = setup_config sample_answers"
proof (rule wizard_config_loads)
  show "list_all plain_text (answer_texts sample_answers)" by code_simp
qed (auto simp: sample_answers_def no_custom_def any_regex_def no_external_def file_world_def no_overrides_def)

text \<open>The answers for: deny, when \<^verbatim>\<open>body.HostConfig.Privileged\<close> equals \<^verbatim>\<open>true\<close>.\<close>

definition privileged_answer :: custom_answer where
  "privileged_answer = no_custom\<lparr>cu_condition :=
     \<lparr>ca_field_idx = 4, ca_name = ''HostConfig.Privileged'', ca_operator_idx = 0, ca_value = ''true''\<rparr>\<rparr>"

definition privileged_request :: evaluation_context where
  "privileged_request = (get_request ''/containers/create'')\<lparr>ctx_body_json :=
     Some (JObject [(''HostConfig'', JObject [(''Privileged'', JBool True)])])\<rparr>"

theorem wizard_rule_inert_witness:
  "evaluate_request_detailed no_external (\<lambda>_. 0) [the (build_custom_rule privileged_answer)] privileged_request []
   = (Some decision_allow, [])"
proof -
  have b: "build_custom_rule privileged_answer = Some (the (build_custom_rule privileged_answer))"
    by (simp add: build_custom_rule_def privileged_answer_def no_custom_def custom_action_def Let_def)
  have i: "inert_condition (cu_condition privileged_answer) privileged_request"
    by (simp add: inert_condition_def privileged_answer_def privileged_request_def custom_operators_def json_get_def json_step_def)
  show ?thesis
    using wizard_rule_inert [OF b _ i, of no_external "\<lambda>_. 0" "[]" "[]"] by simp
qed

theorem wizard_none_denies_all_witness:
  "\<exists>code msg. authenticate no_external (0, 0) (setup_config sample_answers) (bearer ''x'') (V4 10 0 0 1) None fresh_state
     = (Some (Denied code msg), fresh_state) \<and> code \<in> {401, 429}"
  by (rule wizard_none_denies_all) (simp_all add: sample_answers_def fresh_state_def)

theorem privileged_template_denies_witness:
  "fst (evaluate_request no_external (\<lambda>_. 0) [template_block_privileged]
     ((get_request ''/containers/create'')\<lparr>ctx_body_json := Some (JObject [(''HostConfig'', JObject [(''Privileged'', JBool True)])])\<rparr>) [])
   = Some (Deny 403 ''Privileged containers are not allowed'')"
  by (subst privileged_template_denies [where body = "JObject [(''HostConfig'', JObject [(''Privileged'', JBool True)])]"])
     (simp_all add: get_request_def json_get_def json_step_def)

end
