(* ===== verification/Request_Log.thy ===== *)
theory Request_Log
  imports Net_Addr
begin

text \<open>
  The request log, \<^verbatim>\<open>src/main.rs\<close> (\<^verbatim>\<open>sanitize_for_log\<close>, \<^verbatim>\<open>log_request\<close>): one line for every answered
  request. A line is a sequence of Unicode scalar values, what Rust calls \<^verbatim>\<open>char\<close>;
  \<^verbatim>\<open>is_control\<close> is the category Cc. The time stamp is formatted by \<^verbatim>\<open>chrono\<close> and the method is
  checked by \<^verbatim>\<open>hyper\<close>: both are arguments.
\<close>

definition char_is_control :: "nat \<Rightarrow> bool" where
  "char_is_control c = (c \<le> 0x1F \<or> (0x7F \<le> c \<and> c \<le> 0x9F))"

definition sanitize_for_log :: "nat list \<Rightarrow> nat list" where
  "sanitize_for_log s =
     map (\<lambda>c. if char_is_control c \<or> c = 0x22 \<or> c = 0x5C then 0x3F else c) (take 256 s)"

definition codes :: "string \<Rightarrow> nat list" where
  "codes s = map of_char s"

text \<open>The text of the \<^verbatim>\<open>info!\<close> line.\<close>

definition log_request :: "nat list \<Rightarrow> ip_addr \<Rightarrow> nat list \<Rightarrow> nat list \<Rightarrow> nat list \<Rightarrow> u16 \<Rightarrow> nat list" where
  "log_request now peer_ip method path user_agent status =
     codes ''['' @ now @ codes ''] '' @ codes (show_ip peer_ip) @ codes '' '' @ method @ codes '' ''
       @ sanitize_for_log path @ codes '' - '' @ codes (show_nat (unat status)) @ codes '' - ''
       @ [0x22] @ sanitize_for_log user_agent @ [0x22]"

section \<open>A line cannot be forged\<close>

lemma sanitize_for_log_safe:
  "c \<in> set (sanitize_for_log s) \<Longrightarrow> \<not> char_is_control c \<and> c \<noteq> 0x22 \<and> c \<noteq> 0x5C"
  by (auto simp: sanitize_for_log_def char_is_control_def)

lemma show_radix_chars:
  assumes "2 \<le> b" and "b \<le> 16" and "c \<in> set (show_radix b n)"
  shows "\<exists>d < b. c = digit_char d"
  using assms(3)
proof (induction n rule: less_induct)
  case (less n)
  show ?case
  proof (cases "n < b")
    case True
    with less.prems show ?thesis using assms(1) by (auto simp: show_radix.simps [of b n])
  next
    case False
    then have "n div b < n" using assms(1) by simp
    moreover have "c \<in> set (show_radix b (n div b)) \<or> c = digit_char (n mod b)"
      using less.prems False assms(1) by (auto simp: show_radix.simps [of b n])
    moreover have "n mod b < b" using assms(1) by simp
    ultimately show ?thesis using less.IH by blast
  qed
qed

text \<open>Characters that end no field of the line.\<close>

definition plain_char :: "char \<Rightarrow> bool" where
  "plain_char c = (\<not> char_is_control (of_char c) \<and> of_char c \<noteq> (0x20 :: nat) \<and> of_char c \<noteq> (0x22 :: nat))"

lemma show_radix_plain:
  assumes "2 \<le> b" and "b \<le> 16" and "c \<in> set (show_radix b n)"
  shows "plain_char c"
proof -
  obtain d where "d < b" "c = digit_char d" using show_radix_chars [OF assms] by blast
  with assms(2) show ?thesis by (auto simp: plain_char_def digit_char_def char_is_control_def)
qed

lemma show_nat_plain: "c \<in> set (show_nat n) \<Longrightarrow> plain_char c"
  unfolding show_nat_def by (rule show_radix_plain [of 10]) simp_all

lemma join_with_set: "set (join_with c xs) \<subseteq> insert c (\<Union> (set ` set xs))"
  by (induction xs rule: join_with.induct) auto

lemma show_ip_plain: "c \<in> set (show_ip ip) \<Longrightarrow> plain_char c"
proof -
  assume c: "c \<in> set (show_ip ip)"
  have dot: "plain_char CHR ''.''" "plain_char CHR '':''" "plain_char CHR ''f''"
    by (simp_all add: plain_char_def char_is_control_def)
  have v4: "plain_char c" if "c \<in> set (show_ipv4 x y z w)" for x y z w
    using that dot by (auto simp: show_ipv4_def dest: show_nat_plain)
  have gs: "plain_char c" if "c \<in> set (show_groups gs)" for gs
  proof -
    have "c = CHR '':'' \<or> (\<exists>g. c \<in> set (show_radix 16 (unat (g :: u16))))"
      using that join_with_set [of "CHR '':''" "map (\<lambda>g. show_radix 16 (unat g)) gs"]
      unfolding show_groups_def by auto
    then show ?thesis using dot(2) show_radix_plain [of 16 c] by auto
  qed
  show ?thesis
  proof (cases ip)
    case (V4 x y z w)
    with c v4 show ?thesis by simp
  next
    case (V6 gs')
    with c v4 gs dot show ?thesis
      by (auto simp: show_ipv6_def split: if_splits prod.splits)
  qed
qed

lemma first_split:
  "x \<notin> set xs \<Longrightarrow> x \<notin> set xs' \<Longrightarrow> xs @ x # ys = xs' @ x # ys' \<longleftrightarrow> xs = xs' \<and> ys = ys'"
  by (auto simp: append_eq_append_conv2 append_eq_Cons_conv Cons_eq_append_conv)

lemma last_split:
  assumes "x \<notin> set ys" and "x \<notin> set ys'"
  shows "xs @ x # ys = xs' @ x # ys' \<longleftrightarrow> xs = xs' \<and> ys = ys'"
proof -
  have "xs @ x # ys = xs' @ x # ys' \<longleftrightarrow> rev ys @ x # rev xs = rev ys' @ x # rev xs'"
    by (metis (no_types, lifting) append.assoc append_Cons append_Nil rev.simps(2) rev_append rev_rev_ident)
  then show ?thesis using first_split [of x "rev ys" "rev ys'"] assms by auto
qed

text \<open>What \<^verbatim>\<open>chrono\<close> and \<^verbatim>\<open>hyper\<close> guarantee of a time stamp and of a method.\<close>

definition is_stamp :: "nat list \<Rightarrow> bool" where
  "is_stamp s = list_all (\<lambda>c. \<not> char_is_control c \<and> c \<noteq> 0x5D \<and> c \<noteq> 0x22) s"

definition is_token :: "nat list \<Rightarrow> bool" where
  "is_token s = list_all (\<lambda>c. \<not> char_is_control c \<and> c \<noteq> 0x20 \<and> c \<noteq> 0x22) s"

lemma codes_plain:
  assumes "\<And>c. c \<in> set s \<Longrightarrow> plain_char c"
  shows "is_token (codes s)"
  using assms by (auto simp: is_token_def codes_def plain_char_def list_all_iff)

lemma log_fields:
  "is_token (codes (show_ip ip))" "is_token (codes (show_nat n))"
  by (rule codes_plain, erule show_ip_plain show_nat_plain)+

lemma codes_show_nat_inj: "codes (show_nat m) = codes (show_nat n) \<Longrightarrow> m = n"
proof -
  assume "codes (show_nat m) = codes (show_nat n)"
  then have "show_nat m = show_nat n"
    unfolding codes_def by (metis inj_map_eq_map inj_of_char)
  then show ?thesis by (metis digits_value_show_nat option.inject)
qed

lemma codes_inj: "codes s = codes t \<longleftrightarrow> s = t"
  unfolding codes_def by (metis inj_map_eq_map inj_of_char)

text \<open>The fields are found again from the left up to the method and from the right up to the path.\<close>

definition log_head :: "nat list \<Rightarrow> ip_addr \<Rightarrow> nat list \<Rightarrow> nat list \<Rightarrow> nat list" where
  "log_head now ip m rest = 0x5B # now @ 0x5D # 0x20 # codes (show_ip ip) @ 0x20 # m @ 0x20 # rest"

definition log_outcome :: "nat list \<Rightarrow> u16 \<Rightarrow> nat list" where
  "log_outcome p st = (sanitize_for_log p @ [0x20, 0x2D]) @ 0x20 # codes (show_nat (unat st))"

lemma log_request_split:
  "log_request now ip m p ua st
     = log_head now ip m (log_outcome p st @ [0x20, 0x2D, 0x20]) @ 0x22 # sanitize_for_log ua @ [0x22]"
  by (simp add: log_request_def log_head_def log_outcome_def codes_def)

lemma token_char: "is_token s \<Longrightarrow> c \<in> set s \<Longrightarrow> \<not> char_is_control c \<and> c \<noteq> 0x20 \<and> c \<noteq> 0x22"
  by (auto simp: is_token_def list_all_iff)

lemma stamp_char: "is_stamp s \<Longrightarrow> c \<in> set s \<Longrightarrow> \<not> char_is_control c \<and> c \<noteq> 0x5D \<and> c \<noteq> 0x22"
  by (auto simp: is_stamp_def list_all_iff)

lemma log_head_inj:
  assumes "is_stamp now" "is_stamp now'" and "is_token m" "is_token m'"
  shows "log_head now ip m t = log_head now' ip' m' t'
           \<longleftrightarrow> now = now' \<and> show_ip ip = show_ip ip' \<and> m = m' \<and> t = t'"
proof -
  have n: "0x5D \<notin> set now" "0x5D \<notin> set now'" using assms stamp_char by blast+
  have i: "0x20 \<notin> set (codes (show_ip ip))" "0x20 \<notin> set (codes (show_ip ip'))"
    using log_fields token_char by blast+
  have m: "0x20 \<notin> set m" "0x20 \<notin> set m'" using assms token_char by blast+
  show ?thesis unfolding log_head_def by (simp add: first_split [OF n] first_split [OF i] first_split [OF m] codes_inj)
qed

lemma log_outcome_inj:
  "log_outcome p st = log_outcome p' st' \<longleftrightarrow> sanitize_for_log p = sanitize_for_log p' \<and> st = st'"
proof -
  have n: "0x20 \<notin> set (codes (show_nat (unat st)))" "0x20 \<notin> set (codes (show_nat (unat st')))"
    using log_fields token_char by blast+
  have "codes (show_nat (unat st)) = codes (show_nat (unat st')) \<longleftrightarrow> st = st'"
    using codes_show_nat_inj by (auto simp: word_unat_eq_iff)
  then show ?thesis unfolding log_outcome_def by (simp only: last_split [OF n] append_same_eq)
qed

lemma log_front_char:
  assumes "is_stamp now" "is_token m" and "c \<in> set (log_head now ip m (log_outcome p st @ [0x20, 0x2D, 0x20]))"
  shows "\<not> char_is_control c \<and> c \<noteq> 0x22"
proof -
  consider "c \<in> set now" | "c \<in> set (codes (show_ip ip))" | "c \<in> set m" | "c \<in> set (sanitize_for_log p)"
    | "c \<in> set (codes (show_nat (unat st)))" | "c \<in> {0x5B, 0x5D, 0x20, 0x2D}"
    using assms(3) by (auto simp: log_head_def log_outcome_def)
  then show ?thesis
  proof cases
    case 6
    then show ?thesis by (auto simp: char_is_control_def)
  qed (use assms(1,2) stamp_char token_char log_fields sanitize_for_log_safe in blast)+
qed

text \<open>
  A client cannot forge the log: a request's entry is a single line without control characters,
  and two entries that read the same have the same time, address, method, status and the same
  sanitised path and user agent. In particular no path or agent makes a refused request look
  like an admitted one.
\<close>

theorem log_line_unforgeable:
  assumes "is_stamp now" "is_stamp now'" and "is_token m" "is_token m'" and "addr_wf ip" "addr_wf ip'"
  shows "list_all (\<lambda>c. \<not> char_is_control c) (log_request now ip m p ua st)
    \<and> (log_request now ip m p ua st = log_request now' ip' m' p' ua' st' \<longrightarrow>
         now = now' \<and> ip = ip' \<and> m = m' \<and> st = st'
         \<and> sanitize_for_log p = sanitize_for_log p' \<and> sanitize_for_log ua = sanitize_for_log ua')"
proof (intro conjI impI)
  note front = log_front_char [OF assms(1,3)] log_front_char [OF assms(2,4)]
  show "list_all (\<lambda>c. \<not> char_is_control c) (log_request now ip m p ua st)"
    using front(1) sanitize_for_log_safe [of _ ua] unfolding log_request_split list_all_iff
    by (auto simp: char_is_control_def)
  assume "log_request now ip m p ua st = log_request now' ip' m' p' ua' st'"
  then have eq: "log_head now ip m (log_outcome p st @ [0x20, 0x2D, 0x20])
        = log_head now' ip' m' (log_outcome p' st' @ [0x20, 0x2D, 0x20])
      \<and> sanitize_for_log ua @ [0x22] = sanitize_for_log ua' @ [0x22]"
    unfolding log_request_split using front by (subst (asm) first_split) blast+
  then show "sanitize_for_log ua = sanitize_for_log ua'" by simp
  from eq show "now = now'" "ip = ip'" "m = m'" "st = st'" "sanitize_for_log p = sanitize_for_log p'"
    by (simp_all add: log_head_inj [OF assms(1-4)] log_outcome_inj show_ip_inject [OF assms(5,6)])
qed

theorem log_line_unforgeable_witness:
  "list_all (\<lambda>c. \<not> char_is_control c)
     (log_request (codes ''01/02/2025 03:04:05'') (V4 10 0 0 1) (codes ''GET'') (codes ''/x - 200 - '') [0x0A, 0x22, 0x41] 403)"
  using log_line_unforgeable [of "codes ''01/02/2025 03:04:05''" "codes ''01/02/2025 03:04:05''" "codes ''GET''" "codes ''GET''"
      "V4 10 0 0 1" "V4 10 0 0 1"]
  by (simp add: is_stamp_def is_token_def codes_def char_is_control_def)

end
