(* ===== verification/Interleaving.thy ===== *)
theory Interleaving
  imports Server
begin

text \<open>
  Concurrent requests. \<^verbatim>\<open>handle\<close> gives up its thread where it awaits: while it reads the body and
  while it talks to Docker. Between those points other requests, the sweeper, the audit task and
  a reload may change the shared state. This theory cuts the handler at its awaits, shows that the
  pieces put together are the handler, and lets the pieces of different requests interleave in
  any order with each other and with the steps of the server.
\<close>

section \<open>The handler in pieces\<close>

datatype docker_call = PlainCall bytes "response_filter_entry list" | UpgradeCall

text \<open>A suspended request, with its outcomes, itself and the local variables of the handler.\<close>

datatype task = AwaitBody effects request locals | AwaitDocker effects request locals docker_call

text \<open>Rules, dry run and denial: what both kinds of request do before they turn to Docker.\<close>

definition decide ::
    "external \<Rightarrow> effects \<Rightarrow> request \<Rightarrow> locals \<Rightarrow> json option \<Rightarrow> bool \<Rightarrow> docker_call \<Rightarrow> proxy_state \<Rightarrow>
       (response option + docker_call) \<times> proxy_state" where
  "decide x fx rq lc body_json count_limited call st =
     (case run_rules x fx rq lc body_json st of
        (None, st1) \<Rightarrow> (Inl None, st1)
      | (Some d, st1) \<Rightarrow>
          (let st2 = note_dry_run fx rq lc d st1
           in case d_result d of
                Deny status message \<Rightarrow>
                  (let (r, _, st3) = deny_request x fx rq lc d status message count_limited st2 in (Inl r, st3))
              | Allow \<Rightarrow> (Inr call, st2)))"

definition decide_upgrade ::
    "external \<Rightarrow> effects \<Rightarrow> request \<Rightarrow> locals \<Rightarrow> proxy_state \<Rightarrow> (response option + task) \<times> proxy_state" where
  "decide_upgrade x fx rq lc st =
     (case decide x fx rq lc None False UpgradeCall (upd_metrics inc_upgrade_total st) of
        (Inl r, st1) \<Rightarrow> (Inl r, st1)
      | (Inr call, st1) \<Rightarrow> (Inr (AwaitDocker fx rq lc call), upd_metrics inc_requests_allowed st1))"

text \<open>From the arrival of the request to the first await.\<close>

definition handle_begin ::
    "external \<Rightarrow> effects \<Rightarrow> request \<Rightarrow> proxy_state \<Rightarrow> (response option + task) \<times> proxy_state" where
  "handle_begin x fx rq st0 =
     (let st = upd_metrics inc_requests_total st0
      in case canonicalize_path (rq_path rq) of
           None \<Rightarrow> (Inl (Some (make_response 400 ''Malformed request path'')), upd_metrics inc_bad_request_total st)
         | Some path \<Rightarrow>
             if \<not> query_ok (rq_query rq) then
               (Inl (Some (make_response 400 ''Malformed query string'')), upd_metrics inc_bad_request_total st)
             else
               (let config = current_config st
                in case authenticate x (fx_auth_clock fx) config (rq_headers rq) (rq_peer rq) (rq_cert rq) st of
                     (None, st1) \<Rightarrow> (Inl None, st1)
                   | (Some (Denied status msg), st1) \<Rightarrow>
                       (let (r, _, st2) = refuse_unauthenticated x fx rq path status msg st1 in (Inl r, st2))
                   | (Some (Allowed role identity), st1) \<Rightarrow>
                       if is_metrics_request rq path st1 then
                         (Inl (Some (make_response_bytes 200 ''text/plain; version=0.0.4; charset=utf-8''
                                       (render_prometheus (ps_metrics st1)))), st1)
                       else
                         (let lc = make_locals x rq config path role identity
                          in if is_upgrade_request x (rq_headers rq)
                             then decide_upgrade x fx rq lc st1
                             else (Inr (AwaitBody fx rq lc), st1))))"

text \<open>From the end of the body to the connection to Docker.\<close>

definition resume_body ::
    "external \<Rightarrow> effects \<Rightarrow> request \<Rightarrow> locals \<Rightarrow> proxy_state \<Rightarrow> (response option + docker_call) \<times> proxy_state" where
  "resume_body x fx rq lc st =
     (case fx_body fx MAX_REQ_BODY_BYTES of
        Failed LengthLimit \<Rightarrow> (Inl (Some (make_response 413 ''Request body too large'')), upd_metrics inc_body_too_large_total st)
      | Failed BodyError \<Rightarrow> (Inl (Some (make_response 400 ''Request body invalid'')), upd_metrics inc_bad_request_total st)
      | Elapsed \<Rightarrow> (Inl (Some (make_response 408 ''Request body read timeout'')), upd_metrics inc_request_timeouts_total st)
      | Done body \<Rightarrow>
          (case parse_body x (lc_path lc) body of
             Inl msg \<Rightarrow> (Inl (Some (make_response_string 400 msg)), upd_metrics inc_bad_request_total st)
           | Inr body_json \<Rightarrow>
               decide x fx rq lc body_json True
                 (PlainCall body (collect_response_filters x (lc_rules lc) (eval_context rq lc body_json))) st))"

text \<open>From the connection to Docker to the response; the state changes once, at the end.\<close>

definition resume_docker ::
    "external \<Rightarrow> effects \<Rightarrow> request \<Rightarrow> locals \<Rightarrow> docker_call \<Rightarrow> proxy_state \<Rightarrow> handled" where
  "resume_docker x fx rq lc call st =
     (case call of
        PlainCall body filters \<Rightarrow>
          call_docker x fx rq lc [(''connection'', ''close'')] body (finish_response x fx filters) st
      | UpgradeCall \<Rightarrow> handle_upgrade x fx rq lc st)"

section \<open>The pieces make the handler\<close>

fun run_task :: "external \<Rightarrow> task \<Rightarrow> proxy_state \<Rightarrow> handled" where
  "run_task x (AwaitBody fx rq lc) st =
     (case resume_body x fx rq lc st of
        (Inl r, st1) \<Rightarrow> (r, [], st1)
      | (Inr call, st1) \<Rightarrow> resume_docker x fx rq lc call st1)"
| "run_task x (AwaitDocker fx rq lc call) st = resume_docker x fx rq lc call st"

definition handle_in_pieces :: "external \<Rightarrow> effects \<Rightarrow> request \<Rightarrow> proxy_state \<Rightarrow> handled" where
  "handle_in_pieces x fx rq st =
     (case handle_begin x fx rq st of
        (Inl r, st1) \<Rightarrow> (r, [], st1)
      | (Inr t, st1) \<Rightarrow> run_task x t st1)"

lemma deny_request_quiet:
  "(fst (deny_request x fx rq lc d status msg b st), [], snd (snd (deny_request x fx rq lc d status msg b st)))
     = deny_request x fx rq lc d status msg b st"
  using deny_request_acts [of x fx rq lc d status msg b st] by (metis prod.collapse)

lemma decide_rejoined:
  "(case decide x fx rq lc bj b call st of
      (Inl r, st1) \<Rightarrow> (r, [], st1)
    | (Inr c, st1) \<Rightarrow> go c st1)
   = (case run_rules x fx rq lc bj st of
        (None, st1) \<Rightarrow> (None, [], st1)
      | (Some d, st1) \<Rightarrow>
          (let st2 = note_dry_run fx rq lc d st1
           in case d_result d of
                Deny status message \<Rightarrow> deny_request x fx rq lc d status message b st2
              | Allow \<Rightarrow> go call st2))"
  by (simp add: decide_def Let_def case_prod_beta deny_request_quiet split: option.split rule_result.split)

lemma plain_rejoined: "run_task x (AwaitBody fx rq lc) st = handle_plain x fx rq lc st"
  by (simp add: resume_body_def handle_plain_def forward_plain_def fail_def decide_rejoined resume_docker_def Let_def
      split: timed.split body_error.split sum.split prod.split option.split rule_result.split)

lemma upgrade_rejoined:
  "(case decide_upgrade x fx rq lc st of (Inl r, st1) \<Rightarrow> (r, [], st1) | (Inr t, st1) \<Rightarrow> run_task x t st1)
     = handle_upgrade_request x fx rq lc st"
proof -
  let ?u = "upd_metrics inc_upgrade_total st"
  have "(case decide_upgrade x fx rq lc st of (Inl r, st1) \<Rightarrow> (r, [], st1) | (Inr t, st1) \<Rightarrow> run_task x t st1)
     = (case decide x fx rq lc None False UpgradeCall ?u of
          (Inl r, st1) \<Rightarrow> (r, [], st1)
        | (Inr c, st1) \<Rightarrow> resume_docker x fx rq lc c (upd_metrics inc_requests_allowed st1))"
    by (simp add: decide_upgrade_def split: prod.split sum.split)
  also have "\<dots> = handle_upgrade_request x fx rq lc st"
    unfolding decide_rejoined handle_upgrade_request_def
    by (simp add: resume_docker_def Let_def split: prod.split option.split rule_result.split)
  finally show ?thesis .
qed

text \<open>
  The pieces are the handler: run one after the other without interruption, they give the
  response, the actions and the state of \<^const>\<open>handle\<close>.
\<close>

lemma handle_pieces: "handle x fx rq st = handle_in_pieces x fx rq st"
  unfolding handle_in_pieces_def handle_begin_def handle_def
  by (simp add: Let_def fail_def refuse_unauthenticated_def upgrade_rejoined [symmetric] plain_rejoined [simplified]
      split: option.split prod.split auth_outcome.split)


section \<open>The pieces and the shared state\<close>

context handler_frame begin

lemma R_decide:
  assumes "admits lc"
  shows "R st (snd (decide x fx rq lc bj b call st))"
proof -
  obtain r st1 where r: "run_rules x fx rq lc bj st = (r, st1)" by fastforce
  have "snd (decide x fx rq lc bj b call st) = snd (snd (case r of
     None \<Rightarrow> (None, [], st1)
   | Some d \<Rightarrow> (case d_result d of
        Deny status message \<Rightarrow> deny_request x fx rq lc d status message b (note_dry_run fx rq lc d st1)
      | Allow \<Rightarrow> (None, [], note_dry_run fx rq lc d st1))))"
    by (simp add: decide_def r Let_def case_prod_beta split: option.split rule_result.split)
  with R_after_rules [OF r assms, of "\<lambda>d. (None, [], note_dry_run fx rq lc d st1)" b] R_refl show ?thesis by simp
qed

lemma R_decide_upgrade:
  assumes "admits lc"
  shows "R st (snd (decide_upgrade x fx rq lc st))"
proof -
  let ?u = "upd_metrics inc_upgrade_total st"
  obtain r st1 where d: "decide x fx rq lc None False UpgradeCall ?u = (r, st1)" by fastforce
  have "R st ?u" by (rule R_metrics) simp
  moreover have "R ?u st1" using R_decide [OF assms, of ?u x fx rq None False UpgradeCall] d by simp
  ultimately have 1: "R st st1" by (rule R_trans)
  have "R st1 (upd_metrics inc_requests_allowed st1)" by (rule R_metrics) simp
  with 1 have "R st (upd_metrics inc_requests_allowed st1)" by (rule R_trans)
  with 1 show ?thesis by (simp add: decide_upgrade_def d split: sum.split)
qed

lemma R_handle_begin:
  assumes "rq_peer rq = peer" and "\<And>path role identity. admits (make_locals x rq (current_config st) path role identity)"
  shows "R st (snd (handle_begin x fx rq st))"
proof -
  let ?st = "upd_metrics inc_requests_total st"
  have 1: "R st ?st" by (rule R_metrics) simp
  have ok: "admits (make_locals x rq (current_config ?st) path role identity)" for path role identity
    using assms(2) by (simp add: current_config_def upd_metrics_def)
  have bad: "R ?st (upd_metrics inc_bad_request_total ?st)" by (rule R_metrics) simp
  obtain r st1 where a: "authenticate x (fx_auth_clock fx) (current_config ?st) (rq_headers rq) (rq_peer rq) (rq_cert rq) ?st = (r, st1)"
    by fastforce
  have 2: "R ?st st1" using R_auth [of ?st] a assms(1) by (metis snd_conv)
  have "R st1 (snd (snd (refuse_unauthenticated x fx rq path status msg st1)))" for path status msg
    using R_trans [OF R_metrics R_audit, of inc_requests_denied st1]
    by (simp add: refuse_unauthenticated_def Let_def)
  then have "R ?st (snd (handle_begin x fx rq st))"
    using a bad 2
    by (simp add: handle_begin_def Let_def case_prod_beta R_trans [OF 2] R_decide_upgrade ok split: option.split auth_outcome.split)
  with 1 show ?thesis by (rule R_trans)
qed

lemma R_resume_body: "admits lc \<Longrightarrow> R st (snd (resume_body x fx rq lc st))"
  by (auto simp: resume_body_def R_metrics R_decide split: timed.splits body_error.splits sum.splits)

lemma R_resume_docker: "R st (snd (snd (resume_docker x fx rq lc call st)))"
  by (auto simp: resume_docker_def handle_upgrade_def finish_upgrade_def case_prod_beta Let_def R_refl
      intro!: R_call_docker R_finish_response split: docker_call.split)

end

section \<open>Interleavings\<close>

text \<open>The identity a connection carries, if its handshake succeeds.\<close>

definition session_cert ::
    "tls_lib \<Rightarrow> server_config option \<Rightarrow> (string, bytes list option) timed \<Rightarrow> cert_identity option option" where
  "session_cert l tls_acceptor handshake =
     (case tls_acceptor of
        None \<Rightarrow> Some None
      | Some _ \<Rightarrow> (case handshake of Done certs \<Rightarrow> Some (peer_identity l certs) | _ \<Rightarrow> None))"

lemma serve_conn_session:
  "serve_conn x l acc handshake fx rq st
     = map_option (\<lambda>cert. handle x fx (rq\<lparr>rq_cert := cert\<rparr>) st) (session_cert l acc handshake)"
  by (auto simp: serve_conn_def serve_plain_def serve_tls_def session_cert_def split: option.split timed.split)

text \<open>
  The server with the requests it is working on. A request begins on an open connection; a
  suspended one goes on, or is dropped when its connection closes; meanwhile the server makes
  any of its steps.
\<close>

type_synonym busy_server = "server \<times> task list"

inductive busy_step :: "external \<Rightarrow> (string \<Rightarrow> string + proxy_config) \<Rightarrow> busy_server \<Rightarrow> busy_server \<Rightarrow> bool" for x from_str where
  busy_server: "server_step x from_str s s' \<Longrightarrow> busy_step x from_str (s, ts) (s', ts)"
| busy_answer: "(g, acc) \<in> set (sv_live s) \<Longrightarrow> session_cert l acc handshake = Some cert \<Longrightarrow>
    handle_begin x fx (rq\<lparr>rq_cert := cert\<rparr>) (sv_proxy s) = (Inl r, st) \<Longrightarrow>
    busy_step x from_str (s, ts) (s\<lparr>sv_proxy := st\<rparr>, ts)"
| busy_begin: "(g, acc) \<in> set (sv_live s) \<Longrightarrow> session_cert l acc handshake = Some cert \<Longrightarrow>
    handle_begin x fx (rq\<lparr>rq_cert := cert\<rparr>) (sv_proxy s) = (Inr t, st) \<Longrightarrow>
    busy_step x from_str (s, ts) (s\<lparr>sv_proxy := st\<rparr>, t # ts)"
| busy_refuse: "AwaitBody fx rq lc \<in> set ts \<Longrightarrow> resume_body x fx rq lc (sv_proxy s) = (Inl r, st) \<Longrightarrow>
    busy_step x from_str (s, ts) (s\<lparr>sv_proxy := st\<rparr>, remove1 (AwaitBody fx rq lc) ts)"
| busy_forward: "AwaitBody fx rq lc \<in> set ts \<Longrightarrow> resume_body x fx rq lc (sv_proxy s) = (Inr call, st) \<Longrightarrow>
    busy_step x from_str (s, ts) (s\<lparr>sv_proxy := st\<rparr>, AwaitDocker fx rq lc call # remove1 (AwaitBody fx rq lc) ts)"
| busy_docker: "AwaitDocker fx rq lc call \<in> set ts \<Longrightarrow> resume_docker x fx rq lc call (sv_proxy s) = (resp, acts, st) \<Longrightarrow>
    busy_step x from_str (s, ts) (served acts st s, remove1 (AwaitDocker fx rq lc call) ts)"
| busy_drop: "busy_step x from_str (s, ts) (s, remove1 t ts)"

definition busy_start :: "external \<Rightarrow> (string \<Rightarrow> string + proxy_config) \<Rightarrow> busy_server \<Rightarrow> bool" where
  "busy_start x from_str c = (server_start x from_str (fst c) \<and> snd c = [])"

definition busy_reachable :: "external \<Rightarrow> (string \<Rightarrow> string + proxy_config) \<Rightarrow> busy_server \<Rightarrow> bool" where
  "busy_reachable x from_str c = (\<exists>c0. busy_start x from_str c0 \<and> (busy_step x from_str)\<^sup>*\<^sup>* c0 c)"

lemma busy_server_inv:
  assumes "busy_step x from_str c c'" and "server_inv x (fst c)"
  shows "server_inv x (fst c')"
  using assms
proof (cases rule: busy_step.cases)
  case (busy_answer g acc s l handshake cert fx rq r st)
  with assms(2) kept.R_handle_begin [OF refl TrueI, of "sv_proxy s" x fx "rq\<lparr>rq_cert := cert\<rparr>"] show ?thesis
    by (simp add: keeps_server_inv)
next
  case (busy_begin g acc s l handshake cert fx rq t st)
  with assms(2) kept.R_handle_begin [OF refl TrueI, of "sv_proxy s" x fx "rq\<lparr>rq_cert := cert\<rparr>"] show ?thesis
    by (simp add: keeps_server_inv)
next
  case (busy_refuse fx rq lc ts s r st)
  with assms(2) kept.R_resume_body [OF TrueI, of "sv_proxy s" x fx rq lc] show ?thesis by (simp add: keeps_server_inv)
next
  case (busy_forward fx rq lc ts s call st)
  with assms(2) kept.R_resume_body [OF TrueI, of "sv_proxy s" x fx rq lc] show ?thesis by (simp add: keeps_server_inv)
next
  case (busy_docker fx rq lc call ts s resp acts st)
  with assms(2) kept.R_resume_docker [of "sv_proxy s" x fx rq lc call] show ?thesis by (simp add: served_server_inv)
qed (auto intro: server_inv_step)


section \<open>Every suspended request is authorised\<close>

text \<open>
  The request was admitted in an earlier state \<open>c1\<close>, under the configuration that was active
  then, and its local variables hold that configuration's rules.
\<close>

definition admitted_at ::
    "external \<Rightarrow> busy_server \<Rightarrow> effects \<Rightarrow> request \<Rightarrow> locals \<Rightarrow> bool" where
  "admitted_at x c1 fx rq lc =
     (\<exists>path role identity st1. canonicalize_path (rq_path rq) = Some path \<and> query_ok (rq_query rq)
        \<and> authenticate x (fx_auth_clock fx) (current_config (sv_proxy (fst c1))) (rq_headers rq) (rq_peer rq) (rq_cert rq)
             (upd_metrics inc_requests_total (sv_proxy (fst c1))) = (Some (Allowed role identity), st1)
        \<and> lc = make_locals x rq (current_config (sv_proxy (fst c1))) path role identity)"

text \<open>The rules allowed it in state \<open>c2\<close>, on the body \<open>body_json\<close>.\<close>

definition allowed_at ::
    "external \<Rightarrow> busy_server \<Rightarrow> effects \<Rightarrow> request \<Rightarrow> locals \<Rightarrow> json option \<Rightarrow> bool" where
  "allowed_at x c2 fx rq lc body_json =
     is_some_and (fst (evaluate_request_detailed x (fx_rule_clock fx) (lc_rules lc) (eval_context rq lc body_json)
                         (ps_rate_limiter (sv_proxy (fst c2)))))
       (\<lambda>d. d_result d = Allow)"

definition call_matches :: "external \<Rightarrow> locals \<Rightarrow> docker_call \<Rightarrow> json option \<Rightarrow> bool" where
  "call_matches x lc call body_json =
     (case call of
        PlainCall body filters \<Rightarrow> parse_body x (lc_path lc) body = Inr body_json
      | UpgradeCall \<Rightarrow> body_json = None)"

definition was_admitted ::
    "external \<Rightarrow> (string \<Rightarrow> string + proxy_config) \<Rightarrow> busy_server \<Rightarrow> effects \<Rightarrow> request \<Rightarrow> locals \<Rightarrow> bool" where
  "was_admitted x from_str c fx rq lc =
     (\<exists>c1. busy_reachable x from_str c1 \<and> (busy_step x from_str)\<^sup>*\<^sup>* c1 c \<and> admitted_at x c1 fx rq lc)"

fun task_ok :: "external \<Rightarrow> (string \<Rightarrow> string + proxy_config) \<Rightarrow> busy_server \<Rightarrow> task \<Rightarrow> bool" where
  "task_ok x from_str c (AwaitBody fx rq lc) = was_admitted x from_str c fx rq lc"
| "task_ok x from_str c (AwaitDocker fx rq lc call) =
     (\<exists>c2 body_json. was_admitted x from_str c2 fx rq lc \<and> (busy_step x from_str)\<^sup>*\<^sup>* c2 c
        \<and> allowed_at x c2 fx rq lc body_json \<and> call_matches x lc call body_json)"

lemma was_admitted_mono:
  "was_admitted x from_str c fx rq lc \<Longrightarrow> (busy_step x from_str)\<^sup>*\<^sup>* c c' \<Longrightarrow> was_admitted x from_str c' fx rq lc"
  unfolding was_admitted_def by (blast intro: rtranclp_trans)

lemma task_ok_mono: "task_ok x from_str c t \<Longrightarrow> (busy_step x from_str)\<^sup>*\<^sup>* c c' \<Longrightarrow> task_ok x from_str c' t"
  by (cases t) (auto intro: was_admitted_mono rtranclp_trans)

lemma task_ok_now:
  "was_admitted x from_str c fx rq lc \<Longrightarrow> allowed_at x c fx rq lc bj \<Longrightarrow> call_matches x lc call bj \<Longrightarrow>
     task_ok x from_str c (AwaitDocker fx rq lc call)"
  unfolding task_ok.simps by blast

lemma decide_Inr:
  assumes "decide x fx rq lc bj b call st = (Inr call', st')"
  shows "call' = call" and "is_some_and (fst (evaluate_request_detailed x (fx_rule_clock fx) (lc_rules lc) (eval_context rq lc bj)
            (ps_rate_limiter st))) (\<lambda>d. d_result d = Allow)"
  using assms
  by (auto simp: decide_def run_rules_def2 Let_def is_some_and_def split: option.splits rule_result.splits prod.splits)

lemma handle_begin_Inr:
  assumes "handle_begin x fx rq (sv_proxy s) = (Inr t, st)"
  obtains lc where "admitted_at x (s, ts) fx rq lc"
    and "t = AwaitBody fx rq lc \<or> t = AwaitDocker fx rq lc UpgradeCall \<and> allowed_at x (s, ts) fx rq lc None"
proof -
  let ?st = "upd_metrics inc_requests_total (sv_proxy s)"
  have cfg: "current_config ?st = current_config (sv_proxy s)" and rl: "ps_rate_limiter ?st = ps_rate_limiter (sv_proxy s)"
    by (simp_all add: current_config_def upd_metrics_def)
  obtain r st1 where a: "authenticate x (fx_auth_clock fx) (current_config (sv_proxy s)) (rq_headers rq) (rq_peer rq) (rq_cert rq) ?st = (r, st1)"
    by fastforce
  from assms obtain path role identity where p: "canonicalize_path (rq_path rq) = Some path" "query_ok (rq_query rq)"
    and r: "r = Some (Allowed role identity)"
    and t: "(if is_upgrade_request x (rq_headers rq) then decide_upgrade x fx rq (make_locals x rq (current_config (sv_proxy s)) path role identity) st1
        else (Inr (AwaitBody fx rq (make_locals x rq (current_config (sv_proxy s)) path role identity)), st1)) = (Inr t, st)"
    using a by (auto simp: handle_begin_def cfg Let_def refuse_unauthenticated_def split: option.splits if_splits auth_outcome.splits)
  let ?lc = "make_locals x rq (current_config (sv_proxy s)) path role identity"
  show ?thesis
  proof (rule that)
    show "admitted_at x (s, ts) fx rq ?lc" unfolding admitted_at_def using p a r by auto
    show "t = AwaitBody fx rq ?lc \<or> t = AwaitDocker fx rq ?lc UpgradeCall \<and> allowed_at x (s, ts) fx rq ?lc None"
    proof (cases "is_upgrade_request x (rq_headers rq)")
      case True
      with t obtain call st2 where d: "decide x fx rq ?lc None False UpgradeCall (upd_metrics inc_upgrade_total st1) = (Inr call, st2)"
        and "t = AwaitDocker fx rq ?lc call"
        by (auto simp: decide_upgrade_def split: prod.splits sum.splits)
      with decide_Inr [OF d] authenticate_keeps(1) [OF a] rl show ?thesis by (simp add: allowed_at_def upd_metrics_def)
    next
      case False
      with t show ?thesis by simp
    qed
  qed
qed

lemma resume_body_Inr:
  assumes "resume_body x fx rq lc (sv_proxy s) = (Inr call, st)"
  shows "\<exists>body_json. allowed_at x (s, ts) fx rq lc body_json \<and> call_matches x lc call body_json"
proof -
  from assms obtain body bj where b: "parse_body x (lc_path lc) body = Inr bj"
    and d: "decide x fx rq lc bj True (PlainCall body (collect_response_filters x (lc_rules lc) (eval_context rq lc bj))) (sv_proxy s)
        = (Inr call, st)"
    by (auto simp: resume_body_def split: timed.splits body_error.splits sum.splits)
  from decide_Inr [OF d] b have "allowed_at x (s, ts) fx rq lc bj \<and> call_matches x lc call bj"
    by (simp add: allowed_at_def call_matches_def)
  then show ?thesis ..
qed

definition busy_inv :: "external \<Rightarrow> (string \<Rightarrow> string + proxy_config) \<Rightarrow> busy_server \<Rightarrow> bool" where
  "busy_inv x from_str c =
     (server_inv x (fst c) \<and> busy_reachable x from_str c \<and> (\<forall>t \<in> set (snd c). task_ok x from_str c t))"

lemma busy_inv_step:
  assumes "busy_step x from_str c c'" and "busy_inv x from_str c"
  shows "busy_inv x from_str c'"
proof -
  have reach: "busy_reachable x from_str c" and old: "\<And>t. t \<in> set (snd c) \<Longrightarrow> task_ok x from_str c t"
    and sv: "server_inv x (fst c)" using assms(2) by (auto simp: busy_inv_def)
  have step: "(busy_step x from_str)\<^sup>*\<^sup>* c c'" using assms(1) by simp
  have reach': "busy_reachable x from_str c'"
    using reach assms(1) unfolding busy_reachable_def by (blast intro: rtranclp.rtrancl_into_rtrancl)
  have kept: "t \<in> set (snd c) \<Longrightarrow> task_ok x from_str c' t" for t using task_ok_mono [OF old step] .
  have fresh: "was_admitted x from_str c fx rq lc" if "admitted_at x c fx rq lc" for fx rq lc
    using that reach unfolding was_admitted_def by blast
  have "task_ok x from_str c' t" if "t \<in> set (snd c')" for t
    using assms(1)
  proof (cases rule: busy_step.cases)
    case (busy_begin g acc s l handshake cert fx rq t' st ts)
    from handle_begin_Inr [OF busy_begin(5), of ts] obtain lc where
      "admitted_at x (s, ts) fx (rq\<lparr>rq_cert := cert\<rparr>) lc" and
      "t' = AwaitBody fx (rq\<lparr>rq_cert := cert\<rparr>) lc \<or>
       t' = AwaitDocker fx (rq\<lparr>rq_cert := cert\<rparr>) lc UpgradeCall \<and> allowed_at x (s, ts) fx (rq\<lparr>rq_cert := cert\<rparr>) lc None" .
    then have "task_ok x from_str c t'" using fresh busy_begin(1)
      by (elim disjE conjE) (simp_all add: task_ok_now call_matches_def del: task_ok.simps(2))
    with task_ok_mono [OF this step] kept busy_begin that show ?thesis by auto
  next
    case (busy_forward fx rq lc ts s call st)
    with old have "was_admitted x from_str c fx rq lc" by fastforce
    with resume_body_Inr [OF busy_forward(4), of ts] busy_forward(1)
    have "task_ok x from_str c (AwaitDocker fx rq lc call)" by (auto intro: task_ok_now simp del: task_ok.simps(2))
    from task_ok_mono [OF this step] kept busy_forward that show ?thesis
      by (auto dest: set_remove1_subset [THEN subsetD] simp del: task_ok.simps)
  qed (use kept that in \<open>auto dest: set_remove1_subset [THEN subsetD]\<close>)
  with reach' busy_server_inv [OF assms(1) sv] show ?thesis by (simp add: busy_inv_def)
qed

interpretation busy: transition_system "busy_start x from_str" "busy_step x from_str" "busy_inv x from_str"
proof (unfold_locales, goal_cases)
  case (1 c)
  then have "server_inv x (fst c)" by (auto simp: busy_start_def intro: running.start_inv)
  moreover have "busy_reachable x from_str c" using 1 unfolding busy_reachable_def by blast
  ultimately show ?case using 1 by (simp add: busy_inv_def busy_start_def)
qed (rule busy_inv_step)

lemma busy_reachable_inv: "busy_reachable x from_str c \<Longrightarrow> busy_inv x from_str c"
  unfolding busy_reachable_def using busy.reached_inv by blast

lemma resume_docker_sends:
  assumes "resume_docker x fx rq lc call st = (resp, acts, st')" and "SendRequest r \<in> set acts"
  shows "ur_body r = (case call of PlainCall body filters \<Rightarrow> body | UpgradeCall \<Rightarrow> [])"
    and "ur_uri r = lc_target lc"
proof -
  have sent: "SendRequest r \<in> set (fst (snd (resume_docker x fx rq lc call st)))" using assms by simp
  have "\<exists>own. build_upstream x rq lc own (case call of PlainCall body filters \<Rightarrow> body | UpgradeCall \<Rightarrow> []) = Some r"
  proof (cases call)
    case (PlainCall body filters)
    with sent call_docker_acts [of "finish_response x fx filters" r x fx rq lc "[(''connection'', ''close'')]" body st]
      finish_response_acts [of x fx filters]
    show ?thesis by (auto simp: resume_docker_def)
  next
    case UpgradeCall
    with sent call_docker_acts [of "finish_upgrade fx" r x fx rq lc _ "[]" st] finish_upgrade_acts [of fx]
    show ?thesis by (auto simp: resume_docker_def handle_upgrade_def)
  qed
  then show "ur_body r = (case call of PlainCall body filters \<Rightarrow> body | UpgradeCall \<Rightarrow> [])" and "ur_uri r = lc_target lc"
    by (auto simp: build_upstream_def split: if_splits)
qed

text \<open>
  (C2) Requests that run at the same time cannot weaken each other's checks: however the pieces of
  any number of requests, sweeps, audit writes, reloads and rebinds interleave, whatever a request sends to
  Docker was admitted by authentication in some earlier state \<open>c1\<close>, under the valid configuration
  active then, and allowed in a state \<open>c2\<close> between the two by the rules of that same configuration, on
  the path that is sent and on the body that is sent. In particular a reload that arrives while a
  body is read does not mix the old credentials with the new rules.
\<close>

theorem interleaved_contact_authorised:
  assumes "busy_reachable x from_str (s, ts)" and "AwaitDocker fx rq lc call \<in> set ts"
    and "resume_docker x fx rq lc call (sv_proxy s) = (resp, acts, st')" and "SendRequest r \<in> set acts"
  shows "\<exists>c1 c2 body_json. busy_reachable x from_str c1 \<and> (busy_step x from_str)\<^sup>*\<^sup>* c1 c2 \<and> (busy_step x from_str)\<^sup>*\<^sup>* c2 (s, ts)
     \<and> config_ok x (current_config (sv_proxy (fst c1))) \<and> admitted_at x c1 fx rq lc \<and> allowed_at x c2 fx rq lc body_json
     \<and> ur_uri r = canonical_path_and_query (lc_path lc) (rq_query rq)
     \<and> (case call of
          PlainCall body filters \<Rightarrow> parse_body x (lc_path lc) (ur_body r) = Inr body_json
        | UpgradeCall \<Rightarrow> ur_body r = [] \<and> body_json = None)"
proof -
  from busy_reachable_inv [OF assms(1)] assms(2) have "task_ok x from_str (s, ts) (AwaitDocker fx rq lc call)"
    by (auto simp: busy_inv_def simp del: task_ok.simps)
  then obtain c1 c2 bj where c: "busy_reachable x from_str c1" "(busy_step x from_str)\<^sup>*\<^sup>* c1 c2"
    "(busy_step x from_str)\<^sup>*\<^sup>* c2 (s, ts)" "admitted_at x c1 fx rq lc" "allowed_at x c2 fx rq lc bj" "call_matches x lc call bj"
    unfolding task_ok.simps was_admitted_def by blast
  have "config_ok x (current_config (sv_proxy (fst c1)))"
    using busy_reachable_inv [OF c(1)] by (simp add: busy_inv_def server_inv_def)
  moreover have "ur_uri r = canonical_path_and_query (lc_path lc) (rq_query rq)"
    using resume_docker_sends(2) [OF assms(3,4)] c(4) by (auto simp: admitted_at_def make_locals_def)
  moreover have "case call of PlainCall body filters \<Rightarrow> parse_body x (lc_path lc) (ur_body r) = Inr bj
        | UpgradeCall \<Rightarrow> ur_body r = [] \<and> bj = None"
    using resume_docker_sends(1) [OF assms(3,4)] c(6) by (auto simp: call_matches_def split: docker_call.splits)
  ultimately show ?thesis using c by blast
qed

section \<open>A sample run\<close>

text \<open>A server without authentication and rules has read the body of a request and turns to Docker.\<close>

definition free_config :: proxy_config where
  "free_config = proxy_config_default\<lparr>cfg_auth := Some \<lparr>a_type = Some ''none'', a_secret = None, a_tokens = None, a_mtls = None\<rparr>\<rparr>"

definition free_yaml :: "string \<Rightarrow> string + proxy_config" where
  "free_yaml s = Inr free_config"

definition free_server :: server where
  "free_server = serving (initial_state docker_world (\<lambda>_. []) ''/var/run/docker.sock'' free_config) (Some ''c.yaml'')"

definition open_server :: server where
  "open_server = free_server\<lparr>sv_listening := True, sv_gen := 1, sv_live := [(1, None)]\<rparr>"

definition info_locals :: locals where
  "info_locals = make_locals no_external (info_request plain_headers) free_config ''/info'' None None"

definition busy_sample :: busy_server where
  "busy_sample = (open_server\<lparr>sv_proxy := upd_metrics inc_requests_total (sv_proxy open_server)\<rparr>,
     [AwaitDocker (docker_answers ''a'') (info_request plain_headers) info_locals (PlainCall [] [])])"

lemmas free_eval = free_server_def open_server_def serving_def initial_state_def free_config_def proxy_config_default_def

lemma free_yaml_loads: "load_from_path no_external docker_world free_yaml p = Inr free_config"
  by (simp add: config_eval resolve_auth_env_def free_yaml_def free_config_def docker_world_def)

lemma open_server_reachable: "busy_reachable no_external free_yaml (open_server, [])"
proof -
  let ?step = "busy_step no_external free_yaml"
  let ?s1 = "free_server\<lparr>sv_listening := True, sv_gen := 1\<rparr>"
  have "server_start no_external free_yaml free_server"
    unfolding free_server_def by (rule boots) (simp_all add: free_yaml_loads free_eval)
  moreover obtain addr where "create_listener stub_tls docker_world (\<lambda>_. Inr ()) (current_config (sv_proxy free_server)) = Inr (addr, None)"
    by (simp add: create_listener_def global_opt_def free_eval current_config_def)
  then have "rebind stub_tls docker_world (\<lambda>_. Inr ()) free_server = Some ?s1" by (simp add: rebind_def free_eval)
  then have "?step (free_server, []) (?s1, [])" by (intro busy_server step_rebind) (simp_all add: free_eval)
  moreover have "accept_conn ?s1 = open_server"
    by (simp add: accept_conn_def permits_used_def MAX_CONCURRENT_CONNS_def free_eval)
  then have "?step (?s1, []) (open_server, [])" using busy_server [OF step_accept [of ?s1]] by simp
  ultimately show ?thesis
    unfolding busy_reachable_def busy_start_def by (intro exI [of _ "(free_server, [])"]) auto
qed

lemma busy_sample_reachable: "busy_reachable no_external free_yaml busy_sample"
proof -
  let ?step = "busy_step no_external free_yaml" and ?fx = "docker_answers ''a''" and ?rq = "info_request plain_headers"
  let ?st = "upd_metrics inc_requests_total (sv_proxy open_server)"
  let ?s = "open_server\<lparr>sv_proxy := ?st\<rparr>"
  have "handle_begin no_external ?fx (?rq\<lparr>rq_cert := None\<rparr>) (sv_proxy open_server) = (Inr (AwaitBody ?fx ?rq info_locals), ?st)"
    by (simp add: handle_begin_def free_eval info_locals_def plain_headers_def metrics_path_of_def global_opt_def info_path
        query_ok_def current_config_def upd_metrics_def info_request_def docker_answers_def authenticate_def al_is_blocked_def
        auth_limiter_new_def tbl_get_def auth_type_def is_metrics_request_def is_upgrade_request_def header_has_token_def
        header_get_def header_get_all_def Let_def)
  then have 1: "?step (open_server, []) (?s, [AwaitBody ?fx ?rq info_locals])"
    by (rule busy_begin [rotated 2]) (auto simp: free_eval session_cert_def)
  have "resume_body no_external ?fx ?rq info_locals ?st = (Inr (PlainCall [] []), ?st)"
    by (simp add: resume_body_def decide_def free_eval info_locals_def decision_allow_def handle_eval)
  then have 2: "?step (?s, [AwaitBody ?fx ?rq info_locals]) busy_sample"
    using busy_forward [of ?fx ?rq info_locals "[AwaitBody ?fx ?rq info_locals]" no_external ?s "PlainCall [] []" ?st]
    by (simp add: busy_sample_def)
  from open_server_reachable 1 2 show ?thesis
    unfolding busy_reachable_def by (meson rtranclp.rtrancl_into_rtrancl)
qed

theorem interleaved_contact_authorised_witness:
  "\<exists>c1 c2 body_json. busy_reachable no_external free_yaml c1 \<and> (busy_step no_external free_yaml)\<^sup>*\<^sup>* c1 c2
     \<and> (busy_step no_external free_yaml)\<^sup>*\<^sup>* c2 busy_sample \<and> config_ok no_external (current_config (sv_proxy (fst c1)))
     \<and> admitted_at no_external c1 (docker_answers ''a'') (info_request plain_headers) info_locals
     \<and> allowed_at no_external c2 (docker_answers ''a'') (info_request plain_headers) info_locals body_json"
proof -
  let ?fx = "docker_answers ''a''" and ?rq = "info_request plain_headers"
  have "\<exists>resp st' r acts. resume_docker no_external ?fx ?rq info_locals (PlainCall [] []) (sv_proxy (fst busy_sample))
      = (resp, acts, st') \<and> SendRequest r \<in> set acts"
    by (simp add: resume_docker_def call_docker_def build_upstream_def docker_answers_def no_external_def Let_def
        finish_response_def MAX_RESP_BODY_BYTES_def)
  then obtain resp st' r acts where d: "resume_docker no_external ?fx ?rq info_locals (PlainCall [] []) (sv_proxy (fst busy_sample))
      = (resp, acts, st')" "SendRequest r \<in> set acts" by blast
  have "AwaitDocker ?fx ?rq info_locals (PlainCall [] []) \<in> set (snd busy_sample)" by (simp add: busy_sample_def)
  with interleaved_contact_authorised [of no_external free_yaml "fst busy_sample" "snd busy_sample", OF _ _ d]
    busy_sample_reachable show ?thesis by (simp only: prod.collapse) blast
qed

end
