(* ===== verification/Noninterference.thy ===== *)
theory Noninterference
  imports Proxy_State
begin

text \<open>
  Clients do not influence each other through the proxy. The shared state holds, besides the
  counters and the audit queue that no answer depends on, the configuration and the two limiters.
  A client sees its own lockout entry and its own buckets. As long as the tables have room, the
  answers of a client depend on nothing else, and the requests of other clients leave it alone;
  so its answers are the ones it would get if it had the proxy to itself.
\<close>

section \<open>What a client sees\<close>

text \<open>The part of the state that decides about requests.\<close>

type_synonym core = "(proxy_config \<times> string \<times> string \<times> string option) \<times> auth_limiter \<times> rate_limiter"

definition core :: "proxy_state \<Rightarrow> core" where
  "core st = (fixed_part st, ps_auth_limiter st, ps_rate_limiter st)"

lemma core_eqD:
  "core s = core t \<Longrightarrow> fixed_part s = fixed_part t \<and> ps_auth_limiter s = ps_auth_limiter t \<and> ps_rate_limiter s = ps_rate_limiter t
     \<and> current_config s = current_config t \<and> ps_socket_path s = ps_socket_path t"
  by (simp add: core_def fixed_part_def current_config_def)

definition same_buckets :: "ip_addr \<Rightarrow> rate_limiter \<Rightarrow> rate_limiter \<Rightarrow> bool" where
  "same_buckets a rl rl' =
     (\<forall>n. CHR '':'' \<notin> set n \<longrightarrow> tbl_get rl (n @ '':'' @ show_ip a) = tbl_get rl' (n @ '':'' @ show_ip a))"

definition agree :: "ip_addr \<Rightarrow> proxy_state \<Rightarrow> proxy_state \<Rightarrow> bool" where
  "agree a s t =
     (fixed_part s = fixed_part t
      \<and> al_inv (ps_auth_limiter s) \<and> al_inv (ps_auth_limiter t) \<and> rl_inv (ps_rate_limiter s) \<and> rl_inv (ps_rate_limiter t)
      \<and> tbl_get (ps_auth_limiter s) (show_ip a) = tbl_get (ps_auth_limiter t) (show_ip a)
      \<and> same_buckets a (ps_rate_limiter s) (ps_rate_limiter t))"

lemma agree_core: "core s' = core s \<Longrightarrow> core t' = core t \<Longrightarrow> agree a s' t' \<longleftrightarrow> agree a s t"
  by (simp add: agree_def core_def)

lemma agreeI: "agree a s t \<Longrightarrow> core s' = core s \<Longrightarrow> core t' = core t \<Longrightarrow> agree a s' t'"
  using agree_core [of s' s t' t a] by blast

lemma agree_fixed:
  "agree a s t \<Longrightarrow> current_config s = current_config t \<and> ps_env_secret s = ps_env_secret t
     \<and> ps_socket_path s = ps_socket_path t \<and> ps_metrics_path s = ps_metrics_path t"
  by (simp add: agree_def fixed_part_def current_config_def)

text \<open>The same response and actions, in states that agree.\<close>

definition same_outcome :: "ip_addr \<Rightarrow> handled \<Rightarrow> handled \<Rightarrow> bool" where
  "same_outcome a h h' = (fst h = fst h' \<and> fst (snd h) = fst (snd h') \<and> agree a (snd (snd h)) (snd (snd h')))"

section \<open>Operations that leave the core alone\<close>

lemma core_upd [simp]:
  "core (upd_metrics f st) = core st" "core (send_audit ev st) = core st"
  "core (note_dry_run fx rq lc d st) = core st"
proof -
  show m: "core (upd_metrics f st) = core st" for f st by (simp add: core_def upd_metrics_def fixed_part_def)
  show a: "core (send_audit ev st) = core st" for ev st by (simp add: core_def send_audit_def fixed_part_def)
  show "core (note_dry_run fx rq lc d st) = core st" by (simp add: note_dry_run_def m a split: option.split)
qed

lemma core_deny [simp]: "core (snd (snd (deny_request x fx rq lc d status msg b st))) = core st"
  by (simp add: deny_request_def Let_def split: option.split)

lemma core_finish [simp]:
  "core (snd (snd (finish_response x fx fs res acts st))) = core st" "core (snd (snd (finish_upgrade fx res acts st))) = core st"
  by (auto simp: finish_response_def finish_upgrade_def fail_def Let_def split: prod.split timed.split)

lemma core_call_docker:
  assumes "\<And>res acts s. core (snd (snd (k res acts s))) = core s"
  shows "core (snd (snd (call_docker x fx rq lc own body k st))) = core st"
  using assms by (simp add: call_docker_def fail_def Let_def split: timed.split option.split)

section \<open>Answers that do not depend on the rest\<close>

text \<open>What a request gets and does, without the state it leaves.\<close>

definition visible :: "handled \<Rightarrow> response option \<times> action list" where
  "visible h = (fst h, fst (snd h))"

lemma same_outcome_visible:
  "visible h = visible h' \<Longrightarrow> agree a (snd (snd h)) (snd (snd h')) \<Longrightarrow> same_outcome a h h'"
  by (simp add: visible_def same_outcome_def)

lemma visible_deny: "visible (deny_request x fx rq lc d status msg b st) = visible (deny_request x fx rq lc d status msg b st')"
  by (simp add: visible_def deny_request_def Let_def)

lemma visible_finish:
  "visible (finish_response x fx fs res acts st) = visible (finish_response x fx fs res acts st')"
  "visible (finish_upgrade fx res acts st) = visible (finish_upgrade fx res acts st')"
  by (auto simp: visible_def finish_response_def finish_upgrade_def fail_def Let_def split: prod.split timed.split)

lemma visible_call_docker:
  assumes "ps_socket_path st = ps_socket_path st'" and "\<And>res acts. visible (k res acts st) = visible (k res acts st')"
  shows "visible (call_docker x fx rq lc own body k st) = visible (call_docker x fx rq lc own body k st')"
  using assms by (simp add: visible_def call_docker_def fail_def Let_def split: timed.split option.split)

section \<open>The limiters\<close>

lemma rl_check_same:
  assumes "rl_inv rl" and "rl_inv rl'" and "tbl_get rl k = tbl_get rl' k"
    and "tbl_len rl < MAX_RATE_LIMIT_BUCKETS" and "tbl_len rl' < MAX_RATE_LIMIT_BUCKETS"
  shows "fst (rl_check now k m per pen rl) = fst (rl_check now k m per pen rl')"
    and "tbl_get rl j = tbl_get rl' j \<Longrightarrow>
           tbl_get (snd (rl_check now k m per pen rl)) j = tbl_get (snd (rl_check now k m per pen rl')) j"
  using assms by (auto simp: rl_check_def rl_inv_def Let_def case_prod_beta)

lemma rl_check_len: "rl_inv rl \<Longrightarrow> tbl_len (snd (rl_check now k m per pen rl)) \<le> Suc (tbl_len rl)"
  by (auto simp: rl_check_def rl_inv_def Let_def case_prod_beta tbl.len_put)

lemma apply_rule_len: "rl_inv rl \<Longrightarrow> tbl_len (snd (apply_rule x now r ctx rl)) \<le> Suc (tbl_len rl)"
  using rl_check_len by (auto simp: apply_rule_def Let_def case_prod_beta split: option.split bool.split)

lemma apply_rule_same:
  assumes "rl_inv rl" and "rl_inv rl'" and "same_buckets a rl rl'"
    and "tbl_len rl < MAX_RATE_LIMIT_BUCKETS" and "tbl_len rl' < MAX_RATE_LIMIT_BUCKETS"
    and "ctx_client_ip ctx = show_ip a" and "CHR '':'' \<notin> set (r_name r)"
  shows "fst (apply_rule x now r ctx rl) = fst (apply_rule x now r ctx rl')
       \<and> same_buckets a (snd (apply_rule x now r ctx rl)) (snd (apply_rule x now r ctx rl'))"
proof -
  have "tbl_get rl (rate_key r ctx) = tbl_get rl' (rate_key r ctx)"
    using assms(3,6,7) by (simp add: same_buckets_def rate_key_def)
  note chk = rl_check_same [OF assms(1,2) this assms(4,5)]
  have "same_buckets a (snd (rl_check now (rate_key r ctx) m per pen rl)) (snd (rl_check now (rate_key r ctx) m per pen rl'))" for m per pen
    using assms(3) chk(2) by (simp add: same_buckets_def)
  then show ?thesis
    using chk(1) assms(3) by (auto simp: apply_rule_def Let_def case_prod_beta split: option.split bool.split)
qed

lemma evaluate_same:
  assumes "rl_inv rl" and "rl_inv rl'" and "same_buckets a rl rl'" and "ctx_client_ip ctx = show_ip a"
    and "tbl_len rl + length rules \<le> MAX_RATE_LIMIT_BUCKETS" and "tbl_len rl' + length rules \<le> MAX_RATE_LIMIT_BUCKETS"
    and "\<forall>r \<in> set rules. CHR '':'' \<notin> set (r_name r)"
  shows "fst (evaluate_request_detailed x clk rules ctx rl) = fst (evaluate_request_detailed x clk rules ctx rl')
       \<and> same_buckets a (snd (evaluate_request_detailed x clk rules ctx rl)) (snd (evaluate_request_detailed x clk rules ctx rl'))"
  using assms
proof (induction rules arbitrary: clk rl rl')
  case (Cons r rs)
  let ?a = "apply_rule x (clk 0) r ctx rl" and ?a' = "apply_rule x (clk 0) r ctx rl'"
  have eq: "fst ?a = fst ?a'" and sb: "same_buckets a (snd ?a) (snd ?a')"
    using apply_rule_same [OF Cons.prems(1-3), of ctx r] Cons.prems(4-7) by auto
  have "rl_inv (snd ?a)" "rl_inv (snd ?a')" using Cons.prems(1,2) by (auto intro: apply_rule_inv)
  moreover have "tbl_len (snd ?a) + length rs \<le> MAX_RATE_LIMIT_BUCKETS" "tbl_len (snd ?a') + length rs \<le> MAX_RATE_LIMIT_BUCKETS"
    using apply_rule_len [OF Cons.prems(1), of x "clk 0" r ctx] apply_rule_len [OF Cons.prems(2), of x "clk 0" r ctx] Cons.prems(5,6)
    by simp_all
  ultimately have "fst (evaluate_request_detailed x (\<lambda>i. clk (Suc i)) rs ctx (snd ?a))
        = fst (evaluate_request_detailed x (\<lambda>i. clk (Suc i)) rs ctx (snd ?a'))
      \<and> same_buckets a (snd (evaluate_request_detailed x (\<lambda>i. clk (Suc i)) rs ctx (snd ?a)))
          (snd (evaluate_request_detailed x (\<lambda>i. clk (Suc i)) rs ctx (snd ?a')))"
    using Cons.IH sb Cons.prems(4,7) by simp
  with eq sb show ?case by (cases ?a; cases ?a') (auto split: rule_step.split)
qed simp

lemma evaluate_len:
  "rl_inv rl \<Longrightarrow> tbl_len (snd (evaluate_request_detailed x clk rules ctx rl)) \<le> tbl_len rl + length rules"
proof (induction rules arbitrary: clk rl)
  case (Cons r rs)
  have "rl_inv (snd (apply_rule x (clk 0) r ctx rl))" using Cons.prems by (rule apply_rule_inv)
  from Cons.IH [OF this, of "\<lambda>i. clk (Suc i)"] apply_rule_len [OF Cons.prems, of x "clk 0" r ctx]
  show ?case by (cases "apply_rule x (clk 0) r ctx rl") (auto split: rule_step.split)
qed simp

lemma record_failure_same:
  assumes "al_inv g" and "al_inv g'" and "tbl_get g k = tbl_get g' k"
    and "tbl_len g < MAX_AUTH_LIMITER_KEYS" and "tbl_len g' < MAX_AUTH_LIMITER_KEYS"
  shows "fst (al_record_failure now k mx w lo g) = fst (al_record_failure now k mx w lo g')"
    and "tbl_get (snd (al_record_failure now k mx w lo g)) k = tbl_get (snd (al_record_failure now k mx w lo g')) k"
  using assms by (simp_all add: al_record_failure_def al_inv_def Let_def case_prod_beta)

lemma record_failure_len: "al_inv g \<Longrightarrow> tbl_len (snd (al_record_failure now k mx w lo g)) \<le> Suc (tbl_len g)"
  by (auto simp: al_record_failure_def al_inv_def Let_def case_prod_beta tbl.len_put)

section \<open>Authentication\<close>

lemma auth_failure_same:
  assumes "agree a s t" and "tbl_len (ps_auth_limiter s) < MAX_AUTH_LIMITER_KEYS" and "tbl_len (ps_auth_limiter t) < MAX_AUTH_LIMITER_KEYS"
  shows "fst (auth_failure now (show_ip a) msg s) = fst (auth_failure now (show_ip a) msg t)
       \<and> agree a (snd (auth_failure now (show_ip a) msg s)) (snd (auth_failure now (show_ip a) msg t))"
proof -
  let ?f = "al_record_failure now (show_ip a) AUTH_FAIL_MAX AUTH_FAIL_WINDOW AUTH_FAIL_LOCKOUT"
  have a: "al_inv (ps_auth_limiter s)" "al_inv (ps_auth_limiter t)"
    "tbl_get (ps_auth_limiter s) (show_ip a) = tbl_get (ps_auth_limiter t) (show_ip a)"
    using assms(1) by (auto simp: agree_def)
  note same = record_failure_same [OF a assms(2,3)]
  have "fst (auth_failure now (show_ip a) msg s) = fst (auth_failure now (show_ip a) msg t)"
    using same(1) [of now AUTH_FAIL_MAX AUTH_FAIL_WINDOW AUTH_FAIL_LOCKOUT]
    by (auto simp: auth_failure_def Let_def case_prod_beta split: option.split)
  moreover have "fixed_part (snd (auth_failure now (show_ip a) msg s)) = fixed_part s"
    "fixed_part (snd (auth_failure now (show_ip a) msg t)) = fixed_part t"
    by (auto simp: fixed_part_def auth_failure_frame auth_failure_state)
  ultimately show ?thesis
    using assms(1) same(2) a by (auto simp: agree_def auth_failure_state auth_failure_frame intro: inv_intros)
qed

lemma auth_success_same:
  "agree a s t \<Longrightarrow> agree a (auth_success (show_ip a) s) (auth_success (show_ip a) t)"
  by (auto simp: agree_def auth_success_def fixed_part_def al_record_success_def al_inv_def
      intro: inv_intros order_trans [OF tbl.len_del])

lemma authenticate_same:
  assumes "agree a s t" and "tbl_len (ps_auth_limiter s) < MAX_AUTH_LIMITER_KEYS" and "tbl_len (ps_auth_limiter t) < MAX_AUTH_LIMITER_KEYS"
  shows "fst (authenticate x clk config hs a cert s) = fst (authenticate x clk config hs a cert t)
       \<and> agree a (snd (authenticate x clk config hs a cert s)) (snd (authenticate x clk config hs a cert t))"
proof -
  have "al_is_blocked (fst clk) (show_ip a) (ps_auth_limiter s) = al_is_blocked (fst clk) (show_ip a) (ps_auth_limiter t)"
    using assms(1) by (simp add: agree_def al_is_blocked_def)
  then show ?thesis
    using agree_fixed [OF assms(1)] auth_failure_same [OF assms] auth_success_same [OF assms(1)] assms(1)
    by (simp add: authenticate_def authenticate_mtls_def authenticate_bearer_def Let_def split: option.split sum.split)
qed

lemma authenticate_len:
  assumes "al_inv (ps_auth_limiter st)"
  shows "tbl_len (ps_auth_limiter (snd (authenticate x clk config hs peer cert st))) \<le> Suc (tbl_len (ps_auth_limiter st))"
proof -
  have "tbl_len (ps_auth_limiter (snd (auth_failure now k msg st))) \<le> Suc (tbl_len (ps_auth_limiter st))" for now k msg
    using record_failure_len [OF assms] by (simp add: auth_failure_state)
  moreover have "tbl_len (ps_auth_limiter (auth_success k st)) \<le> Suc (tbl_len (ps_auth_limiter st))" for k
    using tbl.len_del [of "ps_auth_limiter st" k] assms by (simp add: auth_success_def al_record_success_def al_inv_def)
  ultimately show ?thesis
    by (simp add: authenticate_def authenticate_mtls_def authenticate_bearer_def Let_def split: option.split sum.split)
qed

section \<open>The handler\<close>

text \<open>Room for one request: the lockout entry of its peer and a bucket for each rule.\<close>

definition roomy :: "nat \<Rightarrow> proxy_state \<Rightarrow> bool" where
  "roomy n st =
     (tbl_len (ps_auth_limiter st) + n \<le> MAX_AUTH_LIMITER_KEYS
      \<and> tbl_len (ps_rate_limiter st) + n * length (unwrap_or (cfg_rules (current_config st)) []) \<le> MAX_RATE_LIMIT_BUCKETS)"

lemma run_rules_same:
  assumes "agree a s t" and "lc_client_ip lc = show_ip a" and "\<forall>r \<in> set (lc_rules lc). CHR '':'' \<notin> set (r_name r)"
    and "tbl_len (ps_rate_limiter s) + length (lc_rules lc) \<le> MAX_RATE_LIMIT_BUCKETS"
    and "tbl_len (ps_rate_limiter t) + length (lc_rules lc) \<le> MAX_RATE_LIMIT_BUCKETS"
  shows "fst (run_rules x fx rq lc b s) = fst (run_rules x fx rq lc b t)
       \<and> agree a (snd (run_rules x fx rq lc b s)) (snd (run_rules x fx rq lc b t))"
proof -
  have "ctx_client_ip (eval_context rq lc b) = show_ip a" using assms(2) by (simp add: eval_context_def)
  moreover have "rl_inv (ps_rate_limiter s)" "rl_inv (ps_rate_limiter t)" "same_buckets a (ps_rate_limiter s) (ps_rate_limiter t)"
    using assms(1) by (auto simp: agree_def)
  ultimately show ?thesis
    using evaluate_same [of "ps_rate_limiter s" "ps_rate_limiter t"] assms
    by (simp add: run_rules_def2 agree_def fixed_part_def evaluate_inv)
qed

lemma after_rules_same:
  assumes "agree a s t"
    and "\<And>d s' t'. core s' = core s \<Longrightarrow> core t' = core t \<Longrightarrow>
           visible (go d s') = visible (go d t') \<and> core (snd (snd (go d s'))) = core s' \<and> core (snd (snd (go d t'))) = core t'"
  shows "same_outcome a
     (case r of None \<Rightarrow> (None, [], s)
      | Some d \<Rightarrow> (case d_result d of Deny status msg \<Rightarrow> deny_request x fx rq lc d status msg b (note_dry_run fx rq lc d s)
                   | Allow \<Rightarrow> go d (note_dry_run fx rq lc d s)))
     (case r of None \<Rightarrow> (None, [], t)
      | Some d \<Rightarrow> (case d_result d of Deny status msg \<Rightarrow> deny_request x fx rq lc d status msg b (note_dry_run fx rq lc d t)
                   | Allow \<Rightarrow> go d (note_dry_run fx rq lc d t)))"
proof (cases r)
  case None
  with assms(1) show ?thesis by (simp add: same_outcome_def)
next
  case (Some d)
  have "same_outcome a (deny_request x fx rq lc d status msg b (note_dry_run fx rq lc d s))
      (deny_request x fx rq lc d status msg b (note_dry_run fx rq lc d t))" for status msg
    by (rule same_outcome_visible [OF visible_deny agreeI [OF assms(1)]]) simp_all
  moreover have "same_outcome a (go d (note_dry_run fx rq lc d s)) (go d (note_dry_run fx rq lc d t))"
  proof -
    note g = assms(2) [OF core_upd(3) [of fx rq lc d s] core_upd(3) [of fx rq lc d t], of d]
    show ?thesis
      by (rule same_outcome_visible [OF _ agreeI [OF assms(1)]]) (simp_all only: g core_upd)
  qed
  ultimately show ?thesis using Some by (simp split: rule_result.split)
qed

lemma same_socket: "agree a s t \<Longrightarrow> core s' = core s \<Longrightarrow> core t' = core t \<Longrightarrow> ps_socket_path s' = ps_socket_path t'"
  by (auto dest!: core_eqD agree_fixed)

lemma forward_plain_same:
  assumes "fst (run_rules x fx rq lc bj s) = fst (run_rules x fx rq lc bj t)"
    and "agree a (snd (run_rules x fx rq lc bj s)) (snd (run_rules x fx rq lc bj t))"
  shows "same_outcome a (forward_plain x fx rq lc body bj s) (forward_plain x fx rq lc body bj t)"
proof -
  let ?fs = "collect_response_filters x (lc_rules lc) (eval_context rq lc bj)"
  let ?go = "\<lambda>s. call_docker x fx rq lc [(''connection'', ''close'')] body (finish_response x fx ?fs) s"
  have "visible (?go s') = visible (?go t')" if "ps_socket_path s' = ps_socket_path t'" for s' t'
    using that visible_finish(1) by (rule visible_call_docker)
  moreover have "core (snd (snd (?go s'))) = core s'" for s' by (simp add: core_call_docker)
  ultimately have go: "visible (?go s') = visible (?go t') \<and> core (snd (snd (?go s'))) = core s' \<and> core (snd (snd (?go t'))) = core t'"
    if "core s' = core (snd (run_rules x fx rq lc bj s))" "core t' = core (snd (run_rules x fx rq lc bj t))" for s' t'
    using same_socket [OF assms(2) that] by blast
  show ?thesis
    unfolding forward_plain_def case_prod_beta Let_def assms(1)
    by (rule after_rules_same [where go = "\<lambda>_. ?go", OF assms(2)]) (rule go)
qed

lemma handle_upgrade_request_same:
  assumes "agree a s t" and "lc_client_ip lc = show_ip a" and "\<forall>r \<in> set (lc_rules lc). CHR '':'' \<notin> set (r_name r)"
    and "tbl_len (ps_rate_limiter s) + length (lc_rules lc) \<le> MAX_RATE_LIMIT_BUCKETS"
    and "tbl_len (ps_rate_limiter t) + length (lc_rules lc) \<le> MAX_RATE_LIMIT_BUCKETS"
  shows "same_outcome a (handle_upgrade_request x fx rq lc s) (handle_upgrade_request x fx rq lc t)"
proof -
  let ?s = "upd_metrics inc_upgrade_total s" and ?t = "upd_metrics inc_upgrade_total t"
  let ?go = "\<lambda>s. handle_upgrade x fx rq lc (upd_metrics inc_requests_allowed s)"
  have ag: "agree a ?s ?t" using assms(1) by (rule agreeI) simp_all
  have len: "tbl_len (ps_rate_limiter ?s) + length (lc_rules lc) \<le> MAX_RATE_LIMIT_BUCKETS"
    "tbl_len (ps_rate_limiter ?t) + length (lc_rules lc) \<le> MAX_RATE_LIMIT_BUCKETS"
    using assms(4,5) by (simp_all add: upd_metrics_def)
  from run_rules_same [OF ag assms(2,3) len, of x fx rq None]
  have eq: "fst (run_rules x fx rq lc None ?s) = fst (run_rules x fx rq lc None ?t)"
    and ag1: "agree a (snd (run_rules x fx rq lc None ?s)) (snd (run_rules x fx rq lc None ?t))" by auto
  have "visible (?go s') = visible (?go t')" if "ps_socket_path s' = ps_socket_path t'" for s' t'
    unfolding handle_upgrade_def
  proof (rule visible_call_docker [OF _ visible_finish(2)])
    show "ps_socket_path (upd_metrics inc_requests_allowed s') = ps_socket_path (upd_metrics inc_requests_allowed t')"
      using that by (simp add: upd_metrics_def)
  qed
  moreover have "core (snd (snd (?go s'))) = core s'" for s' by (simp add: handle_upgrade_def core_call_docker)
  ultimately have go: "visible (?go s') = visible (?go t') \<and> core (snd (snd (?go s'))) = core s' \<and> core (snd (snd (?go t'))) = core t'"
    if "core s' = core (snd (run_rules x fx rq lc None ?s))" "core t' = core (snd (run_rules x fx rq lc None ?t))" for s' t'
    using same_socket [OF ag1 that] by blast
  show ?thesis
    unfolding handle_upgrade_request_def case_prod_beta Let_def eq
    by (rule after_rules_same [where go = "\<lambda>_. ?go", OF ag1]) (rule go)
qed

lemma fail_same: "agree a s t \<Longrightarrow> same_outcome a (fail status msg acts (upd_metrics f s)) (fail status msg acts (upd_metrics f t))"
  by (simp add: same_outcome_def fail_def agreeI)

lemma handle_plain_same:
  assumes "agree a s t" and "lc_client_ip lc = show_ip a" and "\<forall>r \<in> set (lc_rules lc). CHR '':'' \<notin> set (r_name r)"
    and "tbl_len (ps_rate_limiter s) + length (lc_rules lc) \<le> MAX_RATE_LIMIT_BUCKETS"
    and "tbl_len (ps_rate_limiter t) + length (lc_rules lc) \<le> MAX_RATE_LIMIT_BUCKETS"
  shows "same_outcome a (handle_plain x fx rq lc s) (handle_plain x fx rq lc t)"
proof -
  have "same_outcome a (forward_plain x fx rq lc body bj s) (forward_plain x fx rq lc body bj t)" for body bj
    using run_rules_same [OF assms] by (intro forward_plain_same) auto
  moreover have "same_outcome a (Some (make_response_string 400 msg), [], upd_metrics inc_bad_request_total s)
      (Some (make_response_string 400 msg), [], upd_metrics inc_bad_request_total t)" for msg
    using assms(1) by (simp add: same_outcome_def agreeI)
  ultimately show ?thesis
    using fail_same [OF assms(1)] by (simp add: handle_plain_def split: timed.split body_error.split sum.split)
qed

text \<open>Answers that show the counters are left out: they depend on everybody.\<close>

definition asks_metrics :: "request \<Rightarrow> proxy_state \<Rightarrow> bool" where
  "asks_metrics rq st =
     (case canonicalize_path (rq_path rq) of None \<Rightarrow> False | Some path \<Rightarrow> is_metrics_request rq path st)"

lemma auth_config [simp]:
  "ps_metrics_path (snd (authenticate x clk config hs peer cert st)) = ps_metrics_path st"
  "ps_rate_limiter (snd (authenticate x clk config hs peer cert st)) = ps_rate_limiter st"
  by (cases "authenticate x clk config hs peer cert st"; simp add: authenticate_keeps)+

lemma handle_same:
  assumes "agree a s t" and "roomy 1 s" and "roomy 1 t" and "rq_peer rq = a"
    and "compute_client_ip x a (rq_headers rq) (trusted_proxies x (current_config s)) = a"
    and "\<forall>r \<in> set (unwrap_or (cfg_rules (current_config s)) []). CHR '':'' \<notin> set (r_name r)"
    and "\<not> asks_metrics rq s"
  shows "same_outcome a (handle x fx rq s) (handle x fx rq t)"
proof -
  let ?s = "upd_metrics inc_requests_total s" and ?t = "upd_metrics inc_requests_total t"
  have ag: "agree a ?s ?t" using assms(1) by (rule agreeI) simp_all
  have cfg: "current_config ?s = current_config s" "current_config ?t = current_config s"
    using agree_fixed [OF assms(1)] by (simp_all add: current_config_def upd_metrics_def)
  let ?auth = "\<lambda>st. authenticate x (fx_auth_clock fx) (current_config s) (rq_headers rq) a (rq_cert rq) st"
  have "tbl_len (ps_auth_limiter ?s) < MAX_AUTH_LIMITER_KEYS" "tbl_len (ps_auth_limiter ?t) < MAX_AUTH_LIMITER_KEYS"
    using assms(2,3) by (simp_all add: roomy_def upd_metrics_def)
  from authenticate_same [OF ag this]
  have eq: "fst (?auth ?s) = fst (?auth ?t)" and ag1: "agree a (snd (?auth ?s)) (snd (?auth ?t))" by auto
  have rl: "ps_rate_limiter (snd (?auth ?s)) = ps_rate_limiter s" "ps_rate_limiter (snd (?auth ?t)) = ps_rate_limiter t"
    by (simp_all add: upd_metrics_def)
  let ?lc = "\<lambda>path role identity. make_locals x rq (current_config s) path role identity"
  have lc: "lc_client_ip (?lc p r i) = show_ip a" "\<forall>r \<in> set (lc_rules (?lc p r i)). CHR '':'' \<notin> set (r_name r)"
    "tbl_len (ps_rate_limiter (snd (?auth ?s))) + length (lc_rules (?lc p r i)) \<le> MAX_RATE_LIMIT_BUCKETS"
    "tbl_len (ps_rate_limiter (snd (?auth ?t))) + length (lc_rules (?lc p r i)) \<le> MAX_RATE_LIMIT_BUCKETS" for p r i
    using assms(2-6) agree_fixed [OF assms(1)] by (simp_all add: make_locals_def roomy_def upd_metrics_def)
  note handlers = handle_upgrade_request_same [OF ag1 lc] handle_plain_same [OF ag1 lc]
  have metrics: "\<not> is_metrics_request rq p (snd (?auth ?s))" "\<not> is_metrics_request rq p (snd (?auth ?t))"
    if "canonicalize_path (rq_path rq) = Some p" for p
    using assms(7) that agree_fixed [OF assms(1)]
    by (simp_all add: asks_metrics_def is_metrics_request_def upd_metrics_def)
  have refuse: "same_outcome a (refuse_unauthenticated x fx rq p status msg (snd (?auth ?s)))
      (refuse_unauthenticated x fx rq p status msg (snd (?auth ?t)))" for p status msg
    using ag1 by (simp add: same_outcome_def refuse_unauthenticated_def Let_def agreeI)
  have panic: "same_outcome a (None, [], snd (?auth ?s)) (None, [], snd (?auth ?t))"
    using ag1 by (simp add: same_outcome_def)
  show ?thesis
    unfolding handle_def Let_def cfg assms(4) case_prod_beta eq
    using fail_same [OF ag] handlers metrics refuse panic
    by (simp split: option.split auth_outcome.split)
qed

section \<open>How the tables grow\<close>

definition grows_to :: "nat \<Rightarrow> proxy_state \<Rightarrow> proxy_state \<Rightarrow> bool" where
  "grows_to n st st' =
     (ps_auth_limiter st' = ps_auth_limiter st \<and> tbl_len (ps_rate_limiter st') \<le> tbl_len (ps_rate_limiter st) + n)"

lemma grows_core: "core s' = core s \<Longrightarrow> grows_to n s s'"
  by (auto dest: core_eqD simp: grows_to_def)

lemma grows_rules:
  assumes "rl_inv (ps_rate_limiter st)" and "core st' = core (snd (run_rules x fx rq lc b st))"
  shows "grows_to (length (lc_rules lc)) st st'"
  using core_eqD [OF assms(2)] evaluate_len [OF assms(1)] by (simp add: grows_to_def run_rules_def2)

lemma after_rules_core:
  assumes "\<And>d s. core (snd (snd (go d s))) = core s"
  shows "core (snd (snd (case r of None \<Rightarrow> (None, [], s)
      | Some d \<Rightarrow> (case d_result d of Deny status msg \<Rightarrow> deny_request x fx rq lc d status msg b (note_dry_run fx rq lc d s)
                   | Allow \<Rightarrow> go d (note_dry_run fx rq lc d s))))) = core s"
  using assms by (simp split: option.split rule_result.split)

lemma handle_plain_grows:
  assumes "rl_inv (ps_rate_limiter st)"
  shows "grows_to (length (lc_rules lc)) st (snd (snd (handle_plain x fx rq lc st)))"
proof -
  have "core (snd (snd (forward_plain x fx rq lc body bj st))) = core (snd (run_rules x fx rq lc bj st))" for body bj
  proof -
    let ?go = "\<lambda>d s. call_docker x fx rq lc [(''connection'', ''close'')] body
      (finish_response x fx (collect_response_filters x (lc_rules lc) (eval_context rq lc bj))) s"
    show ?thesis unfolding forward_plain_def case_prod_beta Let_def
      by (rule after_rules_core [where go = ?go]) (simp add: core_call_docker)
  qed
  then have "grows_to (length (lc_rules lc)) st (snd (snd (forward_plain x fx rq lc body bj st)))" for body bj
    using assms by (rule grows_rules [rotated])
  then show ?thesis
    by (simp add: handle_plain_def fail_def grows_core split: timed.split body_error.split sum.split)
qed

lemma handle_upgrade_request_grows:
  assumes "rl_inv (ps_rate_limiter st)"
  shows "grows_to (length (lc_rules lc)) st (snd (snd (handle_upgrade_request x fx rq lc st)))"
proof -
  let ?st = "upd_metrics inc_upgrade_total st"
  let ?go = "\<lambda>d s. handle_upgrade x fx rq lc (upd_metrics inc_requests_allowed s)"
  have "core (snd (snd (handle_upgrade_request x fx rq lc st))) = core (snd (run_rules x fx rq lc None ?st))"
    unfolding handle_upgrade_request_def case_prod_beta Let_def
    by (rule after_rules_core [where go = ?go]) (simp add: handle_upgrade_def core_call_docker)
  moreover have "rl_inv (ps_rate_limiter ?st)" using assms by (simp add: upd_metrics_def)
  ultimately have "grows_to (length (lc_rules lc)) ?st (snd (snd (handle_upgrade_request x fx rq lc st)))"
    using grows_rules by blast
  then show ?thesis by (simp add: grows_to_def upd_metrics_def)
qed

lemma handle_grows:
  assumes "proxy_inv st"
  shows "tbl_len (ps_auth_limiter (snd (snd (handle x fx rq st)))) \<le> Suc (tbl_len (ps_auth_limiter st))
       \<and> tbl_len (ps_rate_limiter (snd (snd (handle x fx rq st))))
           \<le> tbl_len (ps_rate_limiter st) + length (unwrap_or (cfg_rules (current_config st)) [])"
proof -
  let ?st = "upd_metrics inc_requests_total st" and ?n = "length (unwrap_or (cfg_rules (current_config st)) [])"
  let ?b = "\<lambda>s. tbl_len (ps_auth_limiter s) \<le> Suc (tbl_len (ps_auth_limiter st))
    \<and> tbl_len (ps_rate_limiter s) \<le> tbl_len (ps_rate_limiter st) + ?n"
  let ?s1 = "snd (authenticate x (fx_auth_clock fx) (current_config ?st) (rq_headers rq) (rq_peer rq) (rq_cert rq) ?st)"
  have inv: "al_inv (ps_auth_limiter ?st)" "rl_inv (ps_rate_limiter ?st)" using assms by (simp_all add: proxy_inv_def upd_metrics_def)
  have rl: "ps_rate_limiter ?s1 = ps_rate_limiter st" by (simp add: upd_metrics_def)
  have al: "tbl_len (ps_auth_limiter ?s1) \<le> Suc (tbl_len (ps_auth_limiter st))"
    using authenticate_len [OF inv(1)] by (simp add: upd_metrics_def)
  have step: "?b s" if "grows_to ?n ?s1 s" for s using that al rl by (simp add: grows_to_def)
  have n: "length (lc_rules (make_locals x rq (current_config ?st) p r i)) = ?n" for p r i
    by (simp add: make_locals_def current_config_def upd_metrics_def)
  have "rl_inv (ps_rate_limiter ?s1)" using inv(2) rl by (simp add: upd_metrics_def)
  note handlers = handle_plain_grows [OF this] handle_upgrade_request_grows [OF this]
  have "?b (snd (snd (handle_plain x fx rq (make_locals x rq (current_config ?st) p r i) ?s1)))"
    "?b (snd (snd (handle_upgrade_request x fx rq (make_locals x rq (current_config ?st) p r i) ?s1)))" for p r i
    using step handlers [of "make_locals x rq (current_config ?st) p r i"] unfolding n by blast+
  moreover have "?b (snd (snd (refuse_unauthenticated x fx rq p status msg ?s1)))" for p status msg
    by (rule step) (simp add: refuse_unauthenticated_def Let_def grows_core)
  moreover have "?b ?s1" using al rl by simp
  moreover have "?b ?st" "?b (upd_metrics inc_bad_request_total ?st)" by (simp_all add: upd_metrics_def)
  ultimately show ?thesis
    unfolding handle_def Let_def case_prod_beta by (simp add: fail_def split: option.split auth_outcome.split)
qed

lemma handle_roomy:
  assumes "proxy_inv st" and "roomy (Suc n) st"
  shows "roomy n (snd (snd (handle x fx rq st)))"
proof -
  let ?st = "snd (snd (handle x fx rq st))"
  have "current_config ?st = current_config st"
    using handle_keeps [of st x fx rq] by (simp add: keeps_def fixed_part_def current_config_def)
  then show ?thesis
    using handle_grows [OF assms(1), of x fx rq] assms(2) by (simp add: roomy_def)
qed

section \<open>Noninterference\<close>

text \<open>Another client's request leaves what the client sees.\<close>

lemma handle_confined:
  assumes "agree a s t" and "proxy_inv s" and "addr_wf a" and "addr_wf (rq_peer rq)" and "rq_peer rq \<noteq> a"
    and "compute_client_ip x (rq_peer rq) (rq_headers rq) (trusted_proxies x (current_config s)) \<noteq> a"
    and "\<forall>r \<in> set (unwrap_or (cfg_rules (current_config s)) []). CHR '':'' \<notin> set (r_name r)"
  shows "agree a (snd (snd (handle x fx rq s))) t"
proof -
  let ?s = "snd (snd (handle x fx rq s))"
  have keep: "proxy_inv ?s" "fixed_part ?s = fixed_part s" using handle_keeps [of s x fx rq] assms(2) by (auto simp: keeps_def)
  have "show_ip a \<noteq> show_ip (rq_peer rq)" using assms(3-5) by (auto simp: show_ip_inject)
  with handle_keeps_lockout [OF assms(2)] have "tbl_get (ps_auth_limiter ?s) (show_ip a) = tbl_get (ps_auth_limiter s) (show_ip a)" .
  moreover have "same_buckets a (ps_rate_limiter ?s) (ps_rate_limiter s)"
    using handle_keeps_bucket [OF assms(2,4,3,7)] assms(6) by (auto simp: same_buckets_def)
  ultimately show ?thesis using assms(1) keep by (simp add: agree_def proxy_inv_def same_buckets_def)
qed

text \<open>Serving requests one after the other; each answer and what was done for it, with the peer's address.\<close>

fun serve_all ::
    "external \<Rightarrow> (effects \<times> request) list \<Rightarrow> proxy_state \<Rightarrow> (ip_addr \<times> response option \<times> action list) list" where
  "serve_all x [] st = []"
| "serve_all x ((fx, rq) # rqs) st =
     (rq_peer rq, visible (handle x fx rq st)) # serve_all x rqs (snd (snd (handle x fx rq st)))"

text \<open>
  A request that is the client's or not, without doubt: it is connected from the client's address
  exactly if it is attributed to that address. Other clients may come through trusted proxies.
\<close>

definition clear_cut :: "external \<Rightarrow> proxy_config \<Rightarrow> ip_addr \<Rightarrow> request \<Rightarrow> bool" where
  "clear_cut x config a rq =
     (addr_wf (rq_peer rq)
      \<and> (compute_client_ip x (rq_peer rq) (rq_headers rq) (trusted_proxies x config) = a \<longleftrightarrow> rq_peer rq = a))"

text \<open>Every request from a peer that is no trusted proxy is clear cut, for any client.\<close>

lemma untrusted_clear_cut:
  "addr_wf (rq_peer rq) \<Longrightarrow> \<not> is_trusted x (trusted_proxies x config) (rq_peer rq) \<Longrightarrow> clear_cut x config a rq"
  by (simp add: clear_cut_def compute_client_ip_def)

lemma agree_runs:
  assumes "agree a s t" and "proxy_inv s" and "proxy_inv t" and "addr_wf a"
    and "roomy (length rqs) s" and "roomy (length (filter (\<lambda>(fx, rq). rq_peer rq = a) rqs)) t"
    and "\<forall>(fx, rq) \<in> set rqs. clear_cut x (current_config s) a rq \<and> (rq_peer rq = a \<longrightarrow> \<not> asks_metrics rq s)"
    and "\<forall>r \<in> set (unwrap_or (cfg_rules (current_config s)) []). CHR '':'' \<notin> set (r_name r)"
  shows "filter (\<lambda>(p, _). p = a) (serve_all x rqs s) = serve_all x (filter (\<lambda>(fx, rq). rq_peer rq = a) rqs) t"
  using assms
proof (induction rqs arbitrary: s t)
  case (Cons r rqs)
  obtain fx rq where r: "r = (fx, rq)" by (cases r)
  let ?s = "snd (snd (handle x fx rq s))" and ?t = "snd (snd (handle x fx rq t))"
  have d: "clear_cut x (current_config s) a rq" "rq_peer rq = a \<longrightarrow> \<not> asks_metrics rq s" using Cons.prems(7) by (auto simp: r)
  have inv: "proxy_inv ?s" "proxy_inv ?t" and fixed: "fixed_part ?s = fixed_part s"
    using handle_keeps [of s x fx rq] handle_keeps [of t x fx rq] Cons.prems(2,3) by (auto simp: keeps_def)
  have cfg: "current_config ?s = current_config s" "asks_metrics q ?s = asks_metrics q s" for q
    using fixed by (simp_all add: fixed_part_def current_config_def asks_metrics_def is_metrics_request_def split: option.split)
  have room: "roomy (length rqs) ?s" using handle_roomy [OF Cons.prems(2)] Cons.prems(5) by simp
  have rest: "\<forall>(fx, rq) \<in> set rqs. clear_cut x (current_config ?s) a rq \<and> (rq_peer rq = a \<longrightarrow> \<not> asks_metrics rq ?s)"
    "\<forall>r \<in> set (unwrap_or (cfg_rules (current_config ?s)) []). CHR '':'' \<notin> set (r_name r)"
    using Cons.prems(7,8) unfolding cfg by auto
  show ?case
  proof (cases "rq_peer rq = a")
    case True
    have "roomy 1 s" "roomy 1 t" using Cons.prems(5,6) True by (auto simp: roomy_def r)
    then have "same_outcome a (handle x fx rq s) (handle x fx rq t)"
      using handle_same [OF Cons.prems(1)] True d Cons.prems(8) unfolding clear_cut_def by blast
    then have "visible (handle x fx rq s) = visible (handle x fx rq t)" and "agree a ?s ?t"
      by (simp_all add: same_outcome_def visible_def)
    moreover have "roomy (length (filter (\<lambda>(fx, rq). rq_peer rq = a) rqs)) ?t"
      using handle_roomy [OF Cons.prems(3)] Cons.prems(6) True by (simp add: r)
    ultimately show ?thesis
      using Cons.IH [of ?s ?t] inv Cons.prems(4) room rest True by (simp add: r)
  next
    case False
    have "addr_wf (rq_peer rq)" "compute_client_ip x (rq_peer rq) (rq_headers rq) (trusted_proxies x (current_config s)) \<noteq> a"
      using d(1) False by (simp_all add: clear_cut_def)
    then have "agree a ?s t" using handle_confined [OF Cons.prems(1,2,4)] False Cons.prems(8) by blast
    with Cons.IH [of ?s t] inv(1) Cons.prems(3,4,6) room rest False show ?thesis by (simp add: r)
  qed
qed simp

text \<open>
  (C12) Noninterference of clients: in any sequence of requests, the answers that a client gets and
  what is done towards Docker for it are exactly those it would get if the requests of all other
  clients had never been made. The tables have room for the sequence, the client does not ask for
  the metrics, it is connected directly and no trusted proxy speaks in its name, and the rules' names
  have no colon. Without each of these there are ways in which clients influence each other.
\<close>

theorem clients_noninterference:
  assumes "proxy_inv st" and "addr_wf a" and "roomy (length rqs) st"
    and "\<forall>(fx, rq) \<in> set rqs. clear_cut x (current_config st) a rq \<and> (rq_peer rq = a \<longrightarrow> \<not> asks_metrics rq st)"
    and "\<forall>r \<in> set (unwrap_or (cfg_rules (current_config st)) []). CHR '':'' \<notin> set (r_name r)"
  shows "filter (\<lambda>(p, _). p = a) (serve_all x rqs st) = serve_all x (filter (\<lambda>(fx, rq). rq_peer rq = a) rqs) st"
proof (rule agree_runs [OF _ assms(1) assms(1,2,3) _ assms(4,5)])
  show "agree a st st" using assms(1) by (simp add: agree_def proxy_inv_def same_buckets_def)
  have "length (filter (\<lambda>(fx, rq). rq_peer rq = a) rqs) \<le> length rqs" by (rule length_filter_le)
  with assms(3) show "roomy (length (filter (\<lambda>(fx, rq). rq_peer rq = a) rqs)) st"
    by (auto simp: roomy_def intro: order_trans [rotated] mult_right_mono)
qed

section \<open>Witness\<close>

text \<open>Two clients that share a rate limit rule.\<close>

definition limit_rule :: rule where
  "limit_rule = rule_default\<lparr>r_name := ''limit'', r_action := ''rate_limit'',
     r_conditions := [Leaf \<lparr>c_field = ''path'', c_operator = ''starts_with'', c_value = Some (YString ''/''), compiled_regex = None\<rparr>],
     r_rate_limit := Some \<lparr>rl_requests = 2, rl_period = 60, rl_penalty = 30\<rparr>\<rparr>"

definition from_peer :: "ip_addr \<Rightarrow> effects \<times> request" where
  "from_peer p = (docker_answers ''a'', (info_request [])\<lparr>rq_peer := p\<rparr>)"

theorem clients_noninterference_witness:
  "filter (\<lambda>(p, _). p = V4 10 0 0 1)
     (serve_all no_external [from_peer (V4 10 0 0 2), from_peer (V4 10 0 0 1), from_peer (V4 10 0 0 2), from_peer (V4 10 0 0 1)]
        (open_state [limit_rule]))
   = serve_all no_external [from_peer (V4 10 0 0 1), from_peer (V4 10 0 0 1)] (open_state [limit_rule])"
proof -
  let ?rqs = "[from_peer (V4 10 0 0 2), from_peer (V4 10 0 0 1), from_peer (V4 10 0 0 2), from_peer (V4 10 0 0 1)]"
  let ?st = "open_state [limit_rule]"
  have "roomy (length ?rqs) ?st"
    by (simp add: roomy_def open_state_def fresh_state_def current_config_def tbl_defs auth_limiter_new_def rate_limiter_new_def
        MAX_AUTH_LIMITER_KEYS_def MAX_RATE_LIMIT_BUCKETS_def)
  moreover have "\<forall>(fx, rq) \<in> set ?rqs. clear_cut no_external (current_config ?st) (V4 10 0 0 1) rq
      \<and> (rq_peer rq = V4 10 0 0 1 \<longrightarrow> \<not> asks_metrics rq ?st)"
    by (auto simp: from_peer_def info_request_def clear_cut_def compute_client_ip_def trusted_proxies_def is_trusted_def open_state_def fresh_state_def
        current_config_def asks_metrics_def is_metrics_request_def split: option.split)
  moreover have "\<forall>r \<in> set (unwrap_or (cfg_rules (current_config ?st)) []). CHR '':'' \<notin> set (r_name r)"
    by (simp add: open_state_def current_config_def limit_rule_def)
  ultimately show ?thesis
    using clients_noninterference [OF open_state_inv, of "V4 10 0 0 1" ?rqs "[limit_rule]" no_external]
    by (simp add: from_peer_def)
qed

end
