(* ===== verification/Tunnel_Limit.thy ===== *)
theory Tunnel_Limit
  imports Interleaving Noninterference
begin

text \<open>
  The connection limit and upgrades. A permit is returned when the future that serves the connection
  completes, and after a successful upgrade it completes at once: the two ends are handed to the relay
  task, which holds no permit. So the limit does not bound the upgraded connections.
\<close>

text \<open>Docker switches protocols.\<close>

definition docker_switches :: effects where
  "docker_switches = (docker_answers [])\<lparr>fx_send := \<lambda>_. Done (101, [])\<rparr>"

lemma upgrade_spawns:
  assumes "core st = core (sv_proxy free_server)" and "ps_metrics_path st = None"
  shows "\<exists>resp st'. serve_conn no_external l None handshake docker_switches (info_request upgrade_headers) st
           = Some (resp, [Connect ''/var/run/docker.sock'', SendRequest (info_sent ''upgrade'' [(''upgrade'', ''tcp'')]), SpawnTunnel], st')
         \<and> core st' = core st \<and> ps_metrics_path st' = None"
proof -
  have st: "ps_config_holder st = free_config" "ps_auth_limiter st = []" "ps_rate_limiter st = rate_limiter_new"
    "ps_socket_path st = ''/var/run/docker.sock''"
    using assms(1) by (auto simp: core_def fixed_part_def free_eval auth_limiter_new_def)
  have core: "core (s\<lparr>ps_metrics := m, ps_rate_limiter := rate_limiter_new\<rparr>) = core (s\<lparr>ps_rate_limiter := rate_limiter_new\<rparr>)"
    "core (s\<lparr>ps_metrics := m\<rparr>) = core s" for s m
    by (simp_all add: core_def fixed_part_def)
  have same: "core (st\<lparr>ps_rate_limiter := rate_limiter_new\<rparr>) = core st" using st(3) by (simp add: core_def fixed_part_def)
  show ?thesis
    using st assms(2) same
    by (simp add: serve_conn_def serve_plain_def docker_switches_def handle_eval upgrade_headers_def free_config_def
        proxy_config_default_def decision_allow_def core forwardable_def HOP_BY_HOP_HEADERS_def)
qed

text \<open>One client more: its connection is accepted, upgraded, and its permit returned.\<close>

lemma one_more_tunnel:
  assumes "reachable no_external free_yaml s" and "sv_listening s" and "sv_live s = []" and "sv_acceptor s = None"
    and "core (sv_proxy s) = core (sv_proxy free_server)" and "ps_metrics_path (sv_proxy s) = None"
  shows "\<exists>st. core st = core (sv_proxy free_server) \<and> ps_metrics_path st = None
           \<and> reachable no_external free_yaml (s\<lparr>sv_proxy := st, sv_tunnels := Suc (sv_tunnels s)\<rparr>)"
proof -
  let ?acts = "[Connect ''/var/run/docker.sock'', SendRequest (info_sent ''upgrade'' [(''upgrade'', ''tcp'')]), SpawnTunnel]"
  let ?s1 = "s\<lparr>sv_live := [(sv_gen s, None)]\<rparr>"
  have "accept_conn s = ?s1" using assms(3,4) by (simp add: accept_conn_def permits_used_def MAX_CONCURRENT_CONNS_def)
  with reach_step [OF assms(1) step_accept [OF assms(2)]] have r1: "reachable no_external free_yaml ?s1" by simp
  obtain resp st where served: "serve_conn no_external stub_tls None Elapsed docker_switches (info_request upgrade_headers) (sv_proxy ?s1)
      = Some (resp, ?acts, st)" and st: "core st = core (sv_proxy s)" "ps_metrics_path st = None"
    using upgrade_spawns [OF assms(5,6), of stub_tls Elapsed] by auto
  have "server_step no_external free_yaml ?s1 (served ?acts st ?s1)"
    by (rule step_request [OF _ served, of "sv_gen s"]) simp
  with r1 have "reachable no_external free_yaml (served ?acts st ?s1)" by (rule reach_step)
  then have "reachable no_external free_yaml (release (sv_gen s, None) (served ?acts st ?s1))"
    by (rule reach_step [OF _ step_close])
  moreover have "release (sv_gen s, None) (served ?acts st ?s1) = s\<lparr>sv_proxy := st, sv_tunnels := Suc (sv_tunnels s)\<rparr>"
    using assms(3) by (simp add: release_def served_def)
  ultimately show ?thesis using st assms(5) by auto
qed

text \<open>
  (C18) The limit of 1024 does not bound the upgraded connections: for every number \<open>n\<close> the server can
  reach a state in which \<open>n\<close> tunnels are open through its first listener and not one permit is taken.
\<close>

theorem upgrades_escape_limit:
  "\<exists>x from_str s. reachable x from_str s \<and> sv_gen s = 1 \<and> permits_used s = 0 \<and> sv_tunnels s = n"
proof -
  let ?s = "\<lambda>st. free_server\<lparr>sv_listening := True, sv_gen := 1, sv_proxy := st, sv_tunnels := n\<rparr>"
  have "\<exists>st. core st = core (sv_proxy free_server) \<and> ps_metrics_path st = None \<and> reachable no_external free_yaml (?s st)"
  proof (induction n)
    case 0
    have "server_start no_external free_yaml free_server"
      unfolding free_server_def by (rule boots) (simp_all add: free_yaml_loads free_eval)
    then have "reachable no_external free_yaml free_server" unfolding reachable_def by blast
    moreover obtain addr where "create_listener stub_tls docker_world (\<lambda>_. Inr ()) (current_config (sv_proxy free_server)) = Inr (addr, None)"
      by (simp add: create_listener_def global_opt_def free_eval current_config_def)
    ultimately have "reachable no_external free_yaml (free_server\<lparr>sv_listening := True, sv_gen := 1\<rparr>)"
      using rebind_reaches [of no_external free_yaml free_server] by (fastforce simp: free_eval)
    moreover have "ps_metrics_path (sv_proxy free_server) = None" by (simp add: free_eval metrics_path_of_def global_opt_def)
    ultimately show ?case by (intro exI [of _ "sv_proxy free_server"]) (simp add: free_server_def serving_def)
  next
    case (Suc n)
    then obtain st where st: "core st = core (sv_proxy free_server)" "ps_metrics_path st = None"
      and r: "reachable no_external free_yaml (free_server\<lparr>sv_listening := True, sv_gen := 1, sv_proxy := st, sv_tunnels := n\<rparr>)"
      by blast
    from one_more_tunnel [OF r] st show ?case by (auto simp: free_server_def serving_def)
  qed
  then obtain st where "reachable no_external free_yaml (?s st)" by blast
  then show ?thesis by (intro exI [of _ no_external] exI [of _ free_yaml] exI [of _ "?s st"])
    (simp add: permits_used_def free_server_def serving_def)
qed

end
