(* ===== verification/Auth_Race.thy ===== *)
theory Auth_Race
  imports Auth
begin

text \<open>
  Authentication at the granularity of its locks. \<^verbatim>\<open>authenticate\<close> takes the lock of the lockout
  table twice, in \<^verbatim>\<open>is_blocked\<close> and in \<^verbatim>\<open>record_failure\<close> or \<^verbatim>\<open>record_success\<close>; what is between
  reads only data that does not change while the request is handled. Requests on other threads
  come in between, so several guesses can pass the first lock before the first of them is
  recorded. This theory bounds how many.
\<close>

section \<open>The two critical sections\<close>

definition auth_gate :: "instant \<Rightarrow> ip_addr \<Rightarrow> proxy_state \<Rightarrow> bool" where
  "auth_gate now peer st = al_is_blocked now (show_ip peer) (ps_auth_limiter st)"

definition auth_decide ::
    "external \<Rightarrow> instant \<Rightarrow> proxy_config \<Rightarrow> headers \<Rightarrow> ip_addr \<Rightarrow> cert_identity option \<Rightarrow>
       proxy_state \<Rightarrow> auth_outcome option \<times> proxy_state" where
  "auth_decide x now config hs peer cert st =
     (let auth_key = show_ip peer
      in if auth_type config = Some ''none'' then (Some (Allowed None None), st)
         else if auth_type config = Some ''mtls'' then authenticate_mtls now auth_key config cert st
         else authenticate_bearer x now auth_key config hs st)"

lemma authenticate_pieces:
  "authenticate x clk config hs peer cert st =
     (if auth_gate (fst clk) peer st then (Some (Denied 429 ''Too many authentication failures''), st)
      else auth_decide x (snd clk) config hs peer cert st)"
  by (simp add: authenticate_def auth_gate_def auth_decide_def Let_def)

lemma bad_decision:
  assumes "bearer_configured config (ps_env_secret st)" and "bad_token x config (ps_env_secret st) hs"
  shows "\<exists>msg. auth_decide x now config hs peer cert st = auth_failure now (show_ip peer) msg st"
proof (cases "extract_bearer_token x hs")
  case (Inl u)
  with assms show ?thesis
    by (auto simp: auth_decide_def authenticate_bearer_def bearer_configured_def Let_def)
next
  case (Inr t)
  with assms show ?thesis
    by (cases t) (auto simp: auth_decide_def authenticate_bearer_def bearer_configured_def bad_token_def Let_def)
qed

lemma good_decision:
  assumes "bearer_configured config (ps_env_secret st)" and "\<not> bad_token x config (ps_env_secret st) hs"
  shows "\<exists>role. auth_decide x now config hs peer cert st = (Some (Allowed (Some role) None), auth_success (show_ip peer) st)"
  using assms by (auto simp: auth_decide_def authenticate_bearer_def bearer_configured_def bad_token_def Let_def)

section \<open>Guessing in parallel\<close>

text \<open>
  Requests of one address under bearer authentication, in the minute that begins at \<open>start\<close>, with at
  most \<open>limit\<close> of them between their two locks at any time. The state is the proxy's, the number of
  requests between the locks, and the times of the failures since the address last presented a valid token:
  that success clears its entry. A step of another kind (other clients, the sweeper, a reload) leaves the
  address's entry alone, and as long as it has none the table has room.
\<close>

type_synonym guessing = "proxy_state \<times> nat \<times> instant list"

inductive guess_step :: "ip_addr \<Rightarrow> instant \<Rightarrow> nat \<Rightarrow> guessing \<Rightarrow> guessing \<Rightarrow> bool" for peer start limit where
  guess_enter: "\<not> auth_gate now peer st \<Longrightarrow> now \<le> start + AUTH_FAIL_WINDOW \<Longrightarrow> p < limit \<Longrightarrow>
    guess_step peer start limit (st, p, ts) (st, Suc p, ts)"
| guess_fail: "bearer_configured config (ps_env_secret st) \<Longrightarrow> bad_token x config (ps_env_secret st) hs \<Longrightarrow>
    start \<le> now \<Longrightarrow> now \<le> start + AUTH_FAIL_WINDOW \<Longrightarrow> auth_decide x now config hs peer cert st = (r, st') \<Longrightarrow>
    guess_step peer start limit (st, Suc p, ts) (st', p, ts @ [now])"
| guess_right: "bearer_configured config (ps_env_secret st) \<Longrightarrow> \<not> bad_token x config (ps_env_secret st) hs \<Longrightarrow>
    auth_decide x now config hs peer cert st = (r, st') \<Longrightarrow>
    guess_step peer start limit (st, Suc p, ts) (st', p, [])"
| guess_other: "tbl_get (ps_auth_limiter st') (show_ip peer) = tbl_get (ps_auth_limiter st) (show_ip peer) \<Longrightarrow>
    al_inv (ps_auth_limiter st') \<Longrightarrow>
    tbl_get (ps_auth_limiter st) (show_ip peer) = None \<longrightarrow> tbl_len (ps_auth_limiter st') < MAX_AUTH_LIMITER_KEYS \<Longrightarrow>
    guess_step peer start limit (st, p, ts) (st', p, ts)"

text \<open>What is known about the entry of the address after failures at the times \<open>ts\<close>.\<close>

definition entry_after :: "instant \<Rightarrow> instant list \<Rightarrow> auth_lockout_state \<Rightarrow> bool" where
  "entry_after start ts e =
     (start \<le> first_failure e \<and> list_all (\<lambda>t. start \<le> t) ts
      \<and> (case lockout_until e of
           None \<Rightarrow> unat (failures e) = length ts \<and> length ts < 10
         | Some u \<Rightarrow> 10 \<le> length ts \<and> u = ts ! 9 + AUTH_FAIL_LOCKOUT))"

definition guess_inv :: "ip_addr \<Rightarrow> instant \<Rightarrow> nat \<Rightarrow> guessing \<Rightarrow> bool" where
  "guess_inv peer start limit g =
     (case g of (st, p, ts) \<Rightarrow>
        al_inv (ps_auth_limiter st) \<and> p \<le> limit \<and> length ts + p \<le> 9 + limit
        \<and> (case tbl_get (ps_auth_limiter st) (show_ip peer) of
             None \<Rightarrow> ts = [] \<and> tbl_len (ps_auth_limiter st) < MAX_AUTH_LIMITER_KEYS
           | Some e \<Rightarrow> entry_after start ts e))"

lemma locked_late:
  assumes "entry_after start ts e" and "lockout_until e = Some u"
  shows "start + AUTH_FAIL_LOCKOUT \<le> u"
  using assms by (auto simp: entry_after_def list_all_length)

lemma lockout_failure_after:
  assumes "entry_after start ts e" and "start \<le> now" and "now \<le> start + AUTH_FAIL_WINDOW"
    and "start + AUTH_FAIL_WINDOW + AUTH_FAIL_LOCKOUT \<le> instant_max"
  shows "entry_after start (ts @ [now]) (snd (lockout_failure now AUTH_FAIL_MAX AUTH_FAIL_WINDOW AUTH_FAIL_LOCKOUT e))"
proof (cases "lockout_until e")
  case None
  have win: "now - first_failure e \<le> AUTH_FAIL_WINDOW" and lt: "unat (failures e) < unat AUTH_FAIL_MAX"
    using assms(1,3) None by (auto simp: entry_after_def AUTH_FAIL_MAX_def)
  note count = lockout_failure_count [OF None win lt, of AUTH_FAIL_LOCKOUT]
  have s: "unat (saturating_add (failures e) 1) = Suc (length ts)"
    using unat_saturating_Suc [OF lt] assms(1) None by (simp add: entry_after_def)
  show ?thesis
  proof (cases "Suc (length ts) < 10")
    case True
    then show ?thesis using count(1) assms(1,2) None s by (simp add: entry_after_def AUTH_FAIL_MAX_def)
  next
    case False
    then have "length ts = 9" using assms(1) None by (simp add: entry_after_def)
    then show ?thesis using count(2) assms None by (simp add: entry_after_def AUTH_FAIL_MAX_def nth_append)
  qed
next
  case (Some u)
  have "now < u" using locked_late [OF assms(1) Some] assms(3)
    by (simp add: AUTH_FAIL_WINDOW_def AUTH_FAIL_LOCKOUT_def from_secs_def NANOS_PER_SEC_def)
  moreover have "\<not> AUTH_FAIL_WINDOW < now - first_failure e" using assms(1,3) by (auto simp: entry_after_def)
  ultimately show ?thesis using assms(1,2) Some by (simp add: lockout_failure_def entry_after_def Let_def nth_append)
qed

lemma guess_inv_fail:
  assumes "guess_inv peer start limit (st, Suc p, ts)" and "start \<le> now" and "now \<le> start + AUTH_FAIL_WINDOW"
    and "start + AUTH_FAIL_WINDOW + AUTH_FAIL_LOCKOUT \<le> instant_max"
  shows "guess_inv peer start limit (snd (auth_failure now (show_ip peer) msg st), p, ts @ [now])"
proof -
  let ?al = "ps_auth_limiter st" and ?k = "show_ip peer"
  let ?e = "unwrap_or (tbl_get ?al ?k) (fresh_lockout now)"
  let ?al' = "snd (al_record_failure now ?k AUTH_FAIL_MAX AUTH_FAIL_WINDOW AUTH_FAIL_LOCKOUT ?al)"
  have inv: "al_inv ?al" using assms(1) by (simp add: guess_inv_def)
  have "entry_after start ts ?e"
    using assms(1,2) by (auto simp: guess_inv_def entry_after_def fresh_lockout_def split: option.splits)
  from lockout_failure_after [OF this assms(2-4)]
  have "entry_after start (ts @ [now]) (snd (lockout_failure now AUTH_FAIL_MAX AUTH_FAIL_WINDOW AUTH_FAIL_LOCKOUT ?e))" .
  moreover have "tbl_get ?al' ?k = Some (snd (lockout_failure now AUTH_FAIL_MAX AUTH_FAIL_WINDOW AUTH_FAIL_LOCKOUT ?e))"
    using assms(1) inv by (auto simp: guess_inv_def al_record_failure_def al_inv_def case_prod_beta Let_def split: option.splits)
  ultimately show ?thesis
    using assms(1) al_record_failure_inv [OF inv] by (simp add: guess_inv_def auth_failure_state)
qed

lemma guess_inv_right:
  assumes "guess_inv peer start limit (st, Suc p, ts)"
  shows "guess_inv peer start limit (auth_success (show_ip peer) st, p, [])"
proof -
  let ?al = "ps_auth_limiter st" and ?k = "show_ip peer"
  have inv: "al_inv ?al" "tbl_wf ?al" "tbl_len ?al \<le> MAX_AUTH_LIMITER_KEYS" using assms by (auto simp: guess_inv_def al_inv_def)
  have "tbl_len (tbl_del ?k ?al) < MAX_AUTH_LIMITER_KEYS"
  proof (cases "tbl_get ?al ?k")
    case None
    with assms tbl.len_del [OF inv(2), of ?k] show ?thesis by (simp add: guess_inv_def)
  next
    case (Some e)
    with tbl.len_del_less [OF inv(2), of ?k] inv(3) show ?thesis by simp
  qed
  then show ?thesis
    using assms inv al_record_success_inv [OF inv(1), of ?k] by (simp add: guess_inv_def auth_success_def al_record_success_def)
qed

lemma guess_inv_gate:
  assumes "guess_inv peer start limit (st, p, ts)" and "10 \<le> length ts" and "now < ts ! 9 + AUTH_FAIL_LOCKOUT"
  shows "auth_gate now peer st"
  using assms by (auto simp: guess_inv_def entry_after_def auth_gate_def al_is_blocked_def split: option.splits)

lemma guess_inv_enter:
  assumes "guess_inv peer start limit (st, p, ts)" and "\<not> auth_gate now peer st" and "now \<le> start + AUTH_FAIL_WINDOW" and "p < limit"
  shows "guess_inv peer start limit (st, Suc p, ts)"
proof -
  have early: "now < start + AUTH_FAIL_LOCKOUT"
    using assms(3) by (simp add: AUTH_FAIL_WINDOW_def AUTH_FAIL_LOCKOUT_def from_secs_def NANOS_PER_SEC_def)
  have "length ts < 10"
  proof (rule ccontr)
    assume "\<not> length ts < 10"
    moreover from this have "start \<le> ts ! 9"
      using assms(1) by (auto simp: guess_inv_def entry_after_def list_all_length split: option.splits)
    ultimately show False using guess_inv_gate [OF assms(1), of now] early assms(2) by simp
  qed
  with assms(1,4) show ?thesis by (simp add: guess_inv_def)
qed

definition clock_fits :: "instant \<Rightarrow> bool" where
  "clock_fits start = (start + AUTH_FAIL_WINDOW + AUTH_FAIL_LOCKOUT \<le> instant_max)"

text \<open>The address has no failures on record, the table has room, and nobody is guessing yet.\<close>

definition guess_start :: "ip_addr \<Rightarrow> guessing \<Rightarrow> bool" where
  "guess_start peer g =
     (case g of (st, p, ts) \<Rightarrow> p = 0 \<and> ts = [] \<and> al_inv (ps_auth_limiter st)
        \<and> tbl_get (ps_auth_limiter st) (show_ip peer) = None \<and> tbl_len (ps_auth_limiter st) < MAX_AUTH_LIMITER_KEYS)"

interpretation guesses: transition_system "guess_start peer" "guess_step peer start limit"
    "\<lambda>g. clock_fits start \<longrightarrow> guess_inv peer start limit g"
proof (unfold_locales, goal_cases)
  case (1 g)
  then show ?case by (auto simp: guess_start_def guess_inv_def)
next
  case (2 g g')
  from 2(1) show ?case
  proof cases
    case guess_enter
    with 2(2) show ?thesis using guess_inv_enter by blast
  next
    case (guess_fail config st x hs now cert r st' p ts)
    from bad_decision [OF guess_fail(3,4), of now peer cert] guess_fail(7)
    obtain msg where "st' = snd (auth_failure now (show_ip peer) msg st)" by (metis snd_conv)
    with guess_fail 2(2) show ?thesis using guess_inv_fail by (auto simp: clock_fits_def)
  next
    case (guess_right config st x hs now cert r st' p ts)
    from good_decision [OF guess_right(3,4), of now peer cert] guess_right(5)
    have "st' = auth_success (show_ip peer) st" by auto
    with guess_right 2(2) show ?thesis using guess_inv_right by blast
  next
    case (guess_other st' st p ts)
    with 2(2) show ?thesis by (auto simp: guess_inv_def split: option.splits)
  qed
qed

text \<open>
  (C36) Guessing in parallel is bounded: from a state in which the address has no failures on record and
  the table has room, however its requests interleave at the locks of the lockout table, with each other
  and with everything else, in the minute after \<open>start\<close> the tokens tried without success since its
  last valid one are at most nine more than requests are in flight at once; and from the tenth of
  these failures on, every request is refused with 429 for five minutes. (One after the other, that is ten
  guesses. A client that has a valid token can start afresh.)
\<close>

theorem parallel_guesses_bounded:
  assumes "al_inv (ps_auth_limiter st)" and "tbl_get (ps_auth_limiter st) (show_ip peer) = None"
    and "tbl_len (ps_auth_limiter st) < MAX_AUTH_LIMITER_KEYS"
    and "start + AUTH_FAIL_WINDOW + AUTH_FAIL_LOCKOUT \<le> instant_max"
    and "(guess_step peer start limit)\<^sup>*\<^sup>* (st, 0, []) (st', p, ts)"
  shows "length ts + p \<le> 9 + limit
       \<and> (10 \<le> length ts \<and> fst clk < ts ! 9 + AUTH_FAIL_LOCKOUT \<longrightarrow>
            authenticate x clk config hs peer cert st' = (Some (Denied 429 ''Too many authentication failures''), st'))"
proof -
  have "guess_start peer (st, 0, [])" using assms(1-3) by (simp add: guess_start_def)
  from guesses.reached_inv [OF this assms(5)] assms(4) have inv: "guess_inv peer start limit (st', p, ts)"
    by (simp add: clock_fits_def)
  then show ?thesis
    using guess_inv_gate [OF inv] by (auto simp: guess_inv_def authenticate_pieces)
qed

section \<open>A full table\<close>

lemma full_table_failure:
  assumes "MAX_AUTH_LIMITER_KEYS \<le> tbl_len (ps_auth_limiter st)" and "tbl_get (ps_auth_limiter st) (show_ip peer) = None"
    and "bearer_configured config (ps_env_secret st)" and "bad_token x config (ps_env_secret st) hs"
  shows "ps_auth_limiter (snd (authenticate x clk config hs peer cert st)) = ps_auth_limiter st"
    and "ps_env_secret (snd (authenticate x clk config hs peer cert st)) = ps_env_secret st"
proof -
  have "\<not> al_is_blocked (fst clk) (show_ip peer) (ps_auth_limiter st)" using assms(2) by (simp add: al_is_blocked_def)
  from bad_attempt [OF assms(3,4) this, of cert] obtain msg
    where "authenticate x clk config hs peer cert st = auth_failure (snd clk) (show_ip peer) msg st" by blast
  then show "ps_auth_limiter (snd (authenticate x clk config hs peer cert st)) = ps_auth_limiter st"
    "ps_env_secret (snd (authenticate x clk config hs peer cert st)) = ps_env_secret st"
    using assms(1,2) by (simp_all add: auth_failure_state al_record_failure_def)
qed

text \<open>
  A full table protects nobody new: while it holds 16384 addresses, the failures of an
  address that is not among them are not recorded. It is never locked out: after any number of
  wrong tokens the right one is admitted.
\<close>

theorem full_table_allows_guessing:
  assumes "MAX_AUTH_LIMITER_KEYS \<le> tbl_len (ps_auth_limiter st)" and "tbl_get (ps_auth_limiter st) (show_ip peer) = None"
    and "bearer_configured config (ps_env_secret st)"
    and "\<forall>(clk, hs) \<in> set as. bad_token x config (ps_env_secret st) hs"
    and "extract_bearer_token x hs = Inr (Some token)" and "resolve_token_role config (ps_env_secret st) token = Some role"
  shows "fst (authenticate x clk config hs peer cert (authenticate_all x config peer cert as st)) = Some (Allowed (Some role) None)"
proof -
  have "ps_auth_limiter (authenticate_all x config peer cert as st) = ps_auth_limiter st
      \<and> ps_env_secret (authenticate_all x config peer cert as st) = ps_env_secret st"
    using assms(1-4)
  proof (induction as arbitrary: st)
    case (Cons a as)
    obtain c h where a: "a = (c, h)" by (cases a)
    with Cons.prems(4) have "bad_token x config (ps_env_secret st) h" by simp
    note full = full_table_failure [OF Cons.prems(1-3) this, of c cert]
    show ?case using Cons.IH [of "snd (authenticate x c config h peer cert st)"] Cons.prems by (simp add: a full)
  qed simp
  then show ?thesis
    using assms(2,3,5,6)
    by (simp add: authenticate_def authenticate_bearer_def bearer_configured_def al_is_blocked_def Let_def)
qed

section \<open>Witnesses\<close>

lemma no_token_bad: "bad_token x config s []"
  by (simp add: bad_token_def extract_bearer_token_def header_get_all_def)

lemma token_config_bearer: "bearer_configured token_config (ps_env_secret fresh_state)"
  by (simp add: bearer_configured_def auth_eval)

theorem parallel_guesses_bounded_witness:
  "\<exists>st'. (guess_step (V4 10 0 0 1) 5 2)\<^sup>*\<^sup>* (fresh_state, 0, []) (st', 1, [5]) \<and> length [5 :: instant] + 1 \<le> 9 + (2 :: nat)"
proof -
  let ?g = "guess_step (V4 10 0 0 1) 5 2"
  obtain r st' where d: "auth_decide no_external 5 token_config [] (V4 10 0 0 1) None fresh_state = (r, st')" by fastforce
  have "\<not> auth_gate 5 (V4 10 0 0 1) fresh_state" by (simp add: auth_gate_def auth_eval)
  then have "?g (fresh_state, 0, []) (fresh_state, 1, [])" "?g (fresh_state, 1, []) (fresh_state, Suc 1, [])"
    using guess_enter [of 5 "V4 10 0 0 1" fresh_state 5 0 2 "[]"] guess_enter [of 5 "V4 10 0 0 1" fresh_state 5 1 2 "[]"] by simp_all
  moreover have "?g (fresh_state, Suc 1, []) (st', 1, [5])"
    using guess_fail [OF token_config_bearer no_token_bad _ _ d, of 5 2 1 "[]"] by simp
  ultimately have run: "?g\<^sup>*\<^sup>* (fresh_state, 0, []) (st', 1, [5])" by (meson converse_rtranclp_into_rtranclp r_into_rtranclp)
  have inv: "al_inv (ps_auth_limiter fresh_state)" using al.inv_init by (simp add: fresh_state_def)
  have new: "tbl_get (ps_auth_limiter fresh_state) (show_ip (V4 10 0 0 1)) = None"
    and room: "tbl_len (ps_auth_limiter fresh_state) < MAX_AUTH_LIMITER_KEYS"
    by (simp_all add: fresh_state_def auth_limiter_new_def tbl_defs MAX_AUTH_LIMITER_KEYS_def)
  have fits: "5 + AUTH_FAIL_WINDOW + AUTH_FAIL_LOCKOUT \<le> instant_max"
    by (simp add: AUTH_FAIL_WINDOW_def AUTH_FAIL_LOCKOUT_def from_secs_def NANOS_PER_SEC_def instant_max_def)
  from parallel_guesses_bounded [OF inv new room fits run] run show ?thesis by blast
qed

definition full_auth_table :: auth_limiter where
  "full_auth_table = map (\<lambda>i. (show_nat i, fresh_lockout 0)) [0..<16384]"

theorem full_table_allows_guessing_witness:
  "fst (authenticate no_external (9, 9) token_config (bearer ''s3cret'') (V4 10 0 0 1) None
     (authenticate_all no_external token_config (V4 10 0 0 1) None (replicate 1000 ((5, 5), []))
       (fresh_state\<lparr>ps_auth_limiter := full_auth_table\<rparr>))) = Some (Allowed (Some ''ci'') None)"
proof (rule full_table_allows_guessing [where token = "''s3cret''"])
  have "CHR ''.'' \<notin> set (show_nat i)" for i
    using show_nat_digits [of "CHR ''.''" i] by auto
  moreover have "CHR ''.'' \<in> set (show_ip (V4 10 0 0 1))" by (simp add: show_ipv4_def)
  ultimately have "show_ip (V4 10 0 0 1) \<noteq> show_nat i" for i by metis
  then show "tbl_get (ps_auth_limiter (fresh_state\<lparr>ps_auth_limiter := full_auth_table\<rparr>)) (show_ip (V4 10 0 0 1)) = None"
    by (simp add: full_auth_table_def tbl_defs map_of_eq_None_iff image_iff)
  show "resolve_token_role token_config (ps_env_secret (fresh_state\<lparr>ps_auth_limiter := full_auth_table\<rparr>)) ''s3cret'' = Some ''ci''"
    using resolve_token_role_refines [OF sample_token(2), of "''s3cret''"] by (simp add: auth_eval)
qed (use token_config_bearer sample_token no_token_bad in
      \<open>auto simp: full_auth_table_def tbl_len_def MAX_AUTH_LIMITER_KEYS_def fresh_state_def\<close>)

end
