(* ===== verification/Docker_Rate.thy ===== *)
theory Docker_Rate
  imports Noninterference Proxy_Safety
begin

text \<open>
  The rate limit end to end: how many requests of a client reach Docker. The bound on the checks of
  one bucket carries over to the proxy, since a request that reaches Docker has passed the check
  of every rate limit rule that applies to it, and nobody else touches the client's buckets.
\<close>

section \<open>The check behind a contact\<close>

text \<open>
  If the rules let a request through, an enforced rate limit rule that matches it, with no bypass
  before it and with a name of its own, has admitted it; its check is the only one of its bucket.
\<close>

lemma evaluate_passes_limit:
  assumes "fst (evaluate_request_detailed x clk (rs1 @ r # rs2) ctx rl) = Some d" and "d_result d = Allow"
    and "\<forall>b \<in> set rs1. \<not> bypasses x b ctx" and "rl_inv rl"
    and "rate_key r ctx \<notin> (\<lambda>r. rate_key r ctx) ` (set rs1 \<union> set rs2)"
    and "rule_matches x r ctx" and "r_action r = ''rate_limit''" and "\<not> is_dry r" and "r_rate_limit r = Some cfg"
  shows "\<exists>rl1. rl_inv rl1 \<and> tbl_get rl1 (rate_key r ctx) = tbl_get rl (rate_key r ctx)
       \<and> fst (rl_check (clk (length rs1)) (rate_key r ctx) (rl_requests cfg) (rl_period cfg) (rl_penalty cfg) rl1) = Some True
       \<and> tbl_get (snd (evaluate_request_detailed x clk (rs1 @ r # rs2) ctx rl)) (rate_key r ctx)
           = tbl_get (snd (rl_check (clk (length rs1)) (rate_key r ctx) (rl_requests cfg) (rl_period cfg) (rl_penalty cfg) rl1))
               (rate_key r ctx)"
  using assms
proof (induction rs1 arbitrary: clk rl)
  case Nil
  let ?chk = "rl_check (clk 0) (rate_key r ctx) (rl_requests cfg) (rl_period cfg) (rl_penalty cfg) rl"
  obtain res rl' where chk: "?chk = (res, rl')" by fastforce
  have ap: "apply_rule x (clk 0) r ctx rl =
      (case res of None \<Rightarrow> (Panicked, rl') | Some True \<Rightarrow> (Next, rl')
       | Some False \<Rightarrow> (Decide (block_decision r ''rate_limit'' (unwrap_or (r_status r) 429) (unwrap_or (r_message r) ''Rate limit exceeded'')), rl'))"
    using Nil.prems(6-9) chk by (simp add: apply_rule_def)
  have res: "res = Some True"
    using Nil.prems(1,2,8) ap by (auto simp: block_decision_def split: option.splits bool.splits)
  have inv: "rl_inv rl'" using rl_check_inv [OF Nil.prems(4)] chk by (metis snd_conv)
  have "tbl_get (snd (evaluate_request_detailed x (\<lambda>i. clk (Suc i)) rs2 ctx rl')) (rate_key r ctx) = tbl_get rl' (rate_key r ctx)"
    using Nil.prems(5) by (intro evaluate_frame [OF inv]) auto
  then show ?case using Nil.prems(4) chk res ap by (intro exI [of _ rl]) simp
next
  case (Cons b rs1)
  let ?k = "rate_key r ctx"
  obtain stp rl' where ap: "apply_rule x (clk 0) b ctx rl = (stp, rl')" by fastforce
  have inv: "rl_inv rl'" using apply_rule_inv [OF Cons.prems(4)] ap by (metis snd_conv)
  have nb: "\<not> bypasses x b ctx" using Cons.prems(3) by simp
  have next': "stp = Next"
    using Cons.prems(1,2) ap apply_rule_allow [of x "clk 0" b ctx rl _ rl'] nb by (cases stp) auto
  have "?k \<notin> (\<lambda>r. rate_key r ctx) ` set [b]" using Cons.prems(5) by auto
  from evaluate_frame [OF Cons.prems(4) this, of x clk] have get: "tbl_get rl' ?k = tbl_get rl ?k"
    using ap next' by simp
  have "fst (evaluate_request_detailed x (\<lambda>i. clk (Suc i)) (rs1 @ r # rs2) ctx rl') = Some d"
    using Cons.prems(1) ap next' by simp
  from Cons.IH [OF this Cons.prems(2) _ inv _ Cons.prems(6-9)] Cons.prems(3,5)
  show ?case using ap next' get by auto
qed

lemma after_rules_contact:
  assumes "fst (snd (case r of None \<Rightarrow> (None, [], s)
      | Some d \<Rightarrow> (case d_result d of Deny status msg \<Rightarrow> deny_request x fx rq lc d status msg b (note_dry_run fx rq lc d s)
                   | Allow \<Rightarrow> go d (note_dry_run fx rq lc d s)))) \<noteq> []"
  shows "is_some_and r (\<lambda>d. d_result d = Allow)"
  using assms by (auto simp: deny_request_acts is_some_and_def split: option.splits rule_result.splits)

text \<open>The evaluation that admitted a request and the buckets it left.\<close>

lemma handle_plain_evaluated:
  assumes "fst (snd (handle_plain x fx rq lc st)) \<noteq> []"
  shows "\<exists>b. is_some_and (fst (run_rules x fx rq lc b st)) (\<lambda>d. d_result d = Allow)
       \<and> ps_rate_limiter (snd (snd (handle_plain x fx rq lc st))) = ps_rate_limiter (snd (run_rules x fx rq lc b st))"
proof -
  from assms obtain body bj where h: "handle_plain x fx rq lc st = forward_plain x fx rq lc body bj st"
    by (auto simp: handle_plain_def fail_def split: timed.splits body_error.splits sum.splits)
  let ?go = "\<lambda>d s. call_docker x fx rq lc [(''connection'', ''close'')] body
      (finish_response x fx (collect_response_filters x (lc_rules lc) (eval_context rq lc bj))) s"
  have "is_some_and (fst (run_rules x fx rq lc bj st)) (\<lambda>d. d_result d = Allow)"
    using assms unfolding h forward_plain_def case_prod_beta Let_def
    by (rule after_rules_contact [where go = ?go])
  moreover have "core (snd (snd (forward_plain x fx rq lc body bj st))) = core (snd (run_rules x fx rq lc bj st))"
    unfolding forward_plain_def case_prod_beta Let_def
    by (rule after_rules_core [where go = ?go]) (simp add: core_call_docker)
  ultimately show ?thesis unfolding h by (auto dest: core_eqD)
qed

lemma handle_upgrade_evaluated:
  assumes "fst (snd (handle_upgrade_request x fx rq lc st)) \<noteq> []"
  shows "\<exists>b. is_some_and (fst (run_rules x fx rq lc b st)) (\<lambda>d. d_result d = Allow)
       \<and> ps_rate_limiter (snd (snd (handle_upgrade_request x fx rq lc st))) = ps_rate_limiter (snd (run_rules x fx rq lc b st))"
proof -
  let ?st = "upd_metrics inc_upgrade_total st"
  let ?go = "\<lambda>d s. handle_upgrade x fx rq lc (upd_metrics inc_requests_allowed s)"
  have "is_some_and (fst (run_rules x fx rq lc None ?st)) (\<lambda>d. d_result d = Allow)"
    using assms unfolding handle_upgrade_request_def case_prod_beta Let_def
    by (rule after_rules_contact [where go = ?go])
  moreover have "core (snd (snd (handle_upgrade_request x fx rq lc st))) = core (snd (run_rules x fx rq lc None ?st))"
    unfolding handle_upgrade_request_def case_prod_beta Let_def
    by (rule after_rules_core [where go = ?go]) (simp add: handle_upgrade_def core_call_docker)
  moreover have "fst (run_rules x fx rq lc None ?st) = fst (run_rules x fx rq lc None st)"
    "ps_rate_limiter (snd (run_rules x fx rq lc None ?st)) = ps_rate_limiter (snd (run_rules x fx rq lc None st))"
    by (simp_all add: run_rules_def2 upd_metrics_def)
  ultimately show ?thesis by (intro exI [of _ None]) (auto dest: core_eqD)
qed

lemma contact_evaluated:
  assumes "fst (snd (handle x fx rq st)) \<noteq> []"
  shows "\<exists>path role identity b. canonicalize_path (rq_path rq) = Some path
     \<and> (let ctx = eval_context rq (make_locals x rq (current_config st) path role identity) b;
            ev = evaluate_request_detailed x (fx_rule_clock fx) (unwrap_or (cfg_rules (current_config st)) []) ctx (ps_rate_limiter st)
        in is_some_and (fst ev) (\<lambda>d. d_result d = Allow) \<and> ps_rate_limiter (snd (snd (handle x fx rq st))) = snd ev)"
proof -
  from assms obtain path role identity st1 where h: "canonicalize_path (rq_path rq) = Some path"
    and rl: "ps_rate_limiter st1 = ps_rate_limiter st"
    and eq: "handle x fx rq st = (if is_upgrade_request x (rq_headers rq)
       then handle_upgrade_request x fx rq (make_locals x rq (current_config st) path role identity) st1
       else handle_plain x fx rq (make_locals x rq (current_config st) path role identity) st1)"
    by (rule handle_cases)
  let ?lc = "make_locals x rq (current_config st) path role identity"
  obtain b where "is_some_and (fst (run_rules x fx rq ?lc b st1)) (\<lambda>d. d_result d = Allow)
       \<and> ps_rate_limiter (snd (snd (handle x fx rq st))) = ps_rate_limiter (snd (run_rules x fx rq ?lc b st1))"
    using handle_plain_evaluated [of x fx rq ?lc st1] handle_upgrade_evaluated [of x fx rq ?lc st1] assms
    unfolding eq by (auto split: if_splits)
  moreover have "lc_rules ?lc = unwrap_or (cfg_rules (current_config st)) []" by (simp add: make_locals_def)
  ultimately show ?thesis
    using h rl by (intro exI [of _ path] exI [of _ role] exI [of _ identity] exI [of _ b]) (simp add: run_rules_def2 Let_def)
qed

section \<open>A client's run\<close>

text \<open>The requests that the proxy attributes to a client, and when a rule's limiter is asked about them.\<close>

definition speaks_for :: "external \<Rightarrow> proxy_config \<Rightarrow> ip_addr \<Rightarrow> request \<Rightarrow> bool" where
  "speaks_for x config a rq =
     (compute_client_ip x (rq_peer rq) (rq_headers rq) (trusted_proxies x config) = a)"

definition own_times :: "external \<Rightarrow> proxy_config \<Rightarrow> ip_addr \<Rightarrow> nat \<Rightarrow> (effects \<times> request) list \<Rightarrow> instant list" where
  "own_times x config a i rqs =
     map (\<lambda>(fx, rq). fx_rule_clock fx i) (filter (\<lambda>(fx, rq). speaks_for x config a rq) rqs)"

lemma own_times_simps [simp]:
  "own_times x config a i [] = []"
  "own_times x config a i ((fx, rq) # rqs) =
     (if speaks_for x config a rq then [fx_rule_clock fx i] else []) @ own_times x config a i rqs"
  by (simp_all add: own_times_def)

text \<open>Every request of the client reaches Docker.\<close>

fun all_reach :: "external \<Rightarrow> ip_addr \<Rightarrow> (effects \<times> request) list \<Rightarrow> proxy_state \<Rightarrow> bool" where
  "all_reach x a [] st = True"
| "all_reach x a ((fx, rq) # rqs) st =
     ((speaks_for x (current_config st) a rq \<longrightarrow> fst (snd (handle x fx rq st)) \<noteq> [])
      \<and> all_reach x a rqs (snd (snd (handle x fx rq st))))"

text \<open>The rule that limits the client: enforced, applicable to all its requests, and named like no other.\<close>

definition limits_client ::
    "external \<Rightarrow> proxy_config \<Rightarrow> ip_addr \<Rightarrow> rule list \<Rightarrow> rule \<Rightarrow> rule list \<Rightarrow> request \<Rightarrow> bool" where
  "limits_client x config a rs1 r rs2 rq =
     (speaks_for x config a rq \<longrightarrow>
       (\<forall>ctx. seen_as x rq config ctx \<longrightarrow> rule_matches x r ctx \<and> (\<forall>b \<in> set rs1. \<not> bypasses x b ctx)))"

text \<open>An admitted check is admitted by every limiter with the same bucket, and leaves it the same bucket.\<close>

lemma rl_check_admitted_same:
  assumes "fst (rl_check now k m per pen rl) = Some True" and "tbl_wf rl" and "tbl_wf rl'"
    and "tbl_get rl' k = tbl_get rl k" and "tbl_get rl' k = None \<longrightarrow> tbl_len rl' < MAX_RATE_LIMIT_BUCKETS"
  shows "fst (rl_check now k m per pen rl') = Some True"
    and "tbl_get (snd (rl_check now k m per pen rl')) k = tbl_get (snd (rl_check now k m per pen rl)) k"
    and "tbl_get (snd (rl_check now k m per pen rl')) k \<noteq> None" and "m \<noteq> 0"
  using assms by (auto simp: rl_check_def Let_def case_prod_beta split: if_splits)

text \<open>One request of the client that reaches Docker.\<close>

lemma own_contact:
  assumes "fst (snd (handle x fx rq st)) \<noteq> []" and "proxy_inv st"
    and "cfg_rules (current_config st) = Some (rs1 @ r # rs2)" and "r_name r \<notin> r_name ` (set rs1 \<union> set rs2)"
    and "r_action r = ''rate_limit''" and "\<not> is_dry r" and "r_rate_limit r = Some cfg"
    and "speaks_for x (current_config st) a rq" and "limits_client x (current_config st) a rs1 r rs2 rq"
  shows "\<exists>rl1. tbl_wf rl1
       \<and> tbl_get rl1 (r_name r @ '':'' @ show_ip a) = tbl_get (ps_rate_limiter st) (r_name r @ '':'' @ show_ip a)
       \<and> (let c = rl_check (fx_rule_clock fx (length rs1)) (r_name r @ '':'' @ show_ip a) (rl_requests cfg) (rl_period cfg) (rl_penalty cfg) rl1
          in fst c = Some True
             \<and> tbl_get (ps_rate_limiter (snd (snd (handle x fx rq st)))) (r_name r @ '':'' @ show_ip a)
                 = tbl_get (snd c) (r_name r @ '':'' @ show_ip a))"
proof -
  obtain path role identity b where p: "canonicalize_path (rq_path rq) = Some path"
    and ev: "let ctx = eval_context rq (make_locals x rq (current_config st) path role identity) b;
            ev = evaluate_request_detailed x (fx_rule_clock fx) (unwrap_or (cfg_rules (current_config st)) []) ctx (ps_rate_limiter st)
        in is_some_and (fst ev) (\<lambda>d. d_result d = Allow) \<and> ps_rate_limiter (snd (snd (handle x fx rq st))) = snd ev"
    using contact_evaluated [OF assms(1)] by blast
  let ?ctx = "eval_context rq (make_locals x rq (current_config st) path role identity) b"
  let ?ev = "evaluate_request_detailed x (fx_rule_clock fx) (rs1 @ r # rs2) ?ctx (ps_rate_limiter st)"
  have seen: "seen_as x rq (current_config st) ?ctx" using p unfolding seen_as_def by blast
  have key: "rate_key r ?ctx = r_name r @ '':'' @ show_ip a"
    using assms(8) by (simp add: rate_key_def eval_context_def make_locals_def speaks_for_def)
  have other: "rate_key r ?ctx \<notin> (\<lambda>r. rate_key r ?ctx) ` (set rs1 \<union> set rs2)"
    using assms(4) by (auto simp: rate_key_def)
  obtain d where d: "fst ?ev = Some d" "d_result d = Allow"
    and rl: "ps_rate_limiter (snd (snd (handle x fx rq st))) = snd ?ev"
    using ev assms(3) by (auto simp: Let_def is_some_and_def split: option.splits)
  have m: "rule_matches x r ?ctx" "\<forall>b \<in> set rs1. \<not> bypasses x b ?ctx"
    using assms(8,9) seen by (auto simp: limits_client_def)
  have inv: "rl_inv (ps_rate_limiter st)" using assms(2) by (simp add: proxy_inv_def)
  from evaluate_passes_limit [OF d m(2) inv other m(1) assms(5-7)] show ?thesis
    unfolding rl key Let_def by (auto simp: rl_inv_def)
qed

text \<open>
  The checks behind a run: as long as the client's requests reach Docker, a limiter of its own
  that starts with the same bucket admits the checks made at the same times.
\<close>

lemma run_admitted:
  assumes "all_reach x a rqs st" and "proxy_inv st" and "addr_wf a" and "\<forall>(fx, rq) \<in> set rqs. addr_wf (rq_peer rq)"
    and "cfg_rules (current_config st) = Some (rs1 @ r # rs2)" and "\<forall>r \<in> set (rs1 @ r # rs2). CHR '':'' \<notin> set (r_name r)"
    and "r_name r \<notin> r_name ` (set rs1 \<union> set rs2)"
    and "r_action r = ''rate_limit''" and "\<not> is_dry r" and "r_rate_limit r = Some cfg"
    and "\<forall>(fx, rq) \<in> set rqs. limits_client x (current_config st) a rs1 r rs2 rq"
    and "tbl_wf rl" and "tbl_get rl (r_name r @ '':'' @ show_ip a) = tbl_get (ps_rate_limiter st) (r_name r @ '':'' @ show_ip a)"
    and "tbl_get rl (r_name r @ '':'' @ show_ip a) = None \<longrightarrow> tbl_len rl < MAX_RATE_LIMIT_BUCKETS"
  shows "set (fst (rl_checks (r_name r @ '':'' @ show_ip a) (rl_requests cfg) (rl_period cfg) (rl_penalty cfg)
            (own_times x (current_config st) a (length rs1) rqs) rl)) \<subseteq> {Some True}
       \<and> (own_times x (current_config st) a (length rs1) rqs \<noteq> [] \<longrightarrow> rl_requests cfg \<noteq> 0)"
  using assms
proof (induction rqs arbitrary: st rl)
  case (Cons q rqs)
  obtain fx rq where q: "q = (fx, rq)" by (cases q)
  let ?st = "snd (snd (handle x fx rq st))" and ?k = "r_name r @ '':'' @ show_ip a"
  let ?chk = "rl_check (fx_rule_clock fx (length rs1)) ?k (rl_requests cfg) (rl_period cfg) (rl_penalty cfg)"
  have keep: "proxy_inv ?st" "current_config ?st = current_config st"
    using handle_keeps [of st x fx rq] Cons.prems(2) by (auto simp: keeps_def fixed_part_def current_config_def)
  have rest: "all_reach x a rqs ?st" "\<forall>(fx, rq) \<in> set rqs. addr_wf (rq_peer rq)"
    "\<forall>(fx, rq) \<in> set rqs. limits_client x (current_config ?st) a rs1 r rs2 rq"
    "cfg_rules (current_config ?st) = Some (rs1 @ r # rs2)"
    using Cons.prems(1,4,5,11) unfolding keep(2) q by auto
  note IH = Cons.IH [OF rest(1) keep(1) Cons.prems(3) rest(2,4) Cons.prems(6-10) rest(3)]
  have lim: "limits_client x (current_config st) a rs1 r rs2 rq" using Cons.prems(11) by (simp add: q)
  show ?case
  proof (cases "speaks_for x (current_config st) a rq")
    case True
    then have "fst (snd (handle x fx rq st)) \<noteq> []" using Cons.prems(1) by (simp add: q)
    from own_contact [OF this Cons.prems(2,5,7-10) True lim] obtain rl1 where rl1: "tbl_wf rl1"
      "tbl_get rl1 ?k = tbl_get (ps_rate_limiter st) ?k" "fst (?chk rl1) = Some True"
      "tbl_get (ps_rate_limiter ?st) ?k = tbl_get (snd (?chk rl1)) ?k"
      by (auto simp: Let_def)
    have same: "fst (?chk rl) = Some True" "tbl_get (snd (?chk rl)) ?k = tbl_get (ps_rate_limiter ?st) ?k"
      "tbl_get (snd (?chk rl)) ?k \<noteq> None" "rl_requests cfg \<noteq> 0"
      using rl_check_admitted_same [OF rl1(3,1) Cons.prems(12)] rl1(2,4) Cons.prems(13,14) by auto
    have "tbl_get (snd (?chk rl)) ?k = None \<longrightarrow> tbl_len (snd (?chk rl)) < MAX_RATE_LIMIT_BUCKETS" using same(3) by blast
    from IH [OF rl_check_wf [OF Cons.prems(12)] same(2) this] show ?thesis
      using same(1,4) True keep(2) by (simp add: q rl_checks_Cons del: rl_checks.simps)
  next
    case False
    have "tbl_get (ps_rate_limiter ?st) ?k = tbl_get (ps_rate_limiter st) ?k"
      using False Cons.prems(4,5,6) by (intro handle_keeps_bucket [OF Cons.prems(2) _ Cons.prems(3)]) (auto simp: q speaks_for_def)
    with IH [of rl] show ?thesis using Cons.prems(12-14) False keep(2) by (simp add: q)
  qed
qed simp

section \<open>The bound\<close>

text \<open>
  (C11) The rate limit end to end: take a client without a bucket for a rate limit rule that is
  enforced and whose name no other rule has, no rule name having a colon. Let the rule match all
  requests that are judged under the client's address, with any role and any body, and let no rule
  before it be a bypass for them. Whatever other clients do meanwhile, if all these requests reach
  Docker, at increasing clock readings, there are no more of them than the rule's capacity and what
  refills between the first and the last, up to rounding: a longer run has a request that does not
  reach Docker.
\<close>

theorem docker_rate_bounded:
  assumes "all_reach x a rqs st" and "proxy_inv st" and "addr_wf a" and "\<forall>(fx, rq) \<in> set rqs. addr_wf (rq_peer rq)"
    and "cfg_rules (current_config st) = Some (rs1 @ r # rs2)" and "\<forall>r \<in> set (rs1 @ r # rs2). CHR '':'' \<notin> set (r_name r)"
    and "r_name r \<notin> r_name ` (set rs1 \<union> set rs2)"
    and "r_action r = ''rate_limit''" and "\<not> is_dry r" and "r_rate_limit r = Some cfg"
    and "\<forall>(fx, rq) \<in> set rqs. limits_client x (current_config st) a rs1 r rs2 rq"
    and "tbl_get (ps_rate_limiter st) (r_name r @ '':'' @ show_ip a) = None"
    and "own_times x (current_config st) a (length rs1) rqs = t # ts" and "sorted (t # ts)"
  shows "of_nat (length (t # ts)) * (1 - u64_as_f64 (rl_requests cfg) / 2 ^ 53)
           \<le> u64_as_f64 (rl_requests cfg)
             + seconds (last (t # ts) - t) * refill_rate (rl_requests cfg) (rl_period cfg) * (1 + 1 / 2 ^ 53) ^ 4"
proof -
  let ?k = "r_name r @ '':'' @ show_ip a"
  have new: "rl_inv []" "tbl_get [] ?k = (None :: rate_bucket option)" "tbl_wf ([] :: rate_limiter)"
    "tbl_len ([] :: rate_limiter) < MAX_RATE_LIMIT_BUCKETS"
    using rl.inv_init by (simp_all add: rate_limiter_new_def tbl_defs MAX_RATE_LIMIT_BUCKETS_def)
  have "set (fst (rl_checks ?k (rl_requests cfg) (rl_period cfg) (rl_penalty cfg) (t # ts) [])) \<subseteq> {Some True}
      \<and> rl_requests cfg \<noteq> 0"
    using run_admitted [OF assms(1-11) new(3)] new assms(12,13) by simp
  then show ?thesis using rate_limit_bound [OF new(1,2) _ assms(14)] by blast
qed

section \<open>Witness\<close>

text \<open>Two requests of a client, around one of another client, under the rule that admits two.\<close>

definition limited :: "rate_limiter \<Rightarrow> proxy_state \<Rightarrow> bool" where
  "limited rl st = (core st = core ((open_state [limit_rule])\<lparr>ps_rate_limiter := rl\<rparr>))"

lemma limitedD:
  assumes "limited rl st"
  shows "ps_config_holder st = ps_config_holder (open_state [limit_rule])" "ps_metrics_path st = None"
    "ps_auth_limiter st = []" "ps_rate_limiter st = rl" "core (st\<lparr>ps_rate_limiter := rl'\<rparr>) = core ((open_state [limit_rule])\<lparr>ps_rate_limiter := rl'\<rparr>)"
    "current_config st = current_config (open_state [limit_rule])"
  using assms by (auto simp: limited_def core_def fixed_part_def current_config_def open_state_def fresh_state_def auth_limiter_new_def)

lemma limited_sample:
  assumes "limited rl st" and "rl_check 0 (''limit:'' @ show_ip p) 2 60 30 rl = (Some True, rl')"
  shows "case from_peer p of (fx, rq) \<Rightarrow> fst (snd (handle no_external fx rq st)) \<noteq> []
           \<and> limited rl' (snd (snd (handle no_external fx rq st)))"
proof -
  have "core (s\<lparr>ps_metrics := m, ps_rate_limiter := rl'\<rparr>) = core (s\<lparr>ps_rate_limiter := rl'\<rparr>)" for s m
    by (simp add: core_def fixed_part_def)
  then have "case from_peer p of (fx, rq) \<Rightarrow> fst (snd (handle no_external fx rq st)) \<noteq> []
      \<and> core (snd (snd (handle no_external fx rq st))) = core (st\<lparr>ps_rate_limiter := rl'\<rparr>)"
    using limitedD(1-4) [OF assms(1)] assms(2)
    by (simp add: from_peer_def handle_eval rule_eval limit_rule_def compute_client_ip_def is_trusted_def trusted_proxies_def
        eval_context_def rate_key_def finish_response_acts decision_allow_def)
  then show ?thesis using limitedD(5) [OF assms(1)] by (simp add: limited_def split: prod.splits)
qed

theorem docker_rate_bounded_witness:
  "all_reach no_external (V4 10 0 0 1) [from_peer (V4 10 0 0 1), from_peer (V4 10 0 0 2), from_peer (V4 10 0 0 1)] (open_state [limit_rule])
   \<and> of_nat (length [0::nat, 0]) * (1 - u64_as_f64 2 / 2 ^ 53)
        \<le> u64_as_f64 2 + seconds (last [0::nat, 0] - 0) * refill_rate 2 60 * (1 + 1 / 2 ^ 53) ^ 4"
proof -
  let ?a = "V4 10 0 0 1" and ?b = "V4 10 0 0 2" and ?st = "open_state [limit_rule]"
  let ?rqs = "[from_peer ?a, from_peer ?b, from_peer ?a]"
  let ?k = "\<lambda>p. ''limit:'' @ show_ip p" and ?bucket = "\<lambda>n. \<lparr>last_check = 0, tokens = n, max_tokens = 2, blocked_until = None\<rparr>"
  have ne: "?k ?a \<noteq> ?k ?b" by code_simp
  have chk: "rl_check 0 (?k ?a) 2 60 30 [] = (Some True, [(?k ?a, ?bucket 1)])"
    "rl_check 0 (?k ?b) 2 60 30 [(?k ?a, ?bucket 1)] = (Some True, [(?k ?a, ?bucket 1), (?k ?b, ?bucket 1)])"
    "\<exists>rl'. rl_check 0 (?k ?a) 2 60 30 [(?k ?a, ?bucket 1), (?k ?b, ?bucket 1)] = (Some True, rl')"
    using ne by (simp_all add: rl_eval)
  obtain rl' where chk3: "rl_check 0 (?k ?a) 2 60 30 [(?k ?a, ?bucket 1), (?k ?b, ?bucket 1)] = (Some True, rl')"
    using chk(3) by blast
  obtain fa ra fb rb where req: "from_peer ?a = (fa, ra)" "from_peer ?b = (fb, rb)" by (meson surj_pair)
  have l0: "limited [] ?st" by (simp add: limited_def open_state_def fresh_state_def rate_limiter_new_def)
  note r1 = limited_sample [OF l0 chk(1), unfolded req prod.case]
  note r2 = limited_sample [OF r1 [THEN conjunct2] chk(2), unfolded req prod.case]
  note r3 = limited_sample [OF r2 [THEN conjunct2] chk3, unfolded req prod.case]
  have reach: "all_reach no_external ?a ?rqs ?st" unfolding req using r1 r2 r3 by simp
  have own: "own_times no_external (current_config ?st) ?a (length []) ?rqs = 0 # [0]"
    by (simp add: from_peer_def speaks_for_def compute_client_ip_def is_trusted_def trusted_proxies_def open_state_def fresh_state_def
        current_config_def docker_answers_def info_request_def)
  have "rule_matches no_external limit_rule ctx" if "seen_as no_external (info_request []\<lparr>rq_peer := p\<rparr>) (current_config ?st) ctx" for ctx p
    using that by (auto simp: seen_as_def info_request_def info_path eval_context_def make_locals_def limit_rule_def rule_eval)
  then have lim: "\<forall>(fx, rq) \<in> set ?rqs. limits_client no_external (current_config ?st) ?a [] limit_rule [] rq"
    by (auto simp: limits_client_def from_peer_def)
  have wf: "\<forall>(fx, rq) \<in> set ?rqs. addr_wf (rq_peer rq)" by (simp add: from_peer_def)
  have "tbl_get (ps_rate_limiter ?st) (r_name limit_rule @ '':'' @ show_ip ?a) = None"
    using l0 by (simp add: limitedD(4) tbl_get_def)
  from docker_rate_bounded [OF reach open_state_inv _ wf _ _ _ _ _ _ lim this own, of "\<lparr>rl_requests = 2, rl_period = 60, rl_penalty = 30\<rparr>"] reach
  show ?thesis by (simp add: limit_rule_def is_dry_def rule_default_def open_state_def current_config_def)
qed

end
