(* ===== verification/Spec2Isabelle.thy ===== *)
theory Spec2Isabelle
  imports Setup_Wizard Request_Log Tunnel_Limit Auth_Race Docker_Rate
begin

text \<open>
  Verification of \<^bold>\<open>docker-proxy\<close>, an HTTP proxy in front of the Docker socket that authenticates
  callers, evaluates access rules on every request and filters Docker's answers.

  \<^bold>\<open>The program.\<close> \<^verbatim>\<open>src/src/main.rs\<close> starts the process, loads the configuration
  (\<^verbatim>\<open>config.rs\<close>), opens a plain or TLS listener (\<^verbatim>\<open>tls.rs\<close>) and serves connections. A request
  goes through \<^verbatim>\<open>handle\<close>: its path is canonicalised, the caller is authenticated by bearer token or
  client certificate under a lockout per address, the rules and the rate limiter (\<^verbatim>\<open>rules.rs\<close>)
  decide, the request is rebuilt and sent to Docker, and the JSON answer is filtered. Upgrade
  requests (\<^verbatim>\<open>upgrade.rs\<close>) become tunnels. Decisions are counted (\<^verbatim>\<open>metrics.rs\<close>) and audited
  (\<^verbatim>\<open>audit.rs\<close>). SIGHUP reloads the configuration. \<^verbatim>\<open>setup.rs\<close> is a separate program that writes a
  configuration from a dialogue.

  \<^bold>\<open>Theories and sources.\<close>
  \<^item> \<open>Prelude\<close>: machine integers, Rust's string routines, time, saturating addition.
    \<open>Hash_Table\<close>, \<open>Transition_System\<close>, \<open>Keyed_Limiter\<close>, \<open>Float64\<close>: the interfaces below.
  \<^item> \<open>Json_Value\<close> (\<^verbatim>\<open>rules.rs\<close>: \<^verbatim>\<open>json_get\<close>, \<^verbatim>\<open>json_get_mut\<close>, \<^verbatim>\<open>json_remove\<close>, \<^verbatim>\<open>value_equal\<close>),
    \<open>Net_Addr\<close> (\<^verbatim>\<open>IpAddr\<close> parsing and printing), \<open>External\<close> (the parameters).
  \<^item> \<open>Config\<close> (\<^verbatim>\<open>config.rs\<close>): the data model, environment expansion and overrides, regular
    expression compilation, validation, priority sort, both loaders. \<open>Saved_Config\<close>: a configuration
    that is saved and loaded again.
  \<^item> \<open>Rate_Limiter\<close>, \<open>Auth_Limiter\<close> (\<^verbatim>\<open>rules.rs\<close>): the two mutex-protected tables.
  \<^item> \<open>Conditions\<close>, \<open>Rule_Engine\<close>, \<open>Response_Filter\<close> (\<^verbatim>\<open>rules.rs\<close>): matching of conditions,
    \<^verbatim>\<open>evaluate_request_detailed\<close>, \<^verbatim>\<open>apply_response_filters\<close>.
  \<^item> \<open>Request_Path\<close>, \<open>Client_Ip\<close>, \<open>Http\<close>, \<open>Request_Log\<close>, \<open>Auth\<close> (\<^verbatim>\<open>main.rs\<close>, \<^verbatim>\<open>upgrade.rs\<close>): what
    \<^verbatim>\<open>handle\<close> is built from. \<open>Tls_Identity\<close> (\<^verbatim>\<open>tls.rs\<close>), \<open>Metrics\<close>, \<open>Audit_Log\<close>.
  \<^item> \<open>Proxy\<close> (\<^verbatim>\<open>main.rs\<close>): \<^verbatim>\<open>handle\<close> and \<^verbatim>\<open>handle_upgrade\<close> with every guard and early return.
    \<open>Proxy_Safety\<close> and \<open>Proxy_State\<close> hold the theorems about one request, \<open>Noninterference\<close> and
    \<open>Docker_Rate\<close> those about runs of requests of several clients; \<open>Tunnel\<close> is the task an upgrade spawns.
  \<^item> \<open>Startup\<close> (\<^verbatim>\<open>main\<close> up to the accept loop), \<open>Server\<close> (accept loop, connections, sweeper, audit task and
    reload as a step relation), \<open>Interleaving\<close> (the handler cut at its awaits, and concurrent requests),
    \<open>Tunnel_Limit\<close> (upgraded connections and the connection limit), \<open>Auth_Race\<close> (\<^verbatim>\<open>authenticate\<close> cut
    between its two locks, and concurrent guesses and successes of one address),
    \<open>Setup_Wizard\<close> (\<^verbatim>\<open>setup.rs\<close>). This theory: properties across components.

  \<^bold>\<open>How the code is represented.\<close> A struct is a record, an enum a datatype, a machine integer a word,
  a Rust string or byte vector a list of characters (its UTF-8 bytes). \<^verbatim>\<open>Result\<close> is a sum with the
  error on the left, a panic is \<^const>\<open>None\<close> in the position of the result. The shared
  \<^verbatim>\<open>ProxyState\<close> is the record \<^typ>\<open>proxy_state\<close>, passed and returned. Every lock
  recovers from poisoning, so the state after a panic is the one left behind and is returned too.
  \<^const>\<open>handle\<close> takes the external code, the outcomes of one request's input and output
  (\<^typ>\<open>effects\<close>: clock readings, the body or why it could not be read, connection, handshake,
  Docker's answer as a function of what it was sent), the request and the state. It returns the
  response, what was done towards Docker (\<^typ>\<open>action\<close>) and the new state. Timeouts are outcomes of
  \<^typ>\<open>effects\<close>. A body read takes the length limit as its argument, and the theorems that need it
  assume that \<^verbatim>\<open>Limited\<close> returns no longer body.

  Token counts of the rate limiter are \<^verbatim>\<open>f64\<close>: rationals on which every operation rounds to 53 bits,
  ties to even. Overflow of a clock addition, wrap-around of counters and saturation are written
  out.

  \<^bold>\<open>Interfaces.\<close> \<open>hash_table\<close> is what the tables' users rely on (interpreted for the association
  lists of the model); \<open>transition_system\<close> the induction over reachable states (interpreted for the
  server, for the server with its suspended requests and for concurrent guesses, and a consequence of \<open>keyed_limiter\<close>); \<open>keyed_limiter\<close> a table whose operations touch one key
  (interpreted for both limiters); \<open>rounding\<close> the laws of floating-point rounding (interpreted for
  the 53-bit rounding); \<open>handler_frame\<close> a relation between states that every update of a handler
  respects, hence the handler and its pieces (interpreted for the state invariant, for other addresses' lockouts,
  for other clients' buckets, and for the audit log, which is only extended, and left alone by a request that
  finds its channel full or closed).

  \<^bold>\<open>What is shown.\<close>
  \<^item> Access: Docker is contacted only for authenticated requests that the rules allowed, with exactly the
    headers listed and the body the rules saw, also when requests and reloads interleave; an enforced rule that
    blocks a request on its path, role and body shields Docker; an unconfigured proxy admits nobody; mtls
    without a client CA admits nobody.
  \<^item> Authentication: what an admission rests on, the constant-time comparison, roles of tokens and
    certificates, the lockout after ten failures within a minute of the first on record, the ten failures that
    its fixed window misses, how many guesses can race past it, what a full table means, and that a request
    touches the entries of no other address.
  \<^item> Clients: in a run of requests a directly connected client gets the answers it would get alone, as
    long as the limiter tables have room. The table that is full is what clients share, and the reason for
    that condition.
  \<^item> Paths and addresses: the form of canonical paths, the spellings that reach the same path, those that
    escape, where the client address comes from (all about what the rules see; Docker reads the path it is sent
    once more), and that printed addresses are unambiguous.
  \<^item> Rules and filters: evaluation is first match (a satisfied \<^verbatim>\<open>require_role\<close> decides nothing), every denial is justified, redacted fields are masked,
    and exactly the filters of the matching rules are applied.
  \<^item> Limits: the number of requests a bucket admits from above and from below, and from there how many of a
    client's requests reach Docker in a row whatever other clients do; penalties, what the sweeps change,
    the limit on the connections that are served.
  \<^item> Records: every request is counted once, every refusal audited once if the audit channel takes it, the audit
    file holds the lines of a subsequence of the events, cut short where a write failed, the histogram is exact, labels are escaped reversibly, log lines
    cannot be forged.
  \<^item> Configuration and life cycle: what a loaded configuration satisfies, that the active one always
    does, that only a reload changes it, when what the wizard writes is loaded back as it was, that every
    request is answered, and exactly when a tunnel ends.

  The theorems marked as escapes or exhaustion state behaviour of the code that its documentation
  does not intend: a path encoded twice, an encoded question mark, response filters and refused
  upgrades, a second version prefix, a full bucket table, listeners counted apart after a reload,
  upgraded connections that count nowhere, tunnels stuck in a write, wizard rules that never apply.

  \<^bold>\<open>Bounds.\<close> No definition uses fuel. The copy loop of a tunnel may run for ever: it is a partial
  function on an infinite stream of turns, \<^const>\<open>None\<close> when it does or when a write never completes, and
  the streams on which it returns are characterised. The recursions that are not structural have termination proofs
  (\<^const>\<open>show_radix\<close>, \<^const>\<open>utf8_valid\<close>). The exponent range of \<^verbatim>\<open>f64\<close> is left out since the
  limiter's values stay far inside it. The accept loop and the background tasks, which run for
  ever, are steps of a relation.

  \<^bold>\<open>Parameters.\<close> Code that is not in the repository is an argument: regular expressions, CIDR
  networks, JSON parsing and printing, header and status validation (\<^typ>\<open>external\<close>), the
  environment and the file system (\<^typ>\<open>world\<close>), YAML parsing (\<open>from_str\<close>), the PEM and X.509 parsers
  and the handshake of rustls, the dialogue of the wizard. A theorem that relies on one says so in a
  hypothesis about that argument.

  \<^bold>\<open>Not modelled.\<close> The engines of tokio, hyper and rustls. Requests interleave where the handler
  awaits; between two awaits a piece of the handler is one step, while threads of the real program
  interleave there too, at the granularity of the locks and atomic counters. That is taken into account
  for authentication only, where it matters. Diagnostic lines other than the
  text of the request log. The prompts and messages of the wizard. The macOS socket
  candidates, the Windows stubs, \<^verbatim>\<open>lib.rs\<close> (module declarations) and the tests.
\<close>

section \<open>Rules and the handler\<close>

text \<open>
  (C5) A blocking rule shields Docker: if, on the canonical path, with the role that authentication gives
  the caller and with the body of the request (none for an upgrade), an enforced rule of the active
  configuration blocks the request and no earlier rule is a bypass for it, then Docker is not
  contacted. This holds for \<^verbatim>\<open>deny\<close> and \<^verbatim>\<open>require_role\<close> rules, with conditions on any field.
\<close>

theorem enforced_rule_shields_docker:
  assumes "handle x fx rq st = (resp, acts, st')" and "cfg_rules (current_config st) = Some (rs1 @ r # rs2)"
    and "\<And>ctx. rules_see x fx rq st ctx \<Longrightarrow> blocks x r ctx"
    and "\<And>ctx b. rules_see x fx rq st ctx \<Longrightarrow> b \<in> set rs1 \<Longrightarrow> \<not> bypasses x b ctx"
  shows "acts = []"
proof (rule ccontr)
  assume "acts \<noteq> []"
  from contact_authorised [OF assms(1) this] obtain lc bj
    where au: "authorised x fx rq st lc bj" and body: "seen_body x fx rq (lc_path lc) bj" by blast
  let ?ctx = "eval_context rq lc bj"
  from au obtain path role identity st1 where p: "canonicalize_path (rq_path rq) = Some path"
    and auth: "authenticate x (fx_auth_clock fx) (current_config st) (rq_headers rq) (rq_peer rq) (rq_cert rq)
             (upd_metrics inc_requests_total st) = (Some (Allowed role identity), st1)"
    and lc: "lc = make_locals x rq (current_config st) path role identity"
    and al: "is_some_and (fst (evaluate_request_detailed x (fx_rule_clock fx) (lc_rules lc) ?ctx (ps_rate_limiter st)))
             (\<lambda>d. d_result d = Allow)"
    unfolding authorised_def by blast
  from al obtain d where ev: "fst (evaluate_request_detailed x (fx_rule_clock fx) (lc_rules lc) ?ctx (ps_rate_limiter st)) = Some d"
    and allow: "d_result d = Allow" by (auto simp: is_some_and_def split: option.splits)
  have "lc_path lc = path" by (simp add: lc make_locals_def)
  then have seen: "rules_see x fx rq st ?ctx" using p auth body unfolding rules_see_def lc by auto
  have "lc_rules lc = rs1 @ r # rs2" using assms(2) by (simp add: lc make_locals_def)
  then have "fst (evaluate_request_detailed x (fx_rule_clock fx) (rs1 @ r # rs2) ?ctx (ps_rate_limiter st)) = Some d"
    using ev by simp
  moreover have "\<forall>b \<in> set rs1. \<not> bypasses x b ?ctx" using assms(4) [OF seen] by blast
  ultimately have "\<exists>code msg. d_result d = Deny code msg" using deny_enforced [OF assms(3) [OF seen]] by blast
  with allow show False by simp
qed

text \<open>Without authentication nobody has a role, so a \<^verbatim>\<open>require_role\<close> rule keeps everybody out.\<close>

theorem enforced_rule_shields_docker_witness:
  "fst (snd (handle no_external (docker_answers ''a'') (info_request plain_headers)
     (open_state ([path_rule ''ping'' ''allow'' ''equals'' ''/_ping''] @ path_rule ''admins'' ''require_role'' ''starts_with'' ''/'' # [])))) = []"
proof -
  let ?rs = "[path_rule ''ping'' ''allow'' ''equals'' ''/_ping''] @ path_rule ''admins'' ''require_role'' ''starts_with'' ''/'' # []"
  obtain resp acts st' where h: "handle no_external (docker_answers ''a'') (info_request plain_headers) (open_state ?rs) = (resp, acts, st')"
    by (metis prod.collapse)
  have seen: "ctx_path ctx = ''/info'' \<and> ctx_user_role ctx = None"
    if "rules_see no_external (docker_answers ''a'') (info_request plain_headers) (open_state ?rs) ctx" for ctx
    using that by (auto simp: rules_see_def info_request_def info_path eval_context_def make_locals_def authenticate_def
        al_is_blocked_def open_state_def fresh_state_def current_config_def upd_metrics_def auth_limiter_new_def tbl_get_def
        auth_type_def)
  have "acts = []"
  proof (rule enforced_rule_shields_docker [OF h])
    show "cfg_rules (current_config (open_state ?rs)) = Some ?rs" by (simp add: open_state_def current_config_def)
    show "blocks no_external (path_rule ''admins'' ''require_role'' ''starts_with'' ''/'') ctx"
      if "rules_see no_external (docker_answers ''a'') (info_request plain_headers) (open_state ?rs) ctx" for ctx
      using seen [OF that] by (simp add: blocks_def rule_eval role_satisfied_def required_role_def unwrap_or_def)
    show "\<not> bypasses no_external b ctx"
      if "rules_see no_external (docker_answers ''a'') (info_request plain_headers) (open_state ?rs) ctx"
        and "b \<in> set [path_rule ''ping'' ''allow'' ''equals'' ''/_ping'']" for ctx b
      using seen [OF that(1)] that(2) by (simp add: bypasses_def rule_eval)
  qed
  with h show ?thesis by simp
qed

text \<open>
  (C23) What a rule names is the path after one decoding, while Docker decodes what it is sent once more. So a
  deny rule can be bypassed: for every text \<open>s\<close> (not starting with a percent sign), a proxy that denies
  all paths starting with \<open>/s\<close> forwards the request whose path is \<open>s\<close> encoded twice, with a
  target that decodes to \<open>/s\<close>.
\<close>

theorem double_encoding_bypasses_rule:
  assumes "s \<noteq> []" and "hd s \<noteq> CHR ''%''" and "9 * length s < MAX_PATH_LEN"
  shows "\<exists>req. SendRequest req \<in> set (fst (snd (handle no_external (docker_answers b)
             ((info_request [])\<lparr>rq_path := CHR ''/'' # percent_encode (percent_encode s)\<rparr>)
             (open_state [path_rule name ''deny'' ''starts_with'' (CHR ''/'' # s)]))))
           \<and> percent_decode (ur_uri req) = Some (CHR ''/'' # s)"
proof -
  obtain seen where c: "canonicalize_path (CHR ''/'' # percent_encode (percent_encode s)) = Some seen"
    and pre: "prefix ''/%'' seen" and t: "percent_decode seen = Some (CHR ''/'' # s)"
    using double_encoding_escapes [OF assms(1,3)] by blast
  have "\<not> prefix (CHR ''/'' # s) seen" using assms(1,2) pre by (cases s) (auto simp: prefix_def)
  then have ev: "apply_rule x now (path_rule name ''deny'' ''starts_with'' (CHR ''/'' # s)) (eval_context rq lc body) rl = (Next, rl)"
    if "lc_path lc = seen" for x now rq lc body rl
    using that by (simp add: apply_rule_def rule_matches_def path_rule_def rule_default_def evaluate_condition_def
        match_path_condition_def cond_string_def eval_context_def Let_def)
  have "seen \<noteq> ''/_ping''" using pre by (auto simp: prefix_def)
  with c t show ?thesis
    by (simp add: handle_eval ev decision_allow_def finish_response_acts Let_def)
qed

theorem double_encoding_bypasses_rule_witness:
  "\<exists>req. SendRequest req \<in> set (fst (snd (handle no_external (docker_answers ''a'')
             ((info_request [])\<lparr>rq_path := CHR ''/'' # percent_encode (percent_encode ''secrets'')\<rparr>)
             (open_state [path_rule ''block-secrets'' ''deny'' ''starts_with'' (CHR ''/'' # ''secrets'')]))))
           \<and> percent_decode (ur_uri req) = Some (CHR ''/'' # ''secrets'')"
  by (rule double_encoding_bypasses_rule) (simp_all add: MAX_PATH_LEN_def)

section \<open>Authentication and the handler\<close>

text \<open>
  (C7) The proxy fails closed: with no \<^verbatim>\<open>auth\<close> section and no secret in the environment every request
  is answered with 400, 401 or 429 and Docker is not contacted.
\<close>

theorem fails_closed:
  assumes "cfg_auth (current_config st) = None" and "ps_env_secret st = []"
  shows "\<exists>resp st'. handle x fx rq st = (Some resp, [], st') \<and> resp_status resp \<in> {400, 401, 429}"
  using assms by (intro handle_when_denied unconfigured_denied) simp_all

theorem fails_closed_witness:
  "\<exists>resp st'. handle no_external (docker_answers ''a'') (info_request (bearer ''guess'')) fresh_state = (Some resp, [], st')
     \<and> resp_status resp \<in> {400, 401, 429}"
  by (rule fails_closed) (simp_all add: fresh_state_def current_config_def proxy_config_default_def)

section \<open>Certificates, listener and handler\<close>

text \<open>
  (C8) Certificate authentication needs a client CA: when the configuration asks for \<^verbatim>\<open>mtls\<close> but its
  TLS section is missing or names no client CA, the listener it creates admits nobody. Every
  connection is refused with 400, 401 or 429 and Docker is not contacted, given that \<^verbatim>\<open>rustls\<close>
  reports no peer certificates for a server that does not ask for any.
\<close>

theorem mtls_needs_client_ca:
  assumes "auth_type (current_config st) = Some ''mtls''"
    and "\<And>tls. global_opt (current_config st) g_tls = Some tls \<Longrightarrow> tls_client_ca tls = None"
    and "create_listener l w bind (current_config st) = Inr (addr, acceptor)"
    and "\<And>sc certs. acceptor = Some sc \<Longrightarrow> sc_client_auth sc = NoClientAuth \<Longrightarrow> handshake = Done certs \<Longrightarrow> certs = None"
    and "serve_conn x l acceptor handshake fx rq st = Some (resp, acts, st')"
  shows "acts = [] \<and> (\<exists>r. resp = Some r \<and> resp_status r \<in> {400, 401, 429})"
proof -
  from serve_conn_handle [OF assms(5)] obtain cert where h: "(resp, acts, st') = handle x fx (rq\<lparr>rq_cert := cert\<rparr>) st"
    and plain: "acceptor = None \<longrightarrow> cert = None"
    and tls: "acceptor \<noteq> None \<longrightarrow> (\<exists>certs. handshake = Done certs \<and> cert = peer_identity l certs)" by (elim exE conjE)
  have "cert = None"
  proof (cases acceptor)
    case (Some sc)
    have na: "sc_client_auth sc = NoClientAuth"
      by (rule listener_without_ca [OF assms(3) [unfolded Some] assms(2)])
    from tls Some obtain certs where hs: "handshake = Done certs" and c: "cert = peer_identity l certs" by blast
    have "certs = None" by (rule assms(4) [OF Some na hs])
    then show ?thesis by (simp add: c peer_identity_def)
  qed (simp add: plain)
  then have "\<exists>code msg. code \<in> {401, 429} \<and> authenticate x (fx_auth_clock fx) (current_config st)
      (rq_headers (rq\<lparr>rq_cert := cert\<rparr>)) (rq_peer (rq\<lparr>rq_cert := cert\<rparr>)) (rq_cert (rq\<lparr>rq_cert := cert\<rparr>)) s
        = (Some (Denied code msg), s)" for s
    using mtls_without_certificate [OF assms(1)] by simp
  from handle_when_denied [of st "{401, 429}" x fx "rq\<lparr>rq_cert := cert\<rparr>", OF this] h show ?thesis by auto
qed

text \<open>TLS without a client CA, and \<^verbatim>\<open>auth.type: mtls\<close>.\<close>

definition mtls_state :: proxy_state where
  "mtls_state = fresh_state\<lparr>ps_config_holder :=
     \<lparr>cfg_global = Some (global_config_default\<lparr>g_tls := Some (tls_files None)\<rparr>),
      cfg_auth = Some \<lparr>a_type = Some ''mtls'', a_secret = None, a_tokens = None,
        a_mtls = Some \<lparr>cert_role_map = None, default_role = Some ''admin''\<rparr>\<rparr>,
      cfg_rules = None\<rparr>\<rparr>"

theorem mtls_needs_client_ca_witness:
  "\<exists>resp st'. serve_conn no_external stub_tls (Some \<lparr>sc_client_auth = NoClientAuth, sc_certs = [''c''], sc_key = ''k''\<rparr>)
      (Done None) (docker_answers ''a'') (info_request []) mtls_state = Some (resp, [], st')"
proof -
  let ?sc = "\<lparr>sc_client_auth = NoClientAuth, sc_certs = [''c''], sc_key = ''k''\<rparr>"
  have "\<exists>addr. create_listener stub_tls docker_world (\<lambda>_. Inr ()) (current_config mtls_state) = Inr (addr, Some ?sc)"
    by (simp add: create_listener_def global_opt_def mtls_state_def fresh_state_def current_config_def global_config_default_def
        build_server_config_def client_auth_mode_def load_certs_def load_private_key_def stub_tls_def tls_files_def map_err_def)
  then obtain addr where l: "create_listener stub_tls docker_world (\<lambda>_. Inr ()) (current_config mtls_state) = Inr (addr, Some ?sc)" by blast
  obtain resp acts st' where s: "serve_conn no_external stub_tls (Some ?sc) (Done None) (docker_answers ''a'') (info_request []) mtls_state
      = Some (resp, acts, st')" by (auto simp: serve_conn_def serve_tls_def intro: prod_cases3)
  have "acts = [] \<and> (\<exists>r. resp = Some r \<and> resp_status r \<in> {400, 401, 429})"
    by (rule mtls_needs_client_ca [OF _ _ l _ s])
       (auto simp: mtls_state_def fresh_state_def current_config_def auth_type_def global_opt_def global_config_default_def tls_files_def)
  with s show ?thesis by auto
qed

end
